(* ===== verification/Rialto_Prelude.thy ===== *)
theory Rialto_Prelude
  imports Main "HOL-Library.Word"
begin

text \<open>
  Shared vocabulary of the development: machine integers at the widths the C++ code uses, the
  result type that carries an undefined behaviour of the code (a null dereference, a division by
  zero) as a value, association lists for the containers whose iteration order the code observes,
  and the theorem collections the component theories add to.
\<close>

section \<open>Machine integers\<close>

text \<open>
  \<open>uint8_t\<close> to \<open>uint64_t\<close> are words of their width. \<open>int32_t\<close> and \<open>int64_t\<close> are words too, read
  with \<open>sint\<close> where the code compares them. A \<open>double\<close> is its 64-bit pattern: the code only stores
  and forwards doubles. \<open>size_t\<close> and \<open>gsize\<close> are 64 bits wide.
\<close>

type_synonym u8 = "8 word"
type_synonym u16 = "16 word"
type_synonym u32 = "32 word"
type_synonym u64 = "64 word"
type_synonym i32 = "32 word"
type_synonym i64 = "64 word"
type_synonym double_bits = "64 word"

section \<open>Theorem collections\<close>

named_theorems queue_simps \<open>unfolding rules of the message queue operations\<close>
named_theorems sink_simps \<open>field effects of the base sink operations\<close>
named_theorems client_defs \<open>definitions of the event loop bodies of the media player client\<close>
named_theorems manager_defs \<open>definitions of the media player manager operations\<close>

section \<open>Faults\<close>

text \<open>
  What the C++ code leaves undefined is a value here, so that a theorem can say that it does not
  happen: dereferencing a null or empty pointer, dividing by zero, indexing a container out of range,
  using an object that has been released, and a thread that joins one that waits for it.
\<close>

datatype fault = Null_Deref | Div_By_Zero | Out_Of_Range | Use_After_Free | Deadlock

type_synonym 'a result = "fault + 'a"

definition bind_result :: "'a result \<Rightarrow> ('a \<Rightarrow> 'b result) \<Rightarrow> 'b result" where
  "bind_result r f = (case r of Inl e \<Rightarrow> Inl e | Inr x \<Rightarrow> f x)"

lemma bind_result_simps [simp]:
  "bind_result (Inl e) f = Inl e"
  "bind_result (Inr x) f = f x"
  by (simp_all add: bind_result_def)

text \<open>For evaluation: the continuation is left alone until the first result is known.\<close>

lemma bind_result_weak_cong: "r = r' \<Longrightarrow> bind_result r f = bind_result r' f"
  by simp

lemma bind_result_Inr:
  "bind_result r f = Inr y \<longleftrightarrow> (\<exists>x. r = Inr x \<and> f x = Inr y)"
  by (cases r) simp_all

lemma bind_result_assoc: "bind_result (bind_result r f) g = bind_result r (\<lambda>x. bind_result (f x) g)"
  by (cases r) simp_all

lemma bind_result_Inl:
  "bind_result r f = Inl e \<longleftrightarrow> r = Inl e \<or> (\<exists>x. r = Inr x \<and> f x = Inl e)"
  by (cases r) auto

definition is_fault :: "'a result \<Rightarrow> bool" where
  "is_fault r = (case r of Inl _ \<Rightarrow> True | Inr _ \<Rightarrow> False)"

lemma is_fault_simps [simp]: "is_fault (Inl e)" "\<not> is_fault (Inr x)"
  by (simp_all add: is_fault_def)

text \<open>\<open>yields P r\<close>: no fault, and \<open>P\<close> of the value.\<close>

definition yields :: "('a \<Rightarrow> bool) \<Rightarrow> 'a result \<Rightarrow> bool" where
  "yields P r = (case r of Inl _ \<Rightarrow> False | Inr x \<Rightarrow> P x)"

lemma yields_simps [simp]: "yields P (Inr x) = P x" "\<not> yields P (Inl e)"
  by (simp_all add: yields_def)

lemma yields_bind: "yields P r \<Longrightarrow> (\<And>x. P x \<Longrightarrow> yields Q (h x)) \<Longrightarrow> yields Q (bind_result r h)"
  by (cases r) simp_all

lemma yields_mono: "yields P r \<Longrightarrow> (\<And>x. P x \<Longrightarrow> Q x) \<Longrightarrow> yields Q r"
  by (cases r) simp_all

lemma yieldsE:
  assumes "yields P r"
  obtains x where "r = Inr x" "P x"
  using assms by (cases r) auto

section \<open>Association lists\<close>

text \<open>
  The code iterates over \<open>std::unordered_map\<close> and \<open>std::map\<close>. Such a container is an association
  list whose order is the iteration order; lookups use \<open>map_of\<close>.
\<close>

definition assoc_erase :: "'k \<Rightarrow> ('k \<times> 'v) list \<Rightarrow> ('k \<times> 'v) list" where
  "assoc_erase k xs = filter (\<lambda>(k', _). k' \<noteq> k) xs"

definition assoc_emplace :: "'k \<Rightarrow> 'v \<Rightarrow> ('k \<times> 'v) list \<Rightarrow> ('k \<times> 'v) list" where
  "assoc_emplace k v xs = (case map_of xs k of None \<Rightarrow> xs @ [(k, v)] | Some _ \<Rightarrow> xs)"

definition assoc_modify :: "'k \<Rightarrow> ('v \<Rightarrow> 'v) \<Rightarrow> ('k \<times> 'v) list \<Rightarrow> ('k \<times> 'v) list" where
  "assoc_modify k f xs = map (\<lambda>(k', v). (k', if k' = k then f v else v)) xs"

definition assoc_map :: "('v \<Rightarrow> 'w) \<Rightarrow> ('k \<times> 'v) list \<Rightarrow> ('k \<times> 'w) list" where
  "assoc_map f xs = map (\<lambda>(k, v). (k, f v)) xs"

lemma map_of_assoc_erase: "map_of (assoc_erase k xs) k' = (if k' = k then None else map_of xs k')"
  by (induction xs) (auto simp: assoc_erase_def)

lemma map_of_assoc_emplace:
  "map_of (assoc_emplace k v xs) k' =
     (if k' = k \<and> map_of xs k = None then Some v else map_of xs k')"
  by (auto simp: assoc_emplace_def map_add_def split: option.splits)

lemma map_of_assoc_modify:
  "map_of (assoc_modify k f xs) k' = (if k' = k then map_option f (map_of xs k) else map_of xs k')"
  by (induction xs) (auto simp: assoc_modify_def)

lemma map_of_assoc_map: "map_of (assoc_map f xs) k = map_option f (map_of xs k)"
  by (induction xs) (auto simp: assoc_map_def)

lemma keys_assoc_erase: "map fst (assoc_erase k xs) = filter (\<lambda>k'. k' \<noteq> k) (map fst xs)"
  by (induction xs) (auto simp: assoc_erase_def)

lemma keys_assoc_modify [simp]: "map fst (assoc_modify k f xs) = map fst xs"
  by (induction xs) (auto simp: assoc_modify_def)

lemma keys_assoc_map [simp]: "map fst (assoc_map f xs) = map fst xs"
  by (induction xs) (auto simp: assoc_map_def)

lemma distinct_assoc_erase [intro]:
  "distinct (map fst xs) \<Longrightarrow> distinct (map fst (assoc_erase k xs))"
  by (simp add: keys_assoc_erase)

lemma distinct_assoc_emplace [intro]:
  "distinct (map fst xs) \<Longrightarrow> distinct (map fst (assoc_emplace k v xs))"
  by (auto simp: assoc_emplace_def map_of_eq_None_iff split: option.splits)

lemma set_assoc_erase: "set (assoc_erase k xs) = {p \<in> set xs. fst p \<noteq> k}"
  by (auto simp: assoc_erase_def)

lemma set_assoc_modify:
  "set (assoc_modify k f xs) = (\<lambda>(k', v). (k', if k' = k then f v else v)) ` set xs"
  by (simp add: assoc_modify_def)

lemma set_assoc_map: "set (assoc_map f xs) = (\<lambda>(k, v). (k, f v)) ` set xs"
  by (simp add: assoc_map_def)

lemma assoc_emplace_fresh: "map_of xs k = None \<Longrightarrow> assoc_emplace k v xs = xs @ [(k, v)]"
  by (simp add: assoc_emplace_def)

lemma list_all_assoc_modify:
  "list_all (\<lambda>(k, a). P a) xs \<Longrightarrow> (\<And>a. P a \<Longrightarrow> P (f a)) \<Longrightarrow> list_all (\<lambda>(k, a). P a) (assoc_modify i f xs)"
  by (auto simp: list_all_iff assoc_modify_def)

lemma list_all_assoc_modify_at:
  "distinct (map fst xs) \<Longrightarrow> map_of xs i = Some a \<Longrightarrow> P (f a) \<Longrightarrow> list_all (\<lambda>(k, a). P a) xs \<Longrightarrow>
   list_all (\<lambda>(k, a). P a) (assoc_modify i f xs)"
  by (auto simp: list_all_iff assoc_modify_def map_of_eq_Some_iff dest: eq_key_imp_eq_value)

lemma list_all_assoc_map: "(\<And>a. P (f a)) \<Longrightarrow> list_all (\<lambda>(k, a). P a) (assoc_map f xs)"
  by (auto simp: list_all_iff assoc_map_def)

lemma list_all_assoc_erase: "list_all P xs \<Longrightarrow> list_all P (assoc_erase k xs)"
  by (auto simp: list_all_iff assoc_erase_def)

lemma assoc_modify_assoc_modify:
  "assoc_modify k f (assoc_modify k g xs) = assoc_modify k (\<lambda>v. f (g v)) xs"
  by (auto simp: assoc_modify_def)

lemma assoc_erase_modify: "assoc_erase k (assoc_modify k f xs) = assoc_erase k xs"
  by (induction xs) (auto simp: assoc_erase_def assoc_modify_def)

lemma assoc_modify_cong:
  "distinct (map fst xs) \<Longrightarrow> map_of xs k = Some v \<Longrightarrow> f v = g v \<Longrightarrow> assoc_modify k f xs = assoc_modify k g xs"
  by (auto simp: assoc_modify_def map_of_eq_Some_iff dest: eq_key_imp_eq_value)

lemma assoc_modify_absent: "map_of xs k = None \<Longrightarrow> assoc_modify k f xs = xs"
  by (induction xs) (auto simp: assoc_modify_def split: if_splits)

section \<open>Sums over a finite set with one changed point\<close>

lemma sum_fun_upd:
  fixes r :: "'p \<Rightarrow> nat"
  assumes "finite A" "t \<in> A"
  shows "(\<Sum>x\<in>A. r ((f(t := p)) x)) + r (f t) = (\<Sum>x\<in>A. r (f x)) + r p"
proof -
  have "(\<Sum>x\<in>A. r ((f(t := p)) x)) = r p + (\<Sum>x\<in>A - {t}. r (f x))"
    using assms by (simp add: sum.remove)
  moreover have "(\<Sum>x\<in>A. r (f x)) = r (f t) + (\<Sum>x\<in>A - {t}. r (f x))"
    using assms by (simp add: sum.remove)
  ultimately show ?thesis by simp
qed

end
