(* ===== verification/Message_Queue.thy ===== *)
theory Message_Queue
  imports Rialto_Prelude
begin

text \<open>
  The event loop of \<open>IMessageQueue.h\<close>, \<open>MessageQueue.h\<close> and \<open>MessageQueue.cpp\<close>.

  First the operations, one definition per C++ function, on a state that holds \<open>m_running\<close>,
  \<open>m_queue\<close>, the control point of the worker thread and of every calling thread, and the \<open>m_done\<close>
  flag of the \<open>CallInEventLoopMessage\<close> each thread waits for. Then \<open>mq_step\<close>, the interleaving
  semantics: one rule per atomic piece of the code (a region under \<open>m_mutex\<close>, the unlocked read of
  \<open>m_running\<close>, the wake-up from \<open>wait\<close>, the join). The ghost fields \<open>mq_posted\<close> and \<open>mq_taken\<close>
  record what was pushed and what left the queue. The invariant \<open>mq_inv\<close> gives the order of
  delivery and the release of every blocked caller. Last the sequential queue \<open>squeue\<close>, the
  specification the client theories use, with the interface locale and the refinement.

  Handlers are assumed to return, and a queue is started only when no worker thread is attached to
  it (the code would otherwise overwrite a joinable \<open>std::thread\<close>).
\<close>

section \<open>State\<close>

type_synonym tid = nat

text \<open>
  The function given to \<open>callInEventLoop\<close>: a caller's lambda, or the lambda of \<open>doStop\<close>. A message
  is a posted one or the \<open>CallInEventLoopMessage\<close> a thread created.
\<close>

datatype 'f call_body = User_Func 'f | Set_Not_Running

datatype ('m, 'f) message = Plain 'm | Call_Message tid "'f call_body"

datatype ('m, 'f) worker_pc =
  No_Thread | Waiting | Handling "('m, 'f) message" | Checking | Exited

datatype caller_pc =
  Ready | Waiting_Call | Stop_Calling | Stop_Waiting | Stop_Joining | Stop_Clearing

datatype disposal = Handled | Skipped

record ('m, 'f) mqueue =
  mq_running :: bool
  mq_queue :: "('m, 'f) message list"
  mq_worker :: "('m, 'f) worker_pc"
  mq_caller :: "tid \<Rightarrow> caller_pc"
  mq_done :: "tid \<Rightarrow> bool"
  mq_posted :: "('m, 'f) message list"
  mq_taken :: "(('m, 'f) message \<times> disposal) list"

definition new_queue :: "('m, 'f) mqueue" where
  "new_queue = \<lparr>mq_running = False, mq_queue = [], mq_worker = No_Thread,
     mq_caller = (\<lambda>_. Ready), mq_done = (\<lambda>_. False), mq_posted = [], mq_taken = []\<rparr>"

section \<open>Operations\<close>

definition mq_start :: "('m, 'f) mqueue \<Rightarrow> ('m, 'f) mqueue" where
  "mq_start q = (if mq_running q then q else q\<lparr>mq_running := True, mq_worker := Waiting\<rparr>)"

definition postMessage :: "('m, 'f) mqueue \<Rightarrow> ('m, 'f) message \<Rightarrow> ('m, 'f) mqueue \<times> bool" where
  "postMessage q m =
     (if \<not> mq_running q then (q, False)
      else (q\<lparr>mq_queue := mq_queue q @ [m], mq_posted := mq_posted q @ [m]\<rparr>, True))"

text \<open>\<open>waitForMessage\<close> blocks on an empty queue (\<open>None\<close>) and otherwise pops the front.\<close>

definition waitForMessage :: "('m, 'f) mqueue \<Rightarrow> (('m, 'f) message \<times> ('m, 'f) mqueue) option" where
  "waitForMessage q =
     (case mq_queue q of
        [] \<Rightarrow> None
      | m # ms \<Rightarrow> Some (m, q\<lparr>mq_queue := ms, mq_taken := mq_taken q @ [(m, Handled)]\<rparr>))"

text \<open>
  \<open>handle\<close> of a \<open>CallInEventLoopMessage\<close> runs the function and sets \<open>m_done\<close>; \<open>skip\<close> only sets
  \<open>m_done\<close>. The effect of a plain message or of a caller's lambda is outside the queue.
\<close>

definition set_done :: "tid \<Rightarrow> ('m, 'f) mqueue \<Rightarrow> ('m, 'f) mqueue" where
  "set_done t q = q\<lparr>mq_done := (mq_done q)(t := True)\<rparr>"

fun handle_message :: "('m, 'f) message \<Rightarrow> ('m, 'f) mqueue \<Rightarrow> ('m, 'f) mqueue" where
  "handle_message (Plain m) q = q"
| "handle_message (Call_Message t (User_Func f)) q = set_done t q"
| "handle_message (Call_Message t Set_Not_Running) q = set_done t (q\<lparr>mq_running := False\<rparr>)"

fun skip_message :: "('m, 'f) message \<Rightarrow> ('m, 'f) mqueue \<Rightarrow> ('m, 'f) mqueue" where
  "skip_message (Plain m) q = q"
| "skip_message (Call_Message t b) q = set_done t q"

fun clear_loop :: "('m, 'f) message list \<Rightarrow> ('m, 'f) mqueue \<Rightarrow> ('m, 'f) mqueue" where
  "clear_loop [] q = q"
| "clear_loop (m # ms) q =
     clear_loop ms ((skip_message m q)\<lparr>mq_queue := ms, mq_taken := mq_taken q @ [(m, Skipped)]\<rparr>)"

definition doClear :: "('m, 'f) mqueue \<Rightarrow> ('m, 'f) mqueue" where
  "doClear q = clear_loop (mq_queue q) q"

definition set_caller :: "tid \<Rightarrow> caller_pc \<Rightarrow> ('m, 'f) mqueue \<Rightarrow> ('m, 'f) mqueue" where
  "set_caller t pc q = q\<lparr>mq_caller := (mq_caller q)(t := pc)\<rparr>"

text \<open>
  The first half of \<open>callInEventLoop\<close> on a thread that is not the worker: construct the message
  (\<open>m_done\<close> is false) and post it. The boolean says whether it was accepted; then the caller goes
  to \<open>wait\<close>.
\<close>

definition call_post :: "tid \<Rightarrow> 'f call_body \<Rightarrow> ('m, 'f) mqueue \<Rightarrow> ('m, 'f) mqueue \<times> bool" where
  "call_post t b q = postMessage (q\<lparr>mq_done := (mq_done q)(t := False)\<rparr>) (Call_Message t b)"

section \<open>Interleaving semantics\<close>

text \<open>
  External steps start an operation, internal steps are those that finish what has been started:
  they are the ones the scheduler must eventually run.
\<close>

inductive mq_external :: "('m, 'f) mqueue \<Rightarrow> ('m, 'f) mqueue \<Rightarrow> bool" where
  start: "mq_worker q = No_Thread \<Longrightarrow> mq_external q (mq_start q)"
| post: "mq_external q (fst (postMessage q (Plain m)))"
| call: "mq_caller q t = Ready \<Longrightarrow> call_post t (User_Func f) q = (q', True) \<Longrightarrow>
    mq_external q (set_caller t Waiting_Call q')"
| call_refused: "mq_caller q t = Ready \<Longrightarrow> call_post t (User_Func f) q = (q', False) \<Longrightarrow>
    mq_external q q'"
| stop: "mq_caller q t = Ready \<Longrightarrow> mq_running q \<Longrightarrow> mq_external q (set_caller t Stop_Calling q)"
| clear: "mq_caller q t = Ready \<Longrightarrow> mq_external q (doClear q)"

inductive mq_internal :: "('m, 'f) mqueue \<Rightarrow> ('m, 'f) mqueue \<Rightarrow> bool" where
  worker_take: "mq_worker q = Waiting \<Longrightarrow> waitForMessage q = Some (m, q') \<Longrightarrow>
    mq_internal q (q'\<lparr>mq_worker := Handling m\<rparr>)"
| worker_handle: "mq_worker q = Handling m \<Longrightarrow>
    mq_internal q ((handle_message m q)\<lparr>mq_worker := Checking\<rparr>)"
| worker_check: "mq_worker q = Checking \<Longrightarrow>
    mq_internal q (q\<lparr>mq_worker := (if mq_running q then Waiting else Exited)\<rparr>)"
| call_return: "mq_caller q t = Waiting_Call \<Longrightarrow> mq_done q t \<Longrightarrow> mq_internal q (set_caller t Ready q)"
| stop_post: "mq_caller q t = Stop_Calling \<Longrightarrow> call_post t Set_Not_Running q = (q', b) \<Longrightarrow>
    mq_internal q (set_caller t (if b then Stop_Waiting else Stop_Joining) q')"
| stop_wake: "mq_caller q t = Stop_Waiting \<Longrightarrow> mq_done q t \<Longrightarrow>
    mq_internal q (set_caller t Stop_Joining q)"
| stop_join: "mq_caller q t = Stop_Joining \<Longrightarrow> mq_worker q \<in> {No_Thread, Exited} \<Longrightarrow>
    mq_internal q (set_caller t Stop_Clearing (q\<lparr>mq_worker := No_Thread\<rparr>))"
| stop_clear: "mq_caller q t = Stop_Clearing \<Longrightarrow> mq_internal q (set_caller t Ready (doClear q))"

definition mq_step :: "('m, 'f) mqueue \<Rightarrow> ('m, 'f) mqueue \<Rightarrow> bool" where
  "mq_step q q' \<longleftrightarrow> mq_external q q' \<or> mq_internal q q'"

inductive mq_reachable :: "('m, 'f) mqueue \<Rightarrow> bool" where
  init: "mq_reachable new_queue"
| step: "mq_reachable q \<Longrightarrow> mq_step q q' \<Longrightarrow> mq_reachable q'"

inductive_cases mq_externalE: "mq_external q q'"
inductive_cases mq_internalE: "mq_internal q q'"

section \<open>Field effects of the operations\<close>

fun is_call_of :: "tid \<Rightarrow> ('m, 'f) message \<Rightarrow> bool" where
  "is_call_of t (Plain m) = False"
| "is_call_of t (Call_Message t' b) = (t' = t)"

definition calls_of :: "tid \<Rightarrow> ('m, 'f) message list \<Rightarrow> ('m, 'f) message list" where
  "calls_of t ms = filter (is_call_of t) ms"

lemma calls_of_simps [simp]:
  "calls_of t [] = []"
  "calls_of t (m # ms) = (if is_call_of t m then m # calls_of t ms else calls_of t ms)"
  "calls_of t (ms @ ns) = calls_of t ms @ calls_of t ns"
  by (simp_all add: calls_of_def)

lemma calls_of_eq_Nil: "calls_of t ms = [] \<longleftrightarrow> (\<forall>m \<in> set ms. \<not> is_call_of t m)"
  by (auto simp: calls_of_def filter_empty_conv)

lemma set_done_fields [simp]:
  "mq_running (set_done t q) = mq_running q" "mq_queue (set_done t q) = mq_queue q"
  "mq_worker (set_done t q) = mq_worker q" "mq_caller (set_done t q) = mq_caller q"
  "mq_done (set_done t q) = (mq_done q)(t := True)" "mq_posted (set_done t q) = mq_posted q"
  "mq_taken (set_done t q) = mq_taken q"
  by (simp_all add: set_done_def)

lemma set_caller_fields [simp]:
  "mq_running (set_caller t p q) = mq_running q" "mq_queue (set_caller t p q) = mq_queue q"
  "mq_worker (set_caller t p q) = mq_worker q"
  "mq_caller (set_caller t p q) = (mq_caller q)(t := p)" "mq_done (set_caller t p q) = mq_done q"
  "mq_posted (set_caller t p q) = mq_posted q" "mq_taken (set_caller t p q) = mq_taken q"
  by (simp_all add: set_caller_def)

lemma skip_message_fields [simp]:
  "mq_running (skip_message m q) = mq_running q" "mq_worker (skip_message m q) = mq_worker q"
  "mq_caller (skip_message m q) = mq_caller q" "mq_posted (skip_message m q) = mq_posted q"
  "mq_queue (skip_message m q) = mq_queue q" "mq_taken (skip_message m q) = mq_taken q"
  "mq_done (skip_message m q) = (\<lambda>t. mq_done q t \<or> is_call_of t m)"
  by (cases m; auto)+

lemma handle_message_fields [simp]:
  "mq_worker (handle_message m q) = mq_worker q" "mq_caller (handle_message m q) = mq_caller q"
  "mq_posted (handle_message m q) = mq_posted q" "mq_queue (handle_message m q) = mq_queue q"
  "mq_taken (handle_message m q) = mq_taken q"
  "mq_done (handle_message m q) = (\<lambda>t. mq_done q t \<or> is_call_of t m)"
  "mq_running (handle_message m q) \<longleftrightarrow> mq_running q \<and> (\<forall>t. m \<noteq> Call_Message t Set_Not_Running)"
  by (cases m; cases "case m of Call_Message t b \<Rightarrow> b | _ \<Rightarrow> undefined"; auto)+

lemma clear_loop_fields:
  "mq_queue q = ms \<Longrightarrow>
   mq_running (clear_loop ms q) = mq_running q \<and> mq_queue (clear_loop ms q) = [] \<and>
   mq_worker (clear_loop ms q) = mq_worker q \<and> mq_caller (clear_loop ms q) = mq_caller q \<and>
   mq_posted (clear_loop ms q) = mq_posted q \<and>
   mq_done (clear_loop ms q) = (\<lambda>t. mq_done q t \<or> calls_of t ms \<noteq> []) \<and>
   mq_taken (clear_loop ms q) = mq_taken q @ map (\<lambda>m. (m, Skipped)) ms"
  by (induction ms arbitrary: q) auto

lemma doClear_fields [simp]:
  "mq_running (doClear q) = mq_running q" "mq_queue (doClear q) = []"
  "mq_worker (doClear q) = mq_worker q" "mq_caller (doClear q) = mq_caller q"
  "mq_posted (doClear q) = mq_posted q"
  "mq_done (doClear q) = (\<lambda>t. mq_done q t \<or> calls_of t (mq_queue q) \<noteq> [])"
  "mq_taken (doClear q) = mq_taken q @ map (\<lambda>m. (m, Skipped)) (mq_queue q)"
  using clear_loop_fields [of q "mq_queue q"] by (simp_all add: doClear_def)

lemma mq_start_fields [simp]:
  "mq_running (mq_start q)" "mq_queue (mq_start q) = mq_queue q"
  "mq_worker (mq_start q) = (if mq_running q then mq_worker q else Waiting)"
  "mq_caller (mq_start q) = mq_caller q" "mq_done (mq_start q) = mq_done q"
  "mq_posted (mq_start q) = mq_posted q" "mq_taken (mq_start q) = mq_taken q"
  by (simp_all add: mq_start_def)

lemma postMessage_fields [simp]:
  "mq_running (fst (postMessage q m)) = mq_running q"
  "mq_queue (fst (postMessage q m)) = mq_queue q @ (if mq_running q then [m] else [])"
  "mq_worker (fst (postMessage q m)) = mq_worker q" "mq_caller (fst (postMessage q m)) = mq_caller q"
  "mq_done (fst (postMessage q m)) = mq_done q"
  "mq_posted (fst (postMessage q m)) = mq_posted q @ (if mq_running q then [m] else [])"
  "mq_taken (fst (postMessage q m)) = mq_taken q"
  "snd (postMessage q m) = mq_running q"
  by (simp_all add: postMessage_def)

lemma call_post_eq:
  "call_post t b q = (q', ok) \<longleftrightarrow>
     ok = mq_running q \<and>
     q' = q\<lparr>mq_done := (mq_done q)(t := False),
            mq_queue := mq_queue q @ (if ok then [Call_Message t b] else []),
            mq_posted := mq_posted q @ (if ok then [Call_Message t b] else [])\<rparr>"
  by (auto simp: call_post_def postMessage_def)

lemma waitForMessage_eq_Some:
  "waitForMessage q = Some (m, q') \<longleftrightarrow>
     (\<exists>ms. mq_queue q = m # ms \<and>
       q' = q\<lparr>mq_queue := ms, mq_taken := mq_taken q @ [(m, Handled)]\<rparr>)"
  by (auto simp: waitForMessage_def split: list.splits)

section \<open>The invariant\<close>

fun inflight :: "('m, 'f) worker_pc \<Rightarrow> ('m, 'f) message list" where
  "inflight (Handling m) = [m]"
| "inflight _ = []"

definition mq_pending :: "('m, 'f) mqueue \<Rightarrow> ('m, 'f) message list" where
  "mq_pending q = inflight (mq_worker q) @ mq_queue q"

text \<open>A thread is blocked while it sits in \<open>wait\<close> and its message is not done.\<close>

definition mq_blocked :: "('m, 'f) mqueue \<Rightarrow> tid \<Rightarrow> bool" where
  "mq_blocked q t \<longleftrightarrow> mq_caller q t \<in> {Waiting_Call, Stop_Waiting} \<and> \<not> mq_done q t"

definition inv_worker :: "('m, 'f) mqueue \<Rightarrow> bool" where
  "inv_worker q \<longleftrightarrow> (mq_running q \<longrightarrow> mq_worker q \<noteq> No_Thread \<and> mq_worker q \<noteq> Exited)"

definition inv_calls :: "('m, 'f) mqueue \<Rightarrow> bool" where
  "inv_calls q \<longleftrightarrow>
     (\<forall>t. length (calls_of t (mq_pending q)) = (if mq_blocked q t then 1 else 0))"

definition inv_stop_calls :: "('m, 'f) mqueue \<Rightarrow> bool" where
  "inv_stop_calls q \<longleftrightarrow>
     (\<forall>t. Call_Message t Set_Not_Running \<in> set (mq_pending q) \<longrightarrow> mq_caller q t = Stop_Waiting)"

definition inv_stopper :: "('m, 'f) mqueue \<Rightarrow> bool" where
  "inv_stopper q \<longleftrightarrow>
     (\<not> mq_running q \<and> mq_worker q \<noteq> No_Thread \<longrightarrow>
        (\<exists>t. mq_caller q t = Stop_Joining \<or> mq_caller q t = Stop_Waiting \<and> mq_done q t)) \<and>
     (\<not> mq_running q \<and> mq_worker q = No_Thread \<and> mq_queue q \<noteq> [] \<longrightarrow>
        (\<exists>t. mq_caller q t = Stop_Clearing))"

definition inv_history :: "('m, 'f) mqueue \<Rightarrow> bool" where
  "inv_history q \<longleftrightarrow> mq_posted q = map fst (mq_taken q) @ mq_queue q"

definition inv_finite :: "('m, 'f) mqueue \<Rightarrow> bool" where
  "inv_finite q \<longleftrightarrow> finite {t. mq_caller q t \<noteq> Ready}"

definition mq_inv :: "('m, 'f) mqueue \<Rightarrow> bool" where
  "mq_inv q \<longleftrightarrow> inv_worker q \<and> inv_calls q \<and> inv_stop_calls q \<and> inv_stopper q \<and>
     inv_history q \<and> inv_finite q"

lemma mq_inv_new_queue: "mq_inv new_queue"
  by (simp add: mq_inv_def inv_worker_def inv_calls_def inv_stop_calls_def inv_stopper_def
      inv_history_def inv_finite_def mq_pending_def mq_blocked_def new_queue_def)

lemma inv_history_external: "mq_external q q' \<Longrightarrow> inv_history q \<Longrightarrow> inv_history q'"
  by (induction rule: mq_external.induct) (auto simp: inv_history_def o_def simp: call_post_eq)

lemma inv_history_internal: "mq_internal q q' \<Longrightarrow> inv_history q \<Longrightarrow> inv_history q'"
  by (induction rule: mq_internal.induct)
    (auto simp: inv_history_def waitForMessage_eq_Some o_def simp: call_post_eq)

lemma inv_worker_external: "mq_external q q' \<Longrightarrow> inv_worker q \<Longrightarrow> inv_worker q'"
  by (induction rule: mq_external.induct) (auto simp: inv_worker_def simp: call_post_eq)

lemma inv_worker_internal: "mq_internal q q' \<Longrightarrow> inv_worker q \<Longrightarrow> inv_worker q'"
  by (induction rule: mq_internal.induct)
    (auto simp: inv_worker_def waitForMessage_eq_Some simp: call_post_eq)

lemma finite_caller_upd:
  "finite {t. f t \<noteq> Ready} \<Longrightarrow> finite {t. (f(t0 := p)) t \<noteq> Ready}"
  by (rule finite_subset [of _ "insert t0 {t. f t \<noteq> Ready}"]) auto

lemma inv_finite_external: "mq_external q q' \<Longrightarrow> inv_finite q \<Longrightarrow> inv_finite q'"
  by (induction rule: mq_external.induct)
    (auto simp: inv_finite_def simp del: fun_upd_apply intro!: finite_caller_upd simp: call_post_eq)

lemma inv_finite_internal: "mq_internal q q' \<Longrightarrow> inv_finite q \<Longrightarrow> inv_finite q'"
  by (induction rule: mq_internal.induct)
    (auto simp: inv_finite_def waitForMessage_eq_Some simp del: fun_upd_apply
      intro!: finite_caller_upd simp: call_post_eq)


lemma calls_of_mem: "Call_Message t b \<in> set ms \<Longrightarrow> calls_of t ms \<noteq> []"
  by (force simp: calls_of_eq_Nil)

lemma inv_calls_pending:
  assumes "inv_calls q" "Call_Message t b \<in> set (mq_pending q)"
  shows "mq_blocked q t"
  using assms calls_of_mem [OF assms(2)] by (auto simp: inv_calls_def split: if_splits)

lemma inv_stop_calls_external:
  "mq_external q q' \<Longrightarrow> inv_stop_calls q \<Longrightarrow> inv_calls q \<Longrightarrow> inv_stop_calls q'"
  by (induction rule: mq_external.induct)
    (auto 0 3 simp: inv_stop_calls_def mq_pending_def call_post_eq)

lemma inv_stop_calls_internal:
  assumes "mq_internal q q'" "inv_stop_calls q" "inv_calls q"
  shows "inv_stop_calls q'"
proof -
  have "\<forall>t b. Call_Message t b \<in> set (mq_pending q) \<longrightarrow> mq_blocked q t"
    using assms(3) inv_calls_pending by blast
  with assms(1,2) show ?thesis
    by (induction rule: mq_internal.induct)
      (auto 0 3 simp: inv_stop_calls_def mq_pending_def mq_blocked_def waitForMessage_eq_Some
        call_post_eq)
qed


definition inv_call_of :: "tid \<Rightarrow> ('m, 'f) mqueue \<Rightarrow> bool" where
  "inv_call_of t q \<longleftrightarrow> length (calls_of t (inflight (mq_worker q))) + length (calls_of t (mq_queue q)) =
     (if mq_blocked q t then 1 else 0)"

lemma inv_calls_iff: "inv_calls q \<longleftrightarrow> (\<forall>t. inv_call_of t q)"
  by (simp add: inv_calls_def inv_call_of_def mq_pending_def)

lemma inv_call_of_external: "mq_external q q' \<Longrightarrow> inv_call_of t q \<Longrightarrow> inv_call_of t q'"
  by (induction rule: mq_external.induct)
    (auto simp: inv_call_of_def mq_blocked_def call_post_eq add_is_1 split: if_splits)

lemma inv_call_of_internal: "mq_internal q q' \<Longrightarrow> inv_call_of t q \<Longrightarrow> inv_call_of t q'"
  by (induction rule: mq_internal.induct)
    (auto simp: inv_call_of_def mq_blocked_def call_post_eq waitForMessage_eq_Some add_is_1 split: if_splits)

lemma inv_stopper_external:
  "mq_external q q' \<Longrightarrow> inv_stopper q \<Longrightarrow> inv_worker q \<Longrightarrow> inv_stopper q'"
  by (induction rule: mq_external.induct)
    (force simp: inv_stopper_def inv_worker_def call_post_eq split: if_splits)+

lemma inv_stopper_internal:
  assumes "mq_internal q q'" "inv_stopper q" "inv_worker q" "inv_stop_calls q"
  shows "inv_stopper q'"
  using assms
  by (induction rule: mq_internal.induct)
    (force simp: inv_stopper_def inv_worker_def inv_stop_calls_def mq_pending_def call_post_eq
      waitForMessage_eq_Some split: if_splits)+

lemma inv_calls_external: "mq_external q q' \<Longrightarrow> inv_calls q \<Longrightarrow> inv_calls q'"
  by (auto simp: inv_calls_iff intro: inv_call_of_external)

lemma inv_calls_internal: "mq_internal q q' \<Longrightarrow> inv_calls q \<Longrightarrow> inv_calls q'"
  by (auto simp: inv_calls_iff intro: inv_call_of_internal)

lemmas mq_external_preserves =
  inv_history_external inv_worker_external inv_finite_external inv_stop_calls_external
  inv_calls_external inv_stopper_external

lemmas mq_internal_preserves =
  inv_history_internal inv_worker_internal inv_finite_internal inv_stop_calls_internal
  inv_calls_internal inv_stopper_internal

lemma mq_step_inv: "mq_step q q' \<Longrightarrow> mq_inv q \<Longrightarrow> mq_inv q'"
  unfolding mq_step_def mq_inv_def
  by (blast intro: mq_external_preserves mq_internal_preserves)

lemma mq_reachable_inv: "mq_reachable q \<Longrightarrow> mq_inv q"
  by (induction rule: mq_reachable.induct) (auto intro: mq_inv_new_queue mq_step_inv)

section \<open>Progress of the internal steps\<close>

fun worker_rank :: "('m, 'f) worker_pc \<Rightarrow> nat" where
  "worker_rank (Handling m) = 3"
| "worker_rank Checking = 2"
| "worker_rank Waiting = 1"
| "worker_rank _ = 0"

fun caller_rank :: "caller_pc \<Rightarrow> nat" where
  "caller_rank Ready = 0"
| "caller_rank Waiting_Call = 1"
| "caller_rank Stop_Clearing = 1"
| "caller_rank Stop_Joining = 2"
| "caller_rank Stop_Waiting = 3"
| "caller_rank Stop_Calling = 8"

definition callers_work :: "(tid \<Rightarrow> caller_pc) \<Rightarrow> nat" where
  "callers_work f = (\<Sum>t\<in>{t. f t \<noteq> Ready}. caller_rank (f t))"

text \<open>
  The work left: an upper bound on the number of internal steps that can be taken before the
  queue needs new input.
\<close>

definition mq_work :: "('m, 'f) mqueue \<Rightarrow> nat" where
  "mq_work q = 4 * length (mq_queue q) + worker_rank (mq_worker q) + callers_work (mq_caller q)"

lemma callers_work_upd:
  assumes "finite {t. f t \<noteq> Ready}"
  shows "callers_work (f(t := p)) + caller_rank (f t) = callers_work f + caller_rank p"
proof -
  let ?A = "insert t {t. f t \<noteq> Ready}"
  have fin: "finite ?A" using assms by simp
  have "callers_work (f(t := p)) = (\<Sum>x\<in>?A. caller_rank ((f(t := p)) x))"
    unfolding callers_work_def by (rule sum.mono_neutral_left [OF fin]) auto
  moreover have "callers_work f = (\<Sum>x\<in>?A. caller_rank (f x))"
    unfolding callers_work_def by (rule sum.mono_neutral_left [OF fin]) auto
  ultimately show ?thesis using sum_fun_upd [OF fin, of t caller_rank f p] by simp
qed

lemma mq_internal_work:
  assumes "mq_internal q q'" "inv_finite q"
  shows "mq_work q' < mq_work q"
proof -
  have upd: "callers_work ((mq_caller q)(t := p)) + caller_rank (mq_caller q t)
      = callers_work (mq_caller q) + caller_rank p" for t p
    using assms(2) by (intro callers_work_upd) (simp add: inv_finite_def)
  show ?thesis using assms(1)
  proof (cases rule: mq_internal.cases)
    case (stop_post t q'' b)
    then show ?thesis
      using upd [of t "if b then Stop_Waiting else Stop_Joining"]
      by (auto simp: mq_work_def call_post_eq)
  next
    case (stop_join t)
    then show ?thesis using upd [of t Stop_Clearing] by (auto simp: mq_work_def)
  next
    case (stop_clear t)
    then show ?thesis using upd [of t Ready] by (auto simp: mq_work_def)
  next
    case (stop_wake t)
    then show ?thesis using upd [of t Stop_Joining] by (auto simp: mq_work_def)
  next
    case (call_return t)
    then show ?thesis using upd [of t Ready] by (auto simp: mq_work_def)
  qed (auto simp: mq_work_def waitForMessage_eq_Some)
qed

text \<open>
  A blocked caller can never be stuck: its message is being handled, or the worker can move, or a
  stopper is about to join or to clear.
\<close>

lemma mq_progress_queued:
  assumes inv: "mq_inv q" and queued: "mq_queue q \<noteq> []"
  shows "\<exists>q'. mq_internal q q'"
proof (cases "mq_worker q")
  case No_Thread
  with inv have "\<not> mq_running q" by (auto simp: mq_inv_def inv_worker_def)
  with inv queued No_Thread obtain t where "mq_caller q t = Stop_Clearing"
    by (auto simp: mq_inv_def inv_stopper_def)
  then show ?thesis by (blast intro: mq_internal.stop_clear)
next
  case Waiting
  obtain m ms where "mq_queue q = m # ms" using queued by (cases "mq_queue q") auto
  then have "waitForMessage q = Some (m, q\<lparr>mq_queue := ms, mq_taken := mq_taken q @ [(m, Handled)]\<rparr>)"
    by (simp add: waitForMessage_def)
  then show ?thesis using Waiting by (blast intro: mq_internal.worker_take)
next
  case Exited
  with inv have "\<not> mq_running q" by (auto simp: mq_inv_def inv_worker_def)
  with inv Exited obtain t where
    "mq_caller q t = Stop_Joining \<or> mq_caller q t = Stop_Waiting \<and> mq_done q t"
    by (auto simp: mq_inv_def inv_stopper_def)
  then show ?thesis using Exited by (auto intro: mq_internal.stop_join mq_internal.stop_wake)
qed (blast intro: mq_internal.intros)+

lemma mq_progress:
  assumes inv: "mq_inv q" and blocked: "mq_blocked q t"
  shows "\<exists>q'. mq_internal q q'"
proof (cases "mq_queue q = []")
  case True
  from inv blocked have "length (calls_of t (mq_pending q)) = 1"
    by (auto simp: mq_inv_def inv_calls_def)
  then have "inflight (mq_worker q) \<noteq> []" using True by (auto simp: mq_pending_def)
  then obtain m where "mq_worker q = Handling m" by (cases "mq_worker q") auto
  then show ?thesis by (blast intro: mq_internal.worker_handle)
next
  case False
  with inv show ?thesis by (rule mq_progress_queued)
qed

lemma mq_internal_pow_inv: "(mq_internal ^^ n) q q' \<Longrightarrow> mq_inv q \<Longrightarrow> mq_inv q' \<and> n + mq_work q' \<le> mq_work q"
proof (induction n arbitrary: q')
  case 0
  then show ?case by simp
next
  case (Suc n)
  from Suc.prems(1) obtain r where r: "(mq_internal ^^ n) q r" "mq_internal r q'"
    by (auto elim: relpowp_Suc_E)
  from Suc.IH [OF r(1) Suc.prems(2)] have ih: "mq_inv r" "n + mq_work r \<le> mq_work q" by auto
  have "mq_work q' < mq_work r" using mq_internal_work [OF r(2)] ih(1) by (simp add: mq_inv_def)
  moreover have "mq_inv q'" using mq_step_inv ih(1) r(2) by (auto simp: mq_step_def)
  ultimately show ?case using ih(2) by simp
qed

section \<open>Guarantees\<close>

text \<open>
  C26. Every blocked caller is released. In every reachable state of the event loop the internal
  steps (worker, returning callers, stoppers) are bounded by \<open>mq_work\<close>, so they come to rest,
  and wherever they come to rest no thread is blocked in \<open>CallInEventLoopMessage::wait\<close>, under
  any interleaving with concurrent \<open>stop\<close> calls.
\<close>

theorem mq_callers_released:
  assumes "mq_reachable q"
  shows "(\<forall>n q'. (mq_internal ^^ n) q q' \<longrightarrow> n \<le> mq_work q) \<and>
    (\<forall>n q' t. (mq_internal ^^ n) q q' \<and> (\<forall>q''. \<not> mq_internal q' q'') \<longrightarrow> \<not> mq_blocked q' t)"
proof -
  have inv: "mq_inv q" using assms by (rule mq_reachable_inv)
  have "n \<le> mq_work q" if "(mq_internal ^^ n) q q'" for n q'
    using mq_internal_pow_inv [OF that inv] by simp
  moreover have "\<not> mq_blocked q' t"
    if "(mq_internal ^^ n) q q'" "\<forall>q''. \<not> mq_internal q' q''" for n q' t
    using mq_internal_pow_inv [OF that(1) inv] mq_progress that(2) by blast
  ultimately show ?thesis by blast
qed

text \<open>A reachable state with one caller blocked: thread 0 has called into a started queue.\<close>

definition mq_example :: "(unit, unit) mqueue" where
  "mq_example = set_caller 0 Waiting_Call (fst (call_post 0 (User_Func ()) (mq_start new_queue)))"

lemma mq_example_reachable: "mq_reachable mq_example"
proof -
  have "mq_reachable (mq_start (new_queue :: (unit, unit) mqueue))"
    by (rule mq_reachable.step [OF mq_reachable.init])
      (simp add: mq_step_def mq_external.start new_queue_def)
  moreover have "mq_external (mq_start new_queue) mq_example"
    unfolding mq_example_def
    by (rule mq_external.call [where f = "()"]) (auto simp: new_queue_def call_post_def postMessage_def)
  ultimately show ?thesis by (auto simp: mq_step_def intro: mq_reachable.step)
qed

lemma mq_example_blocked: "mq_blocked mq_example 0"
  by (simp add: mq_example_def mq_blocked_def call_post_def postMessage_def new_queue_def mq_start_def)

theorem mq_callers_released_witness:
  "mq_reachable mq_example \<and> mq_blocked mq_example 0 \<and>
   \<not> (\<exists>n q'. (mq_internal ^^ n) mq_example q' \<and> (\<forall>q''. \<not> mq_internal q' q'') \<and> mq_blocked q' 0)"
  using mq_callers_released [OF mq_example_reachable] mq_example_reachable mq_example_blocked by blast

text \<open>
  Messages are delivered in the order of posting and at most once: what was ever accepted is
  what left the queue (handled or skipped, in that order) followed by what is still queued, and
  the message a worker is handling is the last one taken for handling.
\<close>

theorem mq_fifo:
  assumes "mq_reachable q"
  shows "mq_posted q = map fst (mq_taken q) @ mq_queue q"
  using mq_reachable_inv [OF assms] by (simp add: mq_inv_def inv_history_def)

theorem mq_fifo_witness:
  "mq_posted mq_example = map fst (mq_taken mq_example) @ mq_queue mq_example \<and>
   mq_queue mq_example = [Call_Message 0 (User_Func ())]"
  using mq_fifo [OF mq_example_reachable]
  by (simp add: mq_example_def call_post_def postMessage_def new_queue_def mq_start_def)

text \<open>
  A stop leaves nothing behind. When the queue is not running and no thread is inside
  \<open>doStop\<close>, the worker thread has been joined, the queue is empty, every accepted message was
  handled or skipped, and no caller is blocked.
\<close>

theorem mq_stopped_is_drained:
  assumes "mq_reachable q" and "\<not> mq_running q"
    and "\<forall>t. mq_caller q t \<in> {Ready, Waiting_Call}"
  shows "mq_worker q = No_Thread \<and> mq_queue q = [] \<and> mq_posted q = map fst (mq_taken q) \<and>
    (\<forall>t. \<not> mq_blocked q t)"
proof -
  have inv: "mq_inv q" using assms(1) by (rule mq_reachable_inv)
  have idle: "mq_caller q t \<notin> {Stop_Joining, Stop_Waiting, Stop_Clearing}" for t
    using assms(3) by (metis caller_pc.distinct empty_iff insert_iff)
  have w: "mq_worker q = No_Thread" and e: "mq_queue q = []"
    using inv assms(2) idle by (auto simp: mq_inv_def inv_stopper_def)
  moreover have "\<not> mq_blocked q t" for t
    using inv w e by (auto simp: mq_inv_def inv_calls_def mq_pending_def split: if_splits)
  ultimately show ?thesis using inv by (simp add: mq_inv_def inv_history_def)
qed

text \<open>
  A complete life of a queue with one posted message and one stop: the stop lambda is queued behind
  the message, both are handled, the worker leaves its loop, is joined, and the queue is cleared.
\<close>

definition mq_state :: "bool \<Rightarrow> (unit, unit) message list \<Rightarrow> (unit, unit) worker_pc \<Rightarrow> caller_pc \<Rightarrow>
    bool \<Rightarrow> (unit, unit) message list \<Rightarrow> ((unit, unit) message \<times> disposal) list \<Rightarrow> (unit, unit) mqueue" where
  "mq_state run ms w c d posted taken = \<lparr>mq_running = run, mq_queue = ms, mq_worker = w,
     mq_caller = (\<lambda>_. Ready)(0 := c), mq_done = (\<lambda>_. False)(0 := d),
     mq_posted = posted, mq_taken = taken\<rparr>"

abbreviation stop_message :: "(unit, unit) message" where
  "stop_message \<equiv> Call_Message 0 Set_Not_Running"

definition mq_stopped_example :: "(unit, unit) mqueue" where
  "mq_stopped_example = mq_state False [] No_Thread Ready True [Plain (), stop_message]
     [(Plain (), Handled), (stop_message, Handled)]"

lemma mq_stopped_example_reachable: "mq_reachable mq_stopped_example"
proof -
  note step = mq_reachable.step [unfolded mq_step_def]
  have ext: "mq_reachable q \<Longrightarrow> mq_external q q' \<Longrightarrow> q' = r \<Longrightarrow> mq_reachable r" for q q' r :: "(unit, unit) mqueue"
    using step by blast
  have int: "mq_reachable q \<Longrightarrow> mq_internal q q' \<Longrightarrow> q' = r \<Longrightarrow> mq_reachable r" for q q' r :: "(unit, unit) mqueue"
    using step by blast
  let ?p = "[Plain (), stop_message]"
  have "mq_reachable (mq_state True [] Waiting Ready False [] [])"
    by (rule ext [OF mq_reachable.init mq_external.start]) (auto simp: new_queue_def mq_start_def mq_state_def fun_eq_iff)
  then have "mq_reachable (mq_state True [Plain ()] Waiting Ready False [Plain ()] [])"
    by (rule ext [OF _ mq_external.post [where m = "()"]]) (simp add: postMessage_def mq_state_def)
  then have "mq_reachable (mq_state True [Plain ()] Waiting Stop_Calling False [Plain ()] [])"
    by (rule ext [OF _ mq_external.stop [where t = 0]]) (simp_all add: set_caller_def mq_state_def)
  then have "mq_reachable (mq_state True ?p Waiting Stop_Waiting False ?p [])"
    by (rule int [OF _ mq_internal.stop_post [where t = 0, OF _ surjective_pairing]])
      (auto simp: set_caller_def mq_state_def call_post_def postMessage_def)
  then have "mq_reachable (mq_state True [stop_message] (Handling (Plain ())) Stop_Waiting False ?p [(Plain (), Handled)])"
    by (rule int [OF _ mq_internal.worker_take]) (auto simp: waitForMessage_def mq_state_def)
  then have "mq_reachable (mq_state True [stop_message] Checking Stop_Waiting False ?p [(Plain (), Handled)])"
    by (rule int [OF _ mq_internal.worker_handle [where m = "Plain ()"]]) (simp_all add: mq_state_def)
  then have "mq_reachable (mq_state True [stop_message] Waiting Stop_Waiting False ?p [(Plain (), Handled)])"
    by (rule int [OF _ mq_internal.worker_check]) (simp_all add: mq_state_def)
  then have "mq_reachable (mq_state True [] (Handling stop_message) Stop_Waiting False ?p
      [(Plain (), Handled), (stop_message, Handled)])"
    by (rule int [OF _ mq_internal.worker_take]) (auto simp: waitForMessage_def mq_state_def)
  then have "mq_reachable (mq_state False [] Checking Stop_Waiting True ?p
      [(Plain (), Handled), (stop_message, Handled)])"
    by (rule int [OF _ mq_internal.worker_handle [where m = stop_message]]) (simp_all add: mq_state_def set_done_def)
  then have "mq_reachable (mq_state False [] Exited Stop_Waiting True ?p
      [(Plain (), Handled), (stop_message, Handled)])"
    by (rule int [OF _ mq_internal.worker_check]) (simp_all add: mq_state_def)
  then have "mq_reachable (mq_state False [] Exited Stop_Joining True ?p
      [(Plain (), Handled), (stop_message, Handled)])"
    by (rule int [OF _ mq_internal.stop_wake [where t = 0]]) (simp_all add: mq_state_def set_caller_def)
  then have "mq_reachable (mq_state False [] No_Thread Stop_Clearing True ?p
      [(Plain (), Handled), (stop_message, Handled)])"
    by (rule int [OF _ mq_internal.stop_join [where t = 0]]) (simp_all add: mq_state_def set_caller_def)
  then have "mq_reachable (mq_state False [] No_Thread Ready True ?p
      [(Plain (), Handled), (stop_message, Handled)])"
    by (rule int [OF _ mq_internal.stop_clear [where t = 0]])
      (simp_all add: mq_state_def set_caller_def doClear_def)
  then show ?thesis by (simp add: mq_stopped_example_def)
qed

theorem mq_stopped_is_drained_witness:
  "mq_worker mq_stopped_example = No_Thread \<and> mq_queue mq_stopped_example = [] \<and>
   map fst (mq_taken mq_stopped_example) = [Plain (), stop_message]"
proof -
  have "\<not> mq_running mq_stopped_example" "\<forall>t. mq_caller mq_stopped_example t \<in> {Ready, Waiting_Call}"
    "mq_posted mq_stopped_example = [Plain (), stop_message]"
    by (simp_all add: mq_stopped_example_def mq_state_def)
  with mq_stopped_is_drained [OF mq_stopped_example_reachable] show ?thesis by simp
qed

section \<open>The sequential queue\<close>

text \<open>
  What a client of the queue sees: whether it runs and which messages wait. \<open>sq_stop\<close> is \<open>doStop\<close>
  as one step: the stop lambda is queued behind the waiting messages, so those are handled first
  (by \<open>h\<close>, on the client's state), and what the handlers post to the queue meanwhile is skipped.
\<close>

record 'm squeue =
  sq_running :: bool
  sq_items :: "'m list"

definition sq_new :: "'m squeue" where
  "sq_new = \<lparr>sq_running = False, sq_items = []\<rparr>"

definition sq_start :: "'m squeue \<Rightarrow> 'm squeue" where
  "sq_start q = (if sq_running q then q else q\<lparr>sq_running := True\<rparr>)"

definition sq_post :: "'m squeue \<Rightarrow> 'm \<Rightarrow> 'm squeue \<times> bool" where
  "sq_post q m = (if \<not> sq_running q then (q, False) else (q\<lparr>sq_items := sq_items q @ [m]\<rparr>, True))"

definition sq_take :: "'m squeue \<Rightarrow> ('m \<times> 'm squeue) option" where
  "sq_take q = (case sq_items q of [] \<Rightarrow> None | m # ms \<Rightarrow> Some (m, q\<lparr>sq_items := ms\<rparr>))"

definition sq_clear :: "'m squeue \<Rightarrow> 'm squeue" where
  "sq_clear q = q\<lparr>sq_items := []\<rparr>"

definition sq_halt :: "'m squeue \<Rightarrow> 'm squeue" where
  "sq_halt q = q\<lparr>sq_running := False\<rparr>"

definition sq_stop :: "('m \<Rightarrow> 's \<Rightarrow> 's) \<Rightarrow> 'm squeue \<Rightarrow> 's \<Rightarrow> 'm squeue \<times> 's" where
  "sq_stop h q s = (if \<not> sq_running q then (q, s) else (sq_clear (sq_halt q), fold h (sq_items q) s))"

definition mq_abs :: "('m, 'f) mqueue \<Rightarrow> ('m, 'f) message squeue" where
  "mq_abs q = \<lparr>sq_running = mq_running q, sq_items = mq_queue q\<rparr>"

inductive sq_step :: "'m squeue \<Rightarrow> 'm squeue \<Rightarrow> bool" where
  "sq_step q q"
| "sq_step q (sq_start q)"
| "sq_step q (fst (sq_post q m))"
| "sq_take q = Some (m, q') \<Longrightarrow> sq_step q q'"
| "sq_step q (sq_clear q)"
| "sq_step q (sq_halt q)"

lemmas sq_defs [queue_simps] =
  sq_new_def sq_start_def sq_post_def sq_take_def sq_clear_def sq_halt_def sq_stop_def

lemma mq_abs_operations [queue_simps]:
  "mq_abs (mq_start q) = sq_start (mq_abs q)"
  "mq_abs (fst (postMessage q m)) = fst (sq_post (mq_abs q) m)"
  "snd (postMessage q m) = snd (sq_post (mq_abs q) m)"
  "waitForMessage q = Some (m, q') \<Longrightarrow> sq_take (mq_abs q) = Some (m, mq_abs q')"
  "mq_abs (doClear q) = sq_clear (mq_abs q)"
  by (auto simp: mq_abs_def sq_defs mq_start_def postMessage_def waitForMessage_def
      split: list.splits)

text \<open>
  C37. Refinement. Every atomic step of the interleaving semantics is, on the abstract queue, one
  of its operations or no change: the concurrent event loop implements the sequential FIFO queue.
\<close>

theorem mq_refines_squeue:
  assumes "mq_step q q'"
  shows "sq_step (mq_abs q) (mq_abs q')"
proof -
  have call: "sq_step (mq_abs q) (mq_abs q'')" if "call_post t b q = (q'', ok)" for t b q'' ok
    using that sq_step.intros(1) sq_step.intros(3) [of "mq_abs q" "Call_Message t b"]
    by (auto simp: call_post_eq mq_abs_def sq_post_def split: if_splits)
  have same: "mq_abs (set_caller t p r) = mq_abs r" "mq_abs (r\<lparr>mq_worker := w\<rparr>) = mq_abs r" for t p w and r :: "('a, 'b) mqueue"
    by (simp_all add: mq_abs_def)
  have handle: "sq_step (mq_abs q) (mq_abs (handle_message m q))" for m
  proof (cases "\<exists>t. m = Call_Message t Set_Not_Running")
    case True
    then have "mq_abs (handle_message m q) = sq_halt (mq_abs q)"
      by (auto simp: mq_abs_def sq_halt_def)
    then show ?thesis by (simp add: sq_step.intros)
  next
    case False
    then have "mq_abs (handle_message m q) = mq_abs q" by (auto simp: mq_abs_def)
    then show ?thesis by (simp add: sq_step.intros)
  qed
  from assms show ?thesis
    unfolding mq_step_def
    by (auto elim!: mq_external.cases mq_internal.cases simp: same handle
        simp: mq_abs_operations intro: call sq_step.intros dest: mq_abs_operations(4))
qed
theorem mq_refines_squeue_witness:
  "mq_step mq_example (fst (postMessage mq_example (Plain ()))) \<and>
   sq_step (mq_abs mq_example) (mq_abs (fst (postMessage mq_example (Plain ())))) \<and>
   sq_items (mq_abs (fst (postMessage mq_example (Plain ())))) = [Call_Message 0 (User_Func ()), Plain ()]"
proof -
  have "mq_step mq_example (fst (postMessage mq_example (Plain ())))"
    by (simp add: mq_step_def mq_external.post)
  from this mq_refines_squeue [OF this] show ?thesis
    by (simp add: mq_abs_def mq_example_def call_post_def postMessage_def new_queue_def mq_start_def)
qed

section \<open>The queue interface\<close>

text \<open>
  What a client of \<open>IMessageQueue\<close> relies on. \<open>post_all\<close> and \<open>drain\<close> are a poster's and a worker's
  loop over the interface.
\<close>

fun post_all :: "('q \<Rightarrow> 'm \<Rightarrow> 'q \<times> bool) \<Rightarrow> 'q \<Rightarrow> 'm list \<Rightarrow> 'q" where
  "post_all post q [] = q"
| "post_all post q (m # ms) = post_all post (fst (post q m)) ms"

fun drain :: "('q \<Rightarrow> ('m \<times> 'q) option) \<Rightarrow> nat \<Rightarrow> 'q \<Rightarrow> 'm list \<times> 'q" where
  "drain pop 0 q = ([], q)"
| "drain pop (Suc n) q =
     (case pop q of
        None \<Rightarrow> ([], q)
      | Some (m, q') \<Rightarrow> (let (ms, q'') = drain pop n q' in (m # ms, q'')))"

locale event_queue =
  fixes running :: "'q \<Rightarrow> bool"
    and contents :: "'q \<Rightarrow> 'm list"
    and post :: "'q \<Rightarrow> 'm \<Rightarrow> 'q \<times> bool"
    and pop :: "'q \<Rightarrow> ('m \<times> 'q) option"
    and start :: "'q \<Rightarrow> 'q"
    and clear :: "'q \<Rightarrow> 'q"
  assumes post_accepted: "running q \<Longrightarrow>
      snd (post q m) \<and> running (fst (post q m)) \<and> contents (fst (post q m)) = contents q @ [m]"
    and post_refused: "\<not> running q \<Longrightarrow> post q m = (q, False)"
    and pop_empty: "contents q = [] \<Longrightarrow> pop q = None"
    and pop_front: "contents q = m # ms \<Longrightarrow>
      \<exists>q'. pop q = Some (m, q') \<and> contents q' = ms \<and> running q' = running q"
    and start_law: "running (start q) \<and> contents (start q) = contents q"
    and clear_law: "running (clear q) = running q \<and> contents (clear q) = []"
begin

lemma post_all_law:
  "running q \<Longrightarrow> running (post_all post q ms) \<and> contents (post_all post q ms) = contents q @ ms"
  by (induction ms arbitrary: q) (auto simp: post_accepted)

lemma drain_law:
  "n \<le> length (contents q) \<Longrightarrow>
   fst (drain pop n q) = take n (contents q) \<and> contents (snd (drain pop n q)) = drop n (contents q)"
proof (induction n arbitrary: q)
  case 0
  then show ?case by simp
next
  case (Suc n)
  then obtain m ms where c: "contents q = m # ms" by (cases "contents q") auto
  from pop_front [OF c] obtain q' where q': "pop q = Some (m, q')" "contents q' = ms" by blast
  from Suc.IH [of q'] Suc.prems c q' show ?case by (auto simp: case_prod_beta Let_def)
qed

lemma post_drain:
  assumes "contents q = []"
  shows "drain pop (length ms) (post_all post (start q) ms) =
    (ms, snd (drain pop (length ms) (post_all post (start q) ms)))"
proof -
  have "contents (post_all post (start q) ms) = ms"
    using post_all_law [of "start q" ms] start_law [of q] assms by simp
  then show ?thesis using drain_law [of "length ms" "post_all post (start q) ms"]
    by (simp add: prod_eq_iff)
qed

end

interpretation squeue: event_queue sq_running sq_items sq_post sq_take sq_start sq_clear
  by unfold_locales (auto simp: sq_defs)

interpretation mqueue: event_queue mq_running mq_queue postMessage waitForMessage mq_start doClear
  by unfold_locales (auto simp: postMessage_def waitForMessage_def)

text \<open>
  A worker that takes as many messages as were posted to an empty, started queue gets exactly
  those messages, in order.
\<close>

theorem message_queue_roundtrip:
  assumes "mq_queue q = []"
  shows "fst (drain waitForMessage (length ms) (post_all postMessage (mq_start q) ms)) = ms"
  using mqueue.post_drain [OF assms, of ms] by (metis fst_conv)

theorem message_queue_roundtrip_witness:
  "mq_queue (new_queue :: (nat, unit) mqueue) = [] \<and>
   fst (drain waitForMessage 2 (post_all postMessage (mq_start (new_queue :: (nat, unit) mqueue))
     [Plain 7, Plain 8])) = [Plain 7, Plain 8]"
proof -
  have "mq_queue (new_queue :: (nat, unit) mqueue) = []" by (simp add: new_queue_def)
  from this message_queue_roundtrip [OF this, of "[Plain 7, Plain 8]"]
  show ?thesis by (simp add: numeral_2_eq_2)
qed
end
