(* ===== verification/Timer_Model.thy ===== *)
theory Timer_Model
  imports Rialto_Prelude
begin

text \<open>
  The timer of \<open>ITimer.h\<close>, \<open>Timer.h\<close> and \<open>Timer.cpp\<close>: a thread that sleeps for \<open>m_timeout\<close> on a
  condition variable, calls \<open>m_callback\<close> when the sleep was not cut short by \<open>cancel\<close>, repeats when
  the timer is periodic, and clears \<open>m_active\<close> at the end.

  \<open>timer_step\<close> has one rule per atomic piece of the thread's loop and of \<open>doCancel\<close>: the test
  \<open>m_active && m_callback\<close> and the call are two steps, because the thread unlocks between them, and so
  are the store to \<open>m_active\<close>, which takes no lock, and the test \<open>joinable()\<close>. Time itself is not
  modelled: a timeout may come at any moment. \<open>tm_fired\<close> counts the calls of the callback that have
  started. The thread stays joinable until a \<open>join\<close> has returned: a second thread that cancels while
  another one is in \<open>join\<close> joins the same thread a second time, which the language leaves undefined
  (\<open>Join_Race\<close>); after the join it finds the thread not joinable.
\<close>

section \<open>State and operations\<close>

datatype timer_type = ONE_SHOT | PERIODIC

datatype timer_pc =
  Sleeping     \<comment> \<open>in \<open>m_cv.wait_until\<close>\<close>
| Expired      \<comment> \<open>\<open>wait_until\<close> returned false, before \<open>m_active && m_callback\<close>\<close>
| Calling      \<comment> \<open>the test has passed and the lock is released, before \<open>m_callback()\<close>\<close>
| In_Callback  \<comment> \<open>the callback runs\<close>
| Loop_End     \<comment> \<open>before \<open>while (PERIODIC && m_active)\<close>\<close>
| Leaving      \<comment> \<open>after the loop, before \<open>m_active = false\<close>\<close>
| Ended

datatype join_state =
  Joinable   \<comment> \<open>nobody has joined the thread\<close>
| Joining    \<comment> \<open>a thread is in \<open>m_thread.join()\<close>\<close>
| Joined     \<comment> \<open>the join has returned; \<open>joinable()\<close> is false\<close>
| Join_Race  \<comment> \<open>a second thread has called \<open>join\<close> before the first one returned: undefined\<close>

record timer =
  tm_active :: bool
  tm_type :: timer_type
  tm_has_callback :: bool
  tm_pc :: timer_pc
  tm_join :: join_state
  tm_fired :: nat

text \<open>The constructor starts the thread; the first iteration enters \<open>wait_until\<close>.\<close>

definition timer_create :: "timer_type \<Rightarrow> bool \<Rightarrow> timer" where
  "timer_create ty cb = \<lparr>tm_active = True, tm_type = ty, tm_has_callback = cb, tm_pc = Sleeping,
     tm_join = Joinable, tm_fired = 0\<rparr>"

definition timer_isActive :: "timer \<Rightarrow> bool" where
  "timer_isActive t = tm_active t"

text \<open>
  The shared factory. \<open>m_factory\<close> is a weak pointer: it names the last factory that was made and does not keep
  it alive. \<open>alive\<close>: the objects that still have an owner; \<open>made\<close>: the new object, if it can be allocated.
  The result is the factory and what \<open>m_factory\<close> refers to afterwards.
\<close>

definition getFactory :: "(nat \<Rightarrow> bool) \<Rightarrow> nat option \<Rightarrow> nat option \<Rightarrow> nat option \<times> nat option" where
  "getFactory alive made m_factory =
     (case m_factory of
        None \<Rightarrow> (made, made)
      | Some f \<Rightarrow> if alive f then (Some f, m_factory) else (made, made))"

lemma getFactory_shared:
  "getFactory alive made m = (Some f, m') \<Longrightarrow> alive' f \<Longrightarrow> getFactory alive' made' m' = (Some f, m')"
  by (auto simp: getFactory_def split: option.splits if_splits)

text \<open>
  \<open>doCancel\<close> up to the join: \<open>m_active\<close> is cleared; another thread than the timer's own that finds
  the thread joinable notifies it and goes on to join it.
\<close>

definition clear_active :: "timer \<Rightarrow> timer" where
  "clear_active t = t\<lparr>tm_active := False\<rparr>"

definition enter_join :: "timer \<Rightarrow> timer" where
  "enter_join t = t\<lparr>tm_join := (case tm_join t of Joinable \<Rightarrow> Joining | Joined \<Rightarrow> Joined | _ \<Rightarrow> Join_Race)\<rparr>"

definition doCancel :: "bool \<Rightarrow> timer \<Rightarrow> timer" where
  "doCancel own_thread t = (let t = clear_active t in if \<not> own_thread then enter_join t else t)"

inductive timer_thread :: "timer \<Rightarrow> timer \<Rightarrow> bool" where
  timeout: "tm_pc t = Sleeping \<Longrightarrow> tm_active t \<Longrightarrow> timer_thread t (t\<lparr>tm_pc := Expired\<rparr>)"
| woken: "tm_pc t = Sleeping \<Longrightarrow> \<not> tm_active t \<Longrightarrow> timer_thread t (t\<lparr>tm_pc := Loop_End\<rparr>)"
| check: "tm_pc t = Expired \<Longrightarrow> tm_active t \<and> tm_has_callback t \<Longrightarrow> timer_thread t (t\<lparr>tm_pc := Calling\<rparr>)"
| skip: "tm_pc t = Expired \<Longrightarrow> \<not> (tm_active t \<and> tm_has_callback t) \<Longrightarrow>
    timer_thread t (t\<lparr>tm_pc := Loop_End\<rparr>)"
| call: "tm_pc t = Calling \<Longrightarrow> timer_thread t (t\<lparr>tm_pc := In_Callback, tm_fired := Suc (tm_fired t)\<rparr>)"
| callback_returns: "tm_pc t = In_Callback \<Longrightarrow> timer_thread t (t\<lparr>tm_pc := Loop_End\<rparr>)"
| loop: "tm_pc t = Loop_End \<Longrightarrow>
    timer_thread t (t\<lparr>tm_pc := (if tm_type t = PERIODIC \<and> tm_active t then Sleeping else Leaving)\<rparr>)"
| leave: "tm_pc t = Leaving \<Longrightarrow> timer_thread t (t\<lparr>tm_active := False, tm_pc := Ended\<rparr>)"

text \<open>
  Any number of threads may be in \<open>doCancel\<close>, each at its own point: one stores to \<open>m_active\<close>, one that has
  done so tests \<open>joinable()\<close> and enters the join, and a join returns when the thread has ended. A cancel
  from the callback only stores.
\<close>

inductive timer_cancelling :: "timer \<Rightarrow> timer \<Rightarrow> bool" where
  clear: "timer_cancelling t (clear_active t)"
| enter: "\<not> tm_active t \<Longrightarrow> timer_cancelling t (enter_join t)"
| join: "tm_join t = Joining \<Longrightarrow> tm_pc t = Ended \<Longrightarrow> timer_cancelling t (t\<lparr>tm_join := Joined\<rparr>)"

text \<open>No thread is held up in \<open>m_thread.join()\<close>: the call of \<open>doCancel\<close> has returned.\<close>

definition cancel_returned :: "timer \<Rightarrow> bool" where
  "cancel_returned t \<longleftrightarrow> tm_join t \<noteq> Joining \<and> tm_join t \<noteq> Join_Race"

definition timer_step :: "timer \<Rightarrow> timer \<Rightarrow> bool" where
  "timer_step t t' \<longleftrightarrow> timer_thread t t' \<or> timer_cancelling t t'"

inductive timer_reachable :: "timer \<Rightarrow> bool" where
  create: "timer_reachable (timer_create ty cb)"
| step: "timer_reachable t \<Longrightarrow> timer_step t t' \<Longrightarrow> timer_reachable t'"

section \<open>The invariant\<close>

text \<open>
  A one-shot timer fires only from its first sleep; a timer being joined or joined is not active; a
  joined one has ended; without a callback nothing is ever called.
\<close>

definition timer_inv :: "timer \<Rightarrow> bool" where
  "timer_inv t \<longleftrightarrow>
     (tm_type t = ONE_SHOT \<longrightarrow>
        (if tm_pc t \<in> {Sleeping, Expired, Calling} then tm_fired t = 0 else tm_fired t \<le> 1)) \<and>
     (tm_join t \<noteq> Joinable \<longrightarrow> \<not> tm_active t) \<and>
     (tm_join t = Joined \<longrightarrow> tm_pc t = Ended) \<and>
     (tm_pc t = Ended \<longrightarrow> \<not> tm_active t) \<and>
     (\<not> tm_has_callback t \<longrightarrow> tm_fired t = 0 \<and> tm_pc t \<noteq> Calling)"

lemma timer_inv_create: "timer_inv (timer_create ty cb)"
  by (simp add: timer_inv_def timer_create_def)

lemma clear_active_fields [simp]:
  "\<not> tm_active (clear_active t)" "tm_type (clear_active t) = tm_type t" "tm_join (clear_active t) = tm_join t"
  "tm_has_callback (clear_active t) = tm_has_callback t" "tm_pc (clear_active t) = tm_pc t"
  "tm_fired (clear_active t) = tm_fired t"
  by (simp_all add: clear_active_def)

lemma enter_join_fields [simp]:
  "tm_active (enter_join t) = tm_active t" "tm_type (enter_join t) = tm_type t"
  "tm_has_callback (enter_join t) = tm_has_callback t" "tm_pc (enter_join t) = tm_pc t"
  "tm_fired (enter_join t) = tm_fired t" "tm_join (enter_join t) \<noteq> Joinable"
  "tm_join (enter_join t) = Joined \<longleftrightarrow> tm_join t = Joined"
  by (simp_all add: enter_join_def split: join_state.split)

lemma doCancel_fields [simp]:
  "\<not> tm_active (doCancel own t)" "tm_type (doCancel own t) = tm_type t"
  "tm_has_callback (doCancel own t) = tm_has_callback t" "tm_pc (doCancel own t) = tm_pc t"
  "tm_fired (doCancel own t) = tm_fired t"
  by (simp_all add: doCancel_def Let_def)

lemma timer_thread_inv: "timer_thread t t' \<Longrightarrow> timer_inv t \<Longrightarrow> timer_inv t'"
  by (induction rule: timer_thread.induct) (auto simp: timer_inv_def split: if_splits)

lemma timer_cancelling_inv: "timer_cancelling t t' \<Longrightarrow> timer_inv t \<Longrightarrow> timer_inv t'"
  by (induction rule: timer_cancelling.induct) (auto simp: timer_inv_def split: if_splits)

lemma timer_step_inv: "timer_step t t' \<Longrightarrow> timer_inv t \<Longrightarrow> timer_inv t'"
  by (auto simp: timer_step_def intro: timer_thread_inv timer_cancelling_inv)

lemma timer_reachable_inv: "timer_reachable t \<Longrightarrow> timer_inv t"
  by (induction rule: timer_reachable.induct) (auto intro: timer_inv_create timer_step_inv)

lemma timer_steps_inv: "timer_step\<^sup>*\<^sup>* t t' \<Longrightarrow> timer_inv t \<Longrightarrow> timer_inv t'"
  by (induction rule: rtranclp_induct) (auto intro: timer_step_inv)

lemma doCancel_inv: "timer_inv t \<Longrightarrow> timer_inv (doCancel own t)"
  unfolding doCancel_def Let_def
  by (auto intro!: timer_cancelling_inv [OF timer_cancelling.enter] timer_cancelling_inv [OF timer_cancelling.clear])

text \<open>
  The calls an inactive timer has made or is bound to make: it calls its callback once more exactly if its
  thread has already passed the test.
\<close>

definition calls_due :: "timer \<Rightarrow> nat" where
  "calls_due t = tm_fired t + (if tm_pc t = Calling then 1 else 0)"

lemma timer_step_inactive:
  "timer_step t t' \<Longrightarrow> \<not> tm_active t \<Longrightarrow>
     calls_due t' = calls_due t \<and> \<not> tm_active t' \<and> tm_fired t \<le> tm_fired t' \<and> (tm_join t \<noteq> Joinable \<longrightarrow> tm_join t' \<noteq> Joinable) \<and>
     (tm_pc t = Ended \<longrightarrow> tm_pc t' = Ended)"
  unfolding timer_step_def
  by (elim disjE timer_thread.cases timer_cancelling.cases) (auto simp: calls_due_def)

lemma timer_inactive_steps:
  "timer_step\<^sup>*\<^sup>* t t' \<Longrightarrow> \<not> tm_active t \<Longrightarrow>
     calls_due t' = calls_due t \<and> \<not> tm_active t' \<and> tm_fired t \<le> tm_fired t' \<and> (tm_join t \<noteq> Joinable \<longrightarrow> tm_join t' \<noteq> Joinable) \<and>
     (tm_pc t = Ended \<longrightarrow> tm_pc t' = Ended)"
  by (induction rule: rtranclp_induct) (auto dest: timer_step_inactive)

text \<open>The steps an inactive timer's thread still takes before it ends.\<close>

fun timer_rank :: "timer_pc \<Rightarrow> nat" where
  "timer_rank Sleeping = 3"
| "timer_rank Expired = 3"
| "timer_rank Calling = 4"
| "timer_rank In_Callback = 3"
| "timer_rank Loop_End = 2"
| "timer_rank Leaving = 1"
| "timer_rank Ended = 0"

lemma timer_thread_rank:
  "timer_thread t t' \<Longrightarrow> \<not> tm_active t \<Longrightarrow> timer_rank (tm_pc t') < timer_rank (tm_pc t) \<and> \<not> tm_active t'"
  by (induction rule: timer_thread.induct) auto

lemma timer_thread_progress: "tm_pc t \<noteq> Ended \<Longrightarrow> \<exists>t'. timer_thread t t'"
  by (cases "tm_pc t") (blast intro: timer_thread.intros)+

lemma timer_thread_join: "timer_thread t t' \<Longrightarrow> tm_join t' = tm_join t"
  by (erule timer_thread.cases) auto

text \<open>Left to itself, the thread of an inactive timer ends, in at most four steps.\<close>

lemma timer_thread_ends:
  "\<not> tm_active t \<Longrightarrow> \<exists>n t'. n \<le> timer_rank (tm_pc t) \<and> (timer_thread ^^ n) t t' \<and> tm_pc t' = Ended \<and> tm_join t' = tm_join t"
proof (induction "timer_rank (tm_pc t)" arbitrary: t rule: less_induct)
  case less
  show ?case
  proof (cases "tm_pc t = Ended")
    case True
    then show ?thesis by (intro exI [of _ "0::nat"] exI [of _ t]) simp
  next
    case False
    then obtain t1 where t1: "timer_thread t t1" using timer_thread_progress by blast
    note r = timer_thread_rank [OF t1 less.prems]
    from less.hyps [of t1] r obtain n t' where t': "n \<le> timer_rank (tm_pc t1)" "(timer_thread ^^ n) t1 t'"
      "tm_pc t' = Ended" "tm_join t' = tm_join t1" by blast
    have "(timer_thread ^^ Suc n) t t'" using relpowp_Suc_I2 [of timer_thread] t1 t'(2) by blast
    with t' r timer_thread_join [OF t1] show ?thesis by (intro exI [of _ "Suc n"] exI [of _ t']) auto
  qed
qed

section \<open>Guarantees\<close>

text \<open>
  A one-shot timer calls its callback at most once, and a timer that has been joined (\<open>cancel\<close>
  returned on another thread, or the destructor) has left its thread and is inactive.
\<close>

theorem timer_one_shot_once:
  assumes "timer_reachable t"
  shows "(tm_type t = ONE_SHOT \<longrightarrow> tm_fired t \<le> 1) \<and>
    (tm_join t = Joined \<longrightarrow> tm_pc t = Ended \<and> \<not> timer_isActive t)"
  using timer_reachable_inv [OF assms] by (auto simp: timer_inv_def timer_isActive_def split: if_splits)

definition fired_example :: timer where
  "fired_example = (timer_create ONE_SHOT True)\<lparr>tm_pc := In_Callback, tm_fired := 1\<rparr>"

lemma fired_example_reachable: "timer_reachable fired_example"
proof -
  let ?t = "timer_create ONE_SHOT True"
  have "timer_thread ?t (?t\<lparr>tm_pc := Expired\<rparr>)"
    by (rule timer_thread.timeout) (simp_all add: timer_create_def)
  then have "timer_reachable (?t\<lparr>tm_pc := Expired\<rparr>)"
    by (auto simp: timer_step_def intro: timer_reachable.step timer_reachable.create)
  moreover have "timer_thread (?t\<lparr>tm_pc := Expired\<rparr>) (?t\<lparr>tm_pc := Calling\<rparr>)"
    using timer_thread.check [of "?t\<lparr>tm_pc := Expired\<rparr>"] by (simp add: timer_create_def)
  ultimately have "timer_reachable (?t\<lparr>tm_pc := Calling\<rparr>)"
    by (auto simp: timer_step_def intro: timer_reachable.step)
  moreover have "timer_thread (?t\<lparr>tm_pc := Calling\<rparr>) fired_example"
    using timer_thread.call [of "?t\<lparr>tm_pc := Calling\<rparr>"]
    by (simp add: fired_example_def timer_create_def)
  ultimately show ?thesis by (auto simp: timer_step_def intro: timer_reachable.step)
qed

theorem timer_one_shot_once_witness:
  "tm_type fired_example = ONE_SHOT \<and> tm_fired fired_example = 1 \<and> tm_fired fired_example \<le> 1"
  using timer_one_shot_once [OF fired_example_reachable]
  by (simp add: fired_example_def timer_create_def)

text \<open>
  C38. Cancelling a timer is final once \<open>cancel\<close> has returned, and it does return. Another thread calls
  \<open>doCancel\<close> at any point of the timer's loop. Whatever the threads do from there: when no thread is held
  up in the join any more, the timer's thread has ended, so the callback is not running, and it never runs
  again; before that, the callback starts at most once more, and it does start exactly if the thread had
  already made its test of \<open>m_active\<close>. The join is not held up for ever: the thread, left to itself, ends
  after at most four more steps, and then the join returns.
\<close>

theorem timer_cancel_is_final:
  assumes "timer_reachable t" and "timer_step\<^sup>*\<^sup>* (doCancel False t) t'"
  shows "(cancel_returned t' \<longrightarrow>
       tm_pc t' = Ended \<and> (\<forall>t''. timer_step\<^sup>*\<^sup>* t' t'' \<longrightarrow> tm_pc t'' = Ended \<and> tm_fired t'' = tm_fired t')) \<and>
    \<not> timer_isActive t' \<and> tm_fired t' \<le> tm_fired t + (if tm_pc t = Calling then 1 else 0) \<and>
    (tm_pc t' = Ended \<longrightarrow> tm_fired t' = tm_fired t + (if tm_pc t = Calling then 1 else 0)) \<and>
    (\<exists>n t''. n \<le> 4 \<and> (timer_thread ^^ n) t' t'' \<and> tm_pc t'' = Ended \<and>
       (tm_join t' = Joining \<longrightarrow> (\<exists>t3. timer_cancelling t'' t3 \<and> cancel_returned t3)))"
proof (intro conjI impI allI)
  note i = timer_inactive_steps [OF assms(2) doCancel_fields(1)]
  have inv: "timer_inv t'"
    using timer_steps_inv [OF assms(2)] doCancel_inv timer_reachable_inv [OF assms(1)] by blast
  have j: "tm_join t' \<noteq> Joinable" using i by (simp add: doCancel_def Let_def)
  show e: "tm_pc t' = Ended" if "cancel_returned t'"
    using that j inv by (cases "tm_join t'") (auto simp: cancel_returned_def timer_inv_def)
  show "tm_pc t'' = Ended" "tm_fired t'' = tm_fired t'" if "cancel_returned t'" "timer_step\<^sup>*\<^sup>* t' t''" for t''
    using timer_inactive_steps [OF that(2)] i e [OF that(1)] by (auto simp: calls_due_def)
  show "\<not> timer_isActive t'" using i by (simp add: timer_isActive_def)
  show "tm_fired t' \<le> tm_fired t + (if tm_pc t = Calling then 1 else 0)"
    "tm_pc t' = Ended \<Longrightarrow> tm_fired t' = tm_fired t + (if tm_pc t = Calling then 1 else 0)"
    using i by (auto simp: calls_due_def split: if_splits)
  from i timer_thread_ends [of t'] obtain n t'' where n: "n \<le> timer_rank (tm_pc t')" "(timer_thread ^^ n) t' t''"
    "tm_pc t'' = Ended" "tm_join t'' = tm_join t'" by auto
  have "timer_rank (tm_pc t') \<le> 4" by (cases "tm_pc t'") auto
  moreover have "\<exists>t3. timer_cancelling t'' t3 \<and> cancel_returned t3" if "tm_join t' = Joining"
    using timer_cancelling.join [of t''] n that by (intro exI [of _ "t''\<lparr>tm_join := Joined\<rparr>"]) (auto simp: cancel_returned_def)
  ultimately show "\<exists>n t''. n \<le> 4 \<and> (timer_thread ^^ n) t' t'' \<and> tm_pc t'' = Ended \<and>
      (tm_join t' = Joining \<longrightarrow> (\<exists>t3. timer_cancelling t'' t3 \<and> cancel_returned t3))"
    using n by (intro exI [of _ n] exI [of _ t'']) auto
qed

text \<open>A cancel while the callback runs is held up in the join until the callback has returned.\<close>

theorem timer_cancel_is_final_witness:
  "\<not> cancel_returned (doCancel False fired_example) \<and> tm_fired (doCancel False fired_example) = 1 \<and>
   (\<exists>n t''. n \<le> 4 \<and> (timer_thread ^^ n) (doCancel False fired_example) t'' \<and> tm_pc t'' = Ended \<and>
      (tm_join (doCancel False fired_example) = Joining \<longrightarrow> (\<exists>t3. timer_cancelling t'' t3 \<and> cancel_returned t3)))"
  using timer_cancel_is_final [OF fired_example_reachable rtranclp.rtrancl_refl] by (simp add: fired_example_def)

end
