(* ===== verification/Control_Backend.thy ===== *)
theory Control_Backend
  imports Rialto_Prelude
begin

text \<open>
  The control client of \<open>ControlBackend.h\<close> and \<open>ControlBackendInterface.h\<close>: it registers with
  Rialto's control service, remembers the last application state it was told, and
  \<open>waitForRunning\<close> waits up to one second for the state RUNNING.

  The control service is not part of the repository: what \<open>createControl\<close> and \<open>registerClient\<close> return
  are arguments. The wait is given the list of states that arrive within the second, in order: the
  waiting thread looks at the state at each notification and once more at the timeout.
\<close>

section \<open>State and operations\<close>

datatype application_state = RUNNING | INACTIVE | UNKNOWN_STATE

record control_backend =
  cb_state :: application_state
  cb_control :: bool  \<comment> \<open>whether \<open>m_control\<close> is not null\<close>

text \<open>
  \<open>created\<close>: whether the factory returned a control; \<open>registered\<close>: what \<open>registerClient\<close> returned and
  the state it wrote to its reference argument.
\<close>

definition control_construct :: "bool \<Rightarrow> bool \<times> application_state \<Rightarrow> control_backend" where
  "control_construct created registered =
     (if \<not> created then \<lparr>cb_state = UNKNOWN_STATE, cb_control = False\<rparr>
      else \<lparr>cb_state = snd registered, cb_control = True\<rparr>)"

definition removeControlBackend :: "control_backend \<Rightarrow> control_backend" where
  "removeControlBackend c = c\<lparr>cb_control := False\<rparr>"

definition onApplicationStateChanged :: "application_state \<Rightarrow> control_backend \<Rightarrow> control_backend" where
  "onApplicationStateChanged st c = c\<lparr>cb_state := st\<rparr>"

text \<open>\<open>wait_for\<close> with a predicate: it returns as soon as the predicate holds, or at the timeout.\<close>

fun wait_for_state :: "application_state list \<Rightarrow> control_backend \<Rightarrow> control_backend" where
  "wait_for_state [] c = c"
| "wait_for_state (st # sts) c =
     (if cb_state c = RUNNING then c else wait_for_state sts (onApplicationStateChanged st c))"

definition waitForRunning :: "application_state list \<Rightarrow> control_backend \<Rightarrow> bool \<times> control_backend" where
  "waitForRunning arriving c =
     (if cb_state c = RUNNING then (True, c)
      else (let c' = wait_for_state arriving c in (cb_state c' = RUNNING, c')))"

lemma wait_for_state_running:
  "cb_state (wait_for_state sts c) = RUNNING \<longleftrightarrow> cb_state c = RUNNING \<or> RUNNING \<in> set sts"
  by (induction sts arbitrary: c) (auto simp: onApplicationStateChanged_def)

lemma wait_for_state_control [simp]: "cb_control (wait_for_state sts c) = cb_control c"
  by (induction sts arbitrary: c) (auto simp: onApplicationStateChanged_def)

section \<open>Guarantees\<close>

text \<open>
  \<open>waitForRunning\<close> returns true exactly when the application is already RUNNING or becomes
  RUNNING within the second, the state it leaves is then RUNNING, and the wait neither creates nor
  drops the control.
\<close>

theorem waitForRunning_iff:
  "(fst (waitForRunning arriving c) \<longleftrightarrow> cb_state c = RUNNING \<or> RUNNING \<in> set arriving) \<and>
   (fst (waitForRunning arriving c) \<longleftrightarrow> cb_state (snd (waitForRunning arriving c)) = RUNNING) \<and>
   cb_control (snd (waitForRunning arriving c)) = cb_control c"
  by (auto simp: waitForRunning_def Let_def wait_for_state_running)

end
