(* ===== verification/Gst_Types.thy ===== *)
theory Gst_Types
  imports Rialto_Prelude
begin

text \<open>
  GStreamer and Rialto as the sources see them. Neither library is part of the repository, so
  nothing of them is computed here: a \<open>GstStructure\<close> or a \<open>GValue\<close> is the record of what its
  accessors return (\<open>None\<close> where the accessor returns FALSE or NULL and leaves its output
  argument alone), a mapped buffer is its bytes, and the enumerations have the constructors the
  sources name. The only code of the repository in this theory is \<open>GstMappedBuffer\<close> of
  \<open>GStreamerUtils.cpp\<close>.
\<close>

section \<open>Enumerations\<close>

datatype gst_state =
  GST_STATE_VOID_PENDING | GST_STATE_NULL | GST_STATE_READY | GST_STATE_PAUSED | GST_STATE_PLAYING

text \<open>The states are ordered by how far an element has come.\<close>

fun state_rank :: "gst_state \<Rightarrow> nat" where
  "state_rank GST_STATE_VOID_PENDING = 0"
| "state_rank GST_STATE_NULL = 1"
| "state_rank GST_STATE_READY = 2"
| "state_rank GST_STATE_PAUSED = 3"
| "state_rank GST_STATE_PLAYING = 4"

instantiation gst_state :: linorder
begin

definition less_eq_gst_state :: "gst_state \<Rightarrow> gst_state \<Rightarrow> bool" where
  "less_eq_gst_state a b \<longleftrightarrow> state_rank a \<le> state_rank b"

definition less_gst_state :: "gst_state \<Rightarrow> gst_state \<Rightarrow> bool" where
  "less_gst_state a b \<longleftrightarrow> state_rank a < state_rank b"

instance
proof
  fix a b :: gst_state
  assume "a \<le> b" "b \<le> a"
  then show "a = b" by (cases a; cases b) (simp_all add: less_eq_gst_state_def)
qed (auto simp: less_eq_gst_state_def less_gst_state_def)

end

lemma paused_or_playing: "GST_STATE_PAUSED \<le> st \<longleftrightarrow> st = GST_STATE_PAUSED \<or> st = GST_STATE_PLAYING"
  by (cases st) (simp_all add: less_eq_gst_state_def)

datatype gst_state_change_return =
  GST_STATE_CHANGE_FAILURE | GST_STATE_CHANGE_SUCCESS | GST_STATE_CHANGE_ASYNC
| GST_STATE_CHANGE_NO_PREROLL

datatype gst_state_change =
  NULL_TO_READY | READY_TO_PAUSED | PAUSED_TO_PLAYING | PLAYING_TO_PAUSED | PAUSED_TO_READY
| READY_TO_NULL | OTHER_STATE_CHANGE

datatype gst_flow_return = GST_FLOW_OK | GST_FLOW_FLUSHING | GST_FLOW_ERROR

text \<open>\<open>PS_OTHER\<close> stands for the playback states the sources send to their \<open>default\<close> branch.\<close>

datatype playback_state =
  PS_PAUSED | PS_PLAYING | PS_END_OF_STREAM | PS_FLUSHED | PS_FAILURE | PS_OTHER

datatype media_source_type = TYPE_AUDIO | TYPE_VIDEO | TYPE_UNKNOWN

datatype media_source_status = STATUS_OK | STATUS_EOS | STATUS_ERROR | STATUS_NO_AVAILABLE_SAMPLES

datatype add_segment_status = ADD_OK | ADD_NO_SPACE | ADD_OTHER

datatype cipher_mode = MODE_UNKNOWN | MODE_CBCS | MODE_CENC | MODE_CBC1 | MODE_CENS

datatype codec_data_type = CODEC_BUFFER | CODEC_STRING

datatype segment_alignment = ALIGN_UNDEFINED | ALIGN_NAL | ALIGN_AU

datatype stream_format = FORMAT_UNDEFINED | FORMAT_RAW | FORMAT_AVC | FORMAT_BYTE_STREAM

section \<open>Values, structures and buffers\<close>

text \<open>Bytes behind a \<open>GstBuffer\<close>, and whether \<open>gst_buffer_map\<close> succeeds on it.\<close>

record gst_memory =
  mem_mappable :: bool
  mem_bytes :: "u8 list"

record gvalue =
  gv_buffer :: "gst_memory option"
  gv_string :: "string option"

record gst_structure =
  gst_name :: "string option"
  gst_int :: "string \<Rightarrow> i32 option"
  gst_uint :: "string \<Rightarrow> u32 option"
  gst_boolean :: "string \<Rightarrow> bool option"
  gst_double :: "string \<Rightarrow> double_bits option"
  gst_string :: "string \<Rightarrow> string option"
  gst_fraction :: "string \<Rightarrow> (i32 \<times> i32) option"
  gst_value :: "string \<Rightarrow> gvalue option"

definition empty_structure :: "string \<Rightarrow> gst_structure" where
  "empty_structure n = \<lparr>gst_name = Some n, gst_int = Map.empty, gst_uint = Map.empty,
     gst_boolean = Map.empty, gst_double = Map.empty, gst_string = Map.empty,
     gst_fraction = Map.empty, gst_value = Map.empty\<rparr>"

text \<open>
  A media buffer: its bytes, timestamp and duration, and the structure of its Rialto protection
  metadata, if it carries one.
\<close>

record gst_buffer =
  buf_memory :: gst_memory
  buf_pts :: u64
  buf_duration :: u64
  buf_protection :: "gst_structure option"

text \<open>The fields of a \<open>GstSegment\<close> the sources use: rate and start.\<close>

record gst_segment =
  sgm_rate :: double_bits
  sgm_start :: u64

text \<open>
  What \<open>gst_sample_new\<close> keeps: the buffer, the structure 0 of the caps (if the sample was made with
  caps), and the segment.
\<close>

record gst_sample =
  sample_buffer :: gst_buffer
  sample_structure :: "gst_structure option"
  sample_segment :: gst_segment

record codec_data =
  cd_type :: codec_data_type
  cd_bytes :: "u8 list"

definition g_str_has_prefix :: "string \<Rightarrow> string \<Rightarrow> bool" where
  "g_str_has_prefix str prefix \<longleftrightarrow> take (length prefix) str = prefix"

text \<open>The bytes of a C string.\<close>

definition string_bytes :: "string \<Rightarrow> u8 list" where
  "string_bytes s = map (\<lambda>c. word_of_nat (of_char c)) s"

section \<open>GstMappedBuffer\<close>

record mapped_buffer =
  mb_isMapped :: bool
  mb_info :: "u8 list"

definition map_buffer :: "gst_memory \<Rightarrow> mapped_buffer" where
  "map_buffer m = \<lparr>mb_isMapped = mem_mappable m, mb_info = mem_bytes m\<rparr>"

definition mb_data :: "mapped_buffer \<Rightarrow> u8 list option" where
  "mb_data b = (if mb_isMapped b then Some (mb_info b) else None)"

definition mb_size :: "mapped_buffer \<Rightarrow> nat" where
  "mb_size b = (if mb_isMapped b then length (mb_info b) else 0)"

definition mb_ok :: "mapped_buffer \<Rightarrow> bool" where
  "mb_ok b = mb_isMapped b"

text \<open>
  \<open>std::vector(data(), data() + size())\<close>: empty for a buffer that is not mapped, as the range
  from a null pointer of length 0 is.
\<close>

definition mb_vector :: "mapped_buffer \<Rightarrow> u8 list" where
  "mb_vector b = (case mb_data b of None \<Rightarrow> [] | Some d \<Rightarrow> take (mb_size b) d)"

lemma mb_vector_map_buffer:
  "mb_vector (map_buffer m) = (if mem_mappable m then mem_bytes m else [])"
  by (simp add: mb_vector_def mb_data_def mb_size_def map_buffer_def)

lemma mb_ok_map_buffer [simp]: "mb_ok (map_buffer m) = mem_mappable m"
  by (simp add: mb_ok_def map_buffer_def)

lemma mb_size_map_buffer [simp]:
  "mb_size (map_buffer m) = (if mem_mappable m then length (mem_bytes m) else 0)"
  by (simp add: mb_size_def map_buffer_def)

end
