(* ===== verification/Eme_Utils.thy ===== *)
theory Eme_Utils
  imports Gst_Types
begin

unbundle bit_operations_syntax

text \<open>
  Reading the protection metadata of a buffer: \<open>GStreamerEMEUtils.h\<close> and \<open>GStreamerEMEUtils.cpp\<close>.
  One definition per function, then \<open>ProcessProtectionMetadata\<close>. The subsample table is the
  big-endian table of a 'senc' box; \<open>encode_subsamples\<close> writes one, as the specification the
  parser is checked against.
\<close>

section \<open>BufferProtectionMetadata\<close>

record protection_metadata =
  pm_encrypted :: bool
  pm_mediaKeySessionId :: i32
  pm_iv :: "u8 list"
  pm_kid :: "u8 list"
  pm_subsamples :: "(u32 \<times> u32) list"
  pm_initWithLast15 :: u32
  pm_cipherMode :: cipher_mode
  pm_cryptBlocks :: u32
  pm_skipBlocks :: u32
  pm_encryptionPatternSet :: bool

definition new_metadata :: protection_metadata where
  "new_metadata = \<lparr>pm_encrypted = False, pm_mediaKeySessionId = -1, pm_iv = [], pm_kid = [],
     pm_subsamples = [], pm_initWithLast15 = 0, pm_cipherMode = MODE_UNKNOWN, pm_cryptBlocks = 0,
     pm_skipBlocks = 0, pm_encryptionPatternSet = False\<rparr>"

section \<open>The field readers\<close>

definition getEncrypted :: "gst_structure \<Rightarrow> protection_metadata \<Rightarrow> protection_metadata" where
  "getEncrypted info md =
     md\<lparr>pm_encrypted := (case gst_boolean info ''encrypted'' of None \<Rightarrow> False | Some b \<Rightarrow> b)\<rparr>"

definition getMediaKeySessionId :: "gst_structure \<Rightarrow> protection_metadata \<Rightarrow> protection_metadata" where
  "getMediaKeySessionId info md =
     md\<lparr>pm_mediaKeySessionId := (case gst_int info ''mks_id'' of None \<Rightarrow> 0 | Some i \<Rightarrow> i)\<rparr>"

definition getKID :: "gst_structure \<Rightarrow> protection_metadata \<Rightarrow> protection_metadata" where
  "getKID info md =
     (case gst_value info ''kid'' of
        None \<Rightarrow> md
      | Some value \<Rightarrow>
          (case gv_buffer value of
             None \<Rightarrow> md
           | Some keyIDBuffer \<Rightarrow>
               (let mapped = map_buffer keyIDBuffer
                in if mb_ok mapped then md\<lparr>pm_kid := mb_vector mapped\<rparr> else md)))"

definition getIV :: "gst_structure \<Rightarrow> protection_metadata \<Rightarrow> protection_metadata" where
  "getIV info md =
     (let ivSize = (case gst_uint info ''iv_size'' of None \<Rightarrow> 0 | Some n \<Rightarrow> n)
      in case gst_value info ''iv'' of
           None \<Rightarrow> md
         | Some value \<Rightarrow>
             (case gv_buffer value of
                None \<Rightarrow> md
              | Some ivBuffer \<Rightarrow>
                  (let mapped = map_buffer ivBuffer
                   in if mb_ok mapped \<and> unat ivSize = mb_size mapped
                      then md\<lparr>pm_iv := mb_vector mapped\<rparr> else md)))"

text \<open>
  The two big-endian reads of the loop: \<open>BytesOfClearData\<close> in 16 bits, \<open>BytesOfEncryptedData\<close> in 32.
\<close>

definition read_u16 :: "u8 \<Rightarrow> u8 \<Rightarrow> u16" where
  "read_u16 b0 b1 = push_bit 8 (ucast b0) OR ucast b1"

definition read_u32 :: "u8 \<Rightarrow> u8 \<Rightarrow> u8 \<Rightarrow> u8 \<Rightarrow> u32" where
  "read_u32 b0 b1 b2 b3 =
     push_bit 24 (ucast b0) OR push_bit 16 (ucast b1) OR push_bit 8 (ucast b2) OR ucast b3"

text \<open>
  The \<open>for\<close> loop over the table. Indexing the vector past its end is undefined in C++: here it is
  the fault \<open>Out_Of_Range\<close>.
\<close>

fun subsample_loop :: "nat \<Rightarrow> nat \<Rightarrow> u8 list \<Rightarrow> (u32 \<times> u32) list \<Rightarrow> (u32 \<times> u32) list result" where
  "subsample_loop 0 off bs acc = Inr acc"
| "subsample_loop (Suc n) off bs acc =
     (if length bs \<le> off + 5 then Inl Out_Of_Range
      else subsample_loop n (off + 6) bs
        (acc @ [(ucast (read_u16 (bs ! off) (bs ! (off + 1))),
                 read_u32 (bs ! (off + 2)) (bs ! (off + 3)) (bs ! (off + 4)) (bs ! (off + 5)))]))"

definition getSubSamples :: "gst_structure \<Rightarrow> protection_metadata \<Rightarrow> protection_metadata result" where
  "getSubSamples info md =
     (let subSampleCount = (case gst_uint info ''subsample_count'' of None \<Rightarrow> 0 | Some n \<Rightarrow> n)
      in if subSampleCount = 0 then Inr md
         else case gst_value info ''subsamples'' of
                None \<Rightarrow> Inr md
              | Some value \<Rightarrow>
                  (case gv_buffer value of
                     None \<Rightarrow> Inr md
                   | Some subSamplesBuffer \<Rightarrow>
                       (let mapped = map_buffer subSamplesBuffer
                        in if mb_ok mapped \<and> mb_size mapped div 6 = unat subSampleCount
                           then bind_result
                             (subsample_loop (unat subSampleCount) 0 (mb_vector mapped) (pm_subsamples md))
                             (\<lambda>ss. Inr (md\<lparr>pm_subsamples := ss\<rparr>))
                           else Inr md)))"

definition getInitWithLast15 :: "gst_structure \<Rightarrow> protection_metadata \<Rightarrow> protection_metadata" where
  "getInitWithLast15 info md =
     md\<lparr>pm_initWithLast15 := (case gst_uint info ''init_with_last_15'' of None \<Rightarrow> 0 | Some n \<Rightarrow> n)\<rparr>"

definition getEncryptionScheme :: "gst_structure \<Rightarrow> protection_metadata \<Rightarrow> protection_metadata" where
  "getEncryptionScheme info md =
     (let cipherModeBuf = gst_string info ''cipher-mode''
      in md\<lparr>pm_cipherMode :=
           (if cipherModeBuf = Some ''cbcs'' then MODE_CBCS
            else if cipherModeBuf = Some ''cenc'' then MODE_CENC
            else if cipherModeBuf = Some ''cbc1'' then MODE_CBC1
            else if cipherModeBuf = Some ''cens'' then MODE_CENS
            else MODE_UNKNOWN)\<rparr>)"

definition getEncryptionPattern :: "gst_structure \<Rightarrow> protection_metadata \<Rightarrow> protection_metadata" where
  "getEncryptionPattern info md =
     (case gst_uint info ''crypt_byte_block'' of
        None \<Rightarrow> md
      | Some crypt \<Rightarrow>
          (let md = md\<lparr>pm_cryptBlocks := crypt\<rparr>
           in case gst_uint info ''skip_byte_block'' of
                None \<Rightarrow> md
              | Some skip \<Rightarrow> md\<lparr>pm_skipBlocks := skip, pm_encryptionPatternSet := True\<rparr>))"

text \<open>
  \<open>ProcessProtectionMetadata\<close>: the buffer is a pointer that may be null; the metadata is removed
  from the buffer once it has been read, encrypted or not.
\<close>

definition ProcessProtectionMetadata ::
    "gst_buffer option \<Rightarrow> protection_metadata \<Rightarrow> (gst_buffer option \<times> protection_metadata) result" where
  "ProcessProtectionMetadata buffer md =
     (case buffer of
        None \<Rightarrow> Inr (None, md)
      | Some buf \<Rightarrow>
          (case buf_protection buf of
             None \<Rightarrow> Inr (Some buf, md)
           | Some info \<Rightarrow>
               bind_result
                 (let md = getEncrypted info md
                  in if pm_encrypted md
                     then bind_result
                            (getSubSamples info (getIV info (getKID info (getMediaKeySessionId info md))))
                            (\<lambda>md. Inr (getEncryptionPattern info
                                     (getEncryptionScheme info (getInitWithLast15 info md))))
                     else Inr md)
                 (\<lambda>md. Inr (Some (buf\<lparr>buf_protection := None\<rparr>), md))))"

named_theorems field_readers \<open>which fields the readers leave alone\<close>

section \<open>The subsample table\<close>

definition encode_subsample :: "u16 \<times> u32 \<Rightarrow> u8 list" where
  "encode_subsample = (\<lambda>(c, e).
     [ucast (drop_bit 8 c), ucast c,
      ucast (drop_bit 24 e), ucast (drop_bit 16 e), ucast (drop_bit 8 e), ucast e])"

definition encode_subsamples :: "(u16 \<times> u32) list \<Rightarrow> u8 list" where
  "encode_subsamples xs = concat (map encode_subsample xs)"

lemma length_encode_subsample [simp]: "length (encode_subsample x) = 6"
  by (simp add: encode_subsample_def split: prod.splits)

lemma length_encode_subsamples [simp]: "length (encode_subsamples xs) = 6 * length xs"
  by (induction xs) (simp_all add: encode_subsamples_def)

lemma read_u16_encode: "read_u16 (ucast (drop_bit 8 c)) (ucast c) = (c :: u16)"
  unfolding read_u16_def
  by (rule bit_word_eqI) (auto simp: bit_simps)

lemma read_u32_encode:
  "read_u32 (ucast (drop_bit 24 e)) (ucast (drop_bit 16 e)) (ucast (drop_bit 8 e)) (ucast e) = (e :: u32)"
proof (rule bit_word_eqI)
  fix n assume "n < LENGTH(32)"
  then consider "n < 8" | "8 \<le> n" "n < 16" | "16 \<le> n" "n < 24" | "24 \<le> n" "n < 32"
    by (cases "n < 8"; cases "n < 16"; cases "n < 24"; simp)
  then show "bit (read_u32 (ucast (drop_bit 24 e)) (ucast (drop_bit 16 e)) (ucast (drop_bit 8 e))
      (ucast e)) n = bit e n"
    by cases (auto simp: read_u32_def bit_simps)
qed

definition subsample_at :: "u8 list \<Rightarrow> nat \<Rightarrow> u32 \<times> u32" where
  "subsample_at bs off =
     (ucast (read_u16 (bs ! off) (bs ! (off + 1))),
      read_u32 (bs ! (off + 2)) (bs ! (off + 3)) (bs ! (off + 4)) (bs ! (off + 5)))"

lemma subsample_loop_eq:
  "off + 6 * n \<le> length bs \<Longrightarrow>
   subsample_loop n off bs acc = Inr (acc @ map (\<lambda>i. subsample_at bs (off + 6 * i)) [0..<n])"
proof (induction n arbitrary: off acc)
  case 0
  then show ?case by simp
next
  case (Suc n)
  have "map (\<lambda>i. subsample_at bs (off + 6 * i)) [0..<Suc n] =
      subsample_at bs off # map (\<lambda>i. subsample_at bs (off + 6 + 6 * i)) [0..<n]"
    by (simp add: map_upt_Suc algebra_simps del: upt_Suc)
  with Suc show ?case by (simp add: subsample_at_def)
qed

lemma subsample_at_append:
  "subsample_at (encode_subsample x @ bs) 0 = (ucast (fst x), snd x)"
  "subsample_at (encode_subsample x @ bs) (6 + k) = subsample_at bs k"
  by (auto simp: subsample_at_def encode_subsample_def read_u16_encode read_u32_encode
      nth_append add.commute split: prod.splits)

lemma subsample_at_encode:
  "i < length xs \<Longrightarrow>
   subsample_at (encode_subsamples xs) (6 * i) = (ucast (fst (xs ! i)), snd (xs ! i))"
proof (induction xs arbitrary: i)
  case Nil
  then show ?case by simp
next
  case (Cons x xs)
  have split: "encode_subsamples (x # xs) = encode_subsample x @ encode_subsamples xs"
    by (simp add: encode_subsamples_def)
  show ?case
  proof (cases i)
    case 0
    then show ?thesis by (simp add: split subsample_at_append(1))
  next
    case (Suc j)
    then have "6 * i = 6 + 6 * j" by simp
    with Suc Cons show ?thesis by (simp only: split subsample_at_append(2)) simp
  qed
qed

lemma subsample_loop_encode:
  "subsample_loop (length xs) 0 (encode_subsamples xs) acc =
     Inr (acc @ map (\<lambda>(c, e). (ucast c, e)) xs)"
proof -
  have "map (\<lambda>i. subsample_at (encode_subsamples xs) (0 + 6 * i)) [0..<length xs] =
      map (\<lambda>(c, e). (ucast c, e)) xs"
    by (rule nth_equalityI) (auto simp: subsample_at_encode case_prod_beta)
  then show ?thesis by (simp add: subsample_loop_eq)
qed

lemma subsample_loop_checked:
  assumes "mb_size (map_buffer m) div 6 = n"
  shows "\<exists>ss. subsample_loop n 0 (mb_vector (map_buffer m)) acc = Inr (acc @ ss)"
proof -
  have "0 + 6 * n \<le> length (mb_vector (map_buffer m))"
    using assms by (auto simp: mb_vector_map_buffer)
  then show ?thesis by (auto simp: subsample_loop_eq)
qed

lemma metadata_same_subsamples: "md = md\<lparr>pm_subsamples := pm_subsamples md @ []\<rparr>"
  by simp

lemma getSubSamples_total:
  "\<exists>ss. getSubSamples info md = Inr (md\<lparr>pm_subsamples := pm_subsamples md @ ss\<rparr>)"
proof (cases "\<exists>n v m. gst_uint info ''subsample_count'' = Some n \<and> n \<noteq> 0 \<and>
    gst_value info ''subsamples'' = Some v \<and> gv_buffer v = Some m \<and>
    mb_ok (map_buffer m) \<and> mb_size (map_buffer m) div 6 = unat n")
  case True
  then obtain n v m where h: "gst_uint info ''subsample_count'' = Some n" "n \<noteq> 0"
    "gst_value info ''subsamples'' = Some v" "gv_buffer v = Some m" "mb_ok (map_buffer m)"
    and size: "mb_size (map_buffer m) div 6 = unat n" by blast
  obtain ss where "subsample_loop (unat n) 0 (mb_vector (map_buffer m)) (pm_subsamples md) =
      Inr (pm_subsamples md @ ss)"
    using subsample_loop_checked [OF size] by blast
  with h size show ?thesis by (auto simp: getSubSamples_def Let_def)
next
  case False
  then have "getSubSamples info md = Inr md"
    by (auto simp: getSubSamples_def Let_def split: option.splits)
  then show ?thesis using metadata_same_subsamples by metis
qed

text \<open>Each reader writes its own fields only.\<close>

lemma getEncryptionScheme_fields [field_readers]:
  "pm_encrypted (getEncryptionScheme info md) = pm_encrypted md"
  "pm_mediaKeySessionId (getEncryptionScheme info md) = pm_mediaKeySessionId md"
  "pm_iv (getEncryptionScheme info md) = pm_iv md"
  "pm_initWithLast15 (getEncryptionScheme info md) = pm_initWithLast15 md"
  "pm_encryptionPatternSet (getEncryptionScheme info md) = pm_encryptionPatternSet md"
  by (simp_all add: getEncryptionScheme_def Let_def)

lemma getEncryptionPattern_fields [field_readers]:
  "pm_encrypted (getEncryptionPattern info md) = pm_encrypted md"
  "pm_mediaKeySessionId (getEncryptionPattern info md) = pm_mediaKeySessionId md"
  "pm_iv (getEncryptionPattern info md) = pm_iv md"
  "pm_initWithLast15 (getEncryptionPattern info md) = pm_initWithLast15 md"
  "pm_cipherMode (getEncryptionPattern info md) = pm_cipherMode md"
  by (auto simp: getEncryptionPattern_def Let_def split: option.splits)

lemma getInitWithLast15_fields [field_readers]:
  "pm_encrypted (getInitWithLast15 info md) = pm_encrypted md"
  "pm_mediaKeySessionId (getInitWithLast15 info md) = pm_mediaKeySessionId md"
  "pm_iv (getInitWithLast15 info md) = pm_iv md"
  "pm_encryptionPatternSet (getInitWithLast15 info md) = pm_encryptionPatternSet md"
  "pm_initWithLast15 (getInitWithLast15 info md) =
     (case gst_uint info ''init_with_last_15'' of None \<Rightarrow> 0 | Some n \<Rightarrow> n)"
  by (simp_all add: getInitWithLast15_def)

lemma getIV_fields [field_readers]:
  "pm_encrypted (getIV info md) = pm_encrypted md"
  "pm_mediaKeySessionId (getIV info md) = pm_mediaKeySessionId md"
  "pm_encryptionPatternSet (getIV info md) = pm_encryptionPatternSet md"
  by (auto simp: getIV_def Let_def split: option.splits)

lemma getKID_fields [field_readers]:
  "pm_encrypted (getKID info md) = pm_encrypted md"
  "pm_mediaKeySessionId (getKID info md) = pm_mediaKeySessionId md"
  "pm_encryptionPatternSet (getKID info md) = pm_encryptionPatternSet md"
  "pm_iv (getKID info md) = pm_iv md"
  by (auto simp: getKID_def Let_def split: option.splits)

lemma getMediaKeySessionId_fields [field_readers]:
  "pm_encrypted (getMediaKeySessionId info md) = pm_encrypted md"
  "pm_mediaKeySessionId (getMediaKeySessionId info md) =
     (case gst_int info ''mks_id'' of None \<Rightarrow> 0 | Some i \<Rightarrow> i)"
  "pm_encryptionPatternSet (getMediaKeySessionId info md) = pm_encryptionPatternSet md"
  "pm_iv (getMediaKeySessionId info md) = pm_iv md"
  by (simp_all add: getMediaKeySessionId_def)

lemma getEncrypted_fields [field_readers]:
  "pm_encryptionPatternSet (getEncrypted info md) = pm_encryptionPatternSet md"
  "pm_iv (getEncrypted info md) = pm_iv md"
  by (simp_all add: getEncrypted_def)

section \<open>Guarantees\<close>

text \<open>
  C31. Reading the subsample table never indexes the byte vector out of range, whatever the
  structure claims: the count is checked against the size of the mapped bytes.
\<close>

theorem getSubSamples_in_range:
  "\<exists>ss. getSubSamples info md = Inr (md\<lparr>pm_subsamples := pm_subsamples md @ ss\<rparr>)"
  by (rule getSubSamples_total)

text \<open>A structure that carries the encoding of a table and its length.\<close>

definition senc_structure :: "gst_structure \<Rightarrow> (u16 \<times> u32) list \<Rightarrow> gst_structure" where
  "senc_structure info xs = info\<lparr>
     gst_uint := (gst_uint info)(''subsample_count'' \<mapsto> word_of_nat (length xs)),
     gst_value := (gst_value info)(''subsamples'' \<mapsto>
       \<lparr>gv_buffer = Some \<lparr>mem_mappable = True, mem_bytes = encode_subsamples xs\<rparr>, gv_string = None\<rparr>)\<rparr>"

text \<open>
  C32. Round trip of the 'senc' table: a structure that carries the encoding of a non-empty list of
  (clear, encrypted) byte counts and its length is read back as exactly that list, appended to the
  subsamples already there; nothing else of the metadata changes.
\<close>

theorem subsamples_roundtrip:
  assumes "length xs < 2 ^ 32"
  shows "getSubSamples (senc_structure info xs) md =
    Inr (md\<lparr>pm_subsamples := pm_subsamples md @ map (\<lambda>(c, e). (ucast c, e)) xs\<rparr>)"
proof -
  have n: "unat (word_of_nat (length xs) :: u32) = length xs"
    using assms by (simp add: unat_word_ariths unat_of_nat)
  show ?thesis
  proof (cases "xs = []")
    case True
    then show ?thesis by (simp add: getSubSamples_def senc_structure_def)
  next
    case False
    then have "(word_of_nat (length xs) :: u32) \<noteq> 0" using n by (metis length_0_conv unat_0)
    then show ?thesis
      using n by (simp add: getSubSamples_def senc_structure_def mb_vector_map_buffer subsample_loop_encode)
  qed
qed

theorem subsamples_roundtrip_witness:
  "map_option pm_subsamples (case getSubSamples
     (senc_structure (empty_structure ''application/x-cenc'') [(16, 1000), (0, 70000)]) new_metadata
     of Inr md \<Rightarrow> Some md | Inl _ \<Rightarrow> None) = Some [(16, 1000), (0, 70000)]"
proof -
  have h: "length [(16 :: u16, 1000 :: u32), (0, 70000)] < 2 ^ 32" by simp
  show ?thesis by (simp add: subsamples_roundtrip [OF h] new_metadata_def)
qed

text \<open>
  What \<open>ProcessProtectionMetadata\<close> does with a buffer that carries protection metadata: it never
  faults and always removes the metadata, so it is read once. When the metadata does not say
  encrypted, only \<open>encrypted\<close> is written (false). When it does, the session id, the cipher mode and
  \<open>initWithLast15\<close> are the structure's or their defaults, a replaced initialisation vector has the
  announced \<open>iv_size\<close>, and the pattern is set exactly when both block counts are present.
\<close>

theorem ProcessProtectionMetadata_spec:
  assumes "buf_protection b = Some info"
  shows "\<exists>md'. ProcessProtectionMetadata (Some b) md = Inr (Some (b\<lparr>buf_protection := None\<rparr>), md') \<and>
    ProcessProtectionMetadata (Some (b\<lparr>buf_protection := None\<rparr>)) md' =
      Inr (Some (b\<lparr>buf_protection := None\<rparr>), md') \<and>
    (if gst_boolean info ''encrypted'' \<noteq> Some True then md' = md\<lparr>pm_encrypted := False\<rparr>
     else pm_encrypted md' \<and>
       pm_mediaKeySessionId md' = (case gst_int info ''mks_id'' of None \<Rightarrow> 0 | Some i \<Rightarrow> i) \<and>
       pm_initWithLast15 md' = (case gst_uint info ''init_with_last_15'' of None \<Rightarrow> 0 | Some n \<Rightarrow> n) \<and>
       (pm_cipherMode md' = MODE_UNKNOWN) =
         (gst_string info ''cipher-mode'' \<notin> Some ` {''cbcs'', ''cenc'', ''cbc1'', ''cens''}) \<and>
       (pm_iv md' = pm_iv md \<or>
        length (pm_iv md') = unat (case gst_uint info ''iv_size'' of None \<Rightarrow> 0 | Some n \<Rightarrow> n)) \<and>
       pm_encryptionPatternSet md' = (pm_encryptionPatternSet md \<or>
         gst_uint info ''crypt_byte_block'' \<noteq> None \<and> gst_uint info ''skip_byte_block'' \<noteq> None))"
proof (cases "gst_boolean info ''encrypted'' = Some True")
  case False
  then have "pm_encrypted (getEncrypted info md) = False" "getEncrypted info md = md\<lparr>pm_encrypted := False\<rparr>"
    by (auto simp: getEncrypted_def split: option.splits)
  with assms False show ?thesis by (simp add: ProcessProtectionMetadata_def Let_def)
next
  case True
  let ?md = "getIV info (getKID info (getMediaKeySessionId info (getEncrypted info md)))"
  obtain ss where ss: "getSubSamples info ?md = Inr (?md\<lparr>pm_subsamples := pm_subsamples ?md @ ss\<rparr>)"
    using getSubSamples_total by blast
  let ?md2 = "getInitWithLast15 info (?md\<lparr>pm_subsamples := pm_subsamples ?md @ ss\<rparr>)"
  let ?md3 = "getEncryptionPattern info (getEncryptionScheme info ?md2)"
  have enc: "pm_encrypted (getEncrypted info md)" using True by (simp add: getEncrypted_def)
  have "ProcessProtectionMetadata (Some b) md = Inr (Some (b\<lparr>buf_protection := None\<rparr>), ?md3)"
    using assms enc ss by (simp add: ProcessProtectionMetadata_def Let_def)
  moreover have "ProcessProtectionMetadata (Some (b\<lparr>buf_protection := None\<rparr>)) ?md3 =
      Inr (Some (b\<lparr>buf_protection := None\<rparr>), ?md3)"
    by (simp add: ProcessProtectionMetadata_def)
  moreover have "pm_encrypted ?md3 \<and>
       pm_mediaKeySessionId ?md3 = (case gst_int info ''mks_id'' of None \<Rightarrow> 0 | Some i \<Rightarrow> i) \<and>
       pm_initWithLast15 ?md3 = (case gst_uint info ''init_with_last_15'' of None \<Rightarrow> 0 | Some n \<Rightarrow> n)"
    using enc by (simp add: field_readers)
  moreover have "(pm_cipherMode ?md3 = MODE_UNKNOWN) =
      (gst_string info ''cipher-mode'' \<notin> Some ` {''cbcs'', ''cenc'', ''cbc1'', ''cens''})"
    by (auto simp: field_readers getEncryptionScheme_def)
  moreover have "pm_iv ?md3 = pm_iv md \<or>
      length (pm_iv ?md3) = unat (case gst_uint info ''iv_size'' of None \<Rightarrow> 0 | Some n \<Rightarrow> n)"
    by (auto simp: field_readers getIV_def Let_def mb_vector_map_buffer split: option.splits)
  moreover have "pm_encryptionPatternSet ?md3 = (pm_encryptionPatternSet md \<or>
      gst_uint info ''crypt_byte_block'' \<noteq> None \<and> gst_uint info ''skip_byte_block'' \<noteq> None)"
    by (auto simp: field_readers getEncryptionPattern_def Let_def split: option.splits)
  ultimately show ?thesis using True by auto
qed

theorem ProcessProtectionMetadata_spec_witness:
  "\<exists>md'. ProcessProtectionMetadata
     (Some \<lparr>buf_memory = \<lparr>mem_mappable = True, mem_bytes = [1]\<rparr>, buf_pts = 0, buf_duration = 0,
        buf_protection = Some ((empty_structure ''meta'')\<lparr>gst_boolean := [''encrypted'' \<mapsto> True],
          gst_int := [''mks_id'' \<mapsto> 7]\<rparr>)\<rparr>) new_metadata =
     Inr (Some \<lparr>buf_memory = \<lparr>mem_mappable = True, mem_bytes = [1]\<rparr>, buf_pts = 0, buf_duration = 0,
        buf_protection = None\<rparr>, md') \<and> pm_encrypted md' \<and> pm_mediaKeySessionId md' = 7"
proof -
  let ?info = "(empty_structure ''meta'')\<lparr>gst_boolean := [''encrypted'' \<mapsto> True],
    gst_int := [''mks_id'' \<mapsto> 7]\<rparr>"
  let ?b = "\<lparr>buf_memory = \<lparr>mem_mappable = True, mem_bytes = [1 :: u8]\<rparr>, buf_pts = 0 :: u64,
    buf_duration = 0 :: u64, buf_protection = Some ?info\<rparr>"
  have h: "buf_protection ?b = Some ?info" by simp
  show ?thesis using ProcessProtectionMetadata_spec [OF h, of new_metadata] by auto
qed
end
