(* ===== verification/Buffer_Parser.thy ===== *)
theory Buffer_Parser
  imports Eme_Utils
begin

text \<open>
  Turning a sample into the media segment that is sent to the server: \<open>BufferParser.h\<close> and
  \<open>BufferParser.cpp\<close>, for audio and for video. A \<open>MediaSegment\<close> belongs to Rialto: here it is the
  record of what its constructor and its setters were given, \<open>None\<close> for a setter not called.
\<close>

section \<open>Segments\<close>

datatype segment_kind =
  Audio_Segment i32 i32            \<comment> \<open>sample rate, channels\<close>
| Video_Segment i32 i32 "i32 \<times> i32"  \<comment> \<open>width, height, frame rate\<close>

record media_segment =
  seg_id :: i32
  seg_timeStamp :: i64
  seg_duration :: i64
  seg_kind :: segment_kind
  seg_data :: "u8 list option"
  seg_encrypted :: bool
  seg_mediaKeySessionId :: "i32 option"
  seg_keyId :: "u8 list option"
  seg_initVector :: "u8 list option"
  seg_initWithLast15 :: "u32 option"
  seg_cipherMode :: "cipher_mode option"
  seg_encryptionPattern :: "(u32 \<times> u32) option"
  seg_subSamples :: "(u32 \<times> u32) list"
  seg_codecData :: "codec_data option"

definition new_segment :: "i32 \<Rightarrow> i64 \<Rightarrow> i64 \<Rightarrow> segment_kind \<Rightarrow> media_segment" where
  "new_segment sid ts dur k = \<lparr>seg_id = sid, seg_timeStamp = ts, seg_duration = dur, seg_kind = k,
     seg_data = None, seg_encrypted = False, seg_mediaKeySessionId = None, seg_keyId = None,
     seg_initVector = None, seg_initWithLast15 = None, seg_cipherMode = None,
     seg_encryptionPattern = None, seg_subSamples = [], seg_codecData = None\<rparr>"

datatype encryption_format = EF_CLEAR | EF_CENC | EF_WEBM

section \<open>The parser\<close>

text \<open>
  \<open>AudioBufferParser\<close> and \<open>VideoBufferParser\<close> differ in \<open>parseSpecificPartOfBuffer\<close> only. A missing
  frame rate is the pair of Rialto's \<open>kUndefinedSize\<close>, which is an argument.
\<close>

datatype parser_kind = Audio_Parser | Video_Parser

definition int_or_zero :: "gst_structure \<Rightarrow> string \<Rightarrow> i32" where
  "int_or_zero s f = (case gst_int s f of None \<Rightarrow> 0 | Some i \<Rightarrow> i)"

definition parse_audio_part :: "i32 \<Rightarrow> gst_structure \<Rightarrow> i64 \<Rightarrow> i64 \<Rightarrow> media_segment" where
  "parse_audio_part streamId structure timeStamp dur =
     new_segment streamId timeStamp dur
       (Audio_Segment (int_or_zero structure ''rate'') (int_or_zero structure ''channels''))"

definition parse_video_part :: "i32 \<Rightarrow> i32 \<Rightarrow> gst_structure \<Rightarrow> i64 \<Rightarrow> i64 \<Rightarrow> media_segment" where
  "parse_video_part kUndefinedSize streamId structure timeStamp dur =
     new_segment streamId timeStamp dur
       (Video_Segment (int_or_zero structure ''width'') (int_or_zero structure ''height'')
         (case gst_fraction structure ''framerate'' of
            None \<Rightarrow> (kUndefinedSize, kUndefinedSize) | Some fr \<Rightarrow> fr))"

text \<open>\<open>codec_data\<close> is read from a buffer when the value holds one, else from a string.\<close>

definition read_codec_data :: "gst_structure \<Rightarrow> codec_data option" where
  "read_codec_data structure =
     (case gst_value structure ''codec_data'' of
        None \<Rightarrow> None
      | Some v \<Rightarrow>
          (case gv_buffer v of
             Some buf \<Rightarrow>
               (let mapped = map_buffer buf
                in if mb_ok mapped then Some \<lparr>cd_type = CODEC_BUFFER, cd_bytes = mb_vector mapped\<rparr>
                   else None)
           | None \<Rightarrow>
               (case gv_string v of
                  Some str \<Rightarrow> Some \<lparr>cd_type = CODEC_STRING, cd_bytes = string_bytes str\<rparr>
                | None \<Rightarrow> None)))"

definition addCodecDataToSegment :: "gst_structure \<Rightarrow> media_segment \<Rightarrow> media_segment" where
  "addCodecDataToSegment structure seg =
     (case read_codec_data structure of
        None \<Rightarrow> seg | Some cd \<Rightarrow> seg\<lparr>seg_codecData := Some cd\<rparr>)"

definition encryption_format_of :: "string \<Rightarrow> encryption_format" where
  "encryption_format_of mediaType =
     (if mediaType = ''application/x-cenc'' then EF_CENC
      else if mediaType = ''application/x-webm-enc'' then EF_WEBM
      else EF_CLEAR)"

text \<open>
  An encrypted sample in one of the two protected formats without a subsample table gets one
  subsample that covers the whole buffer: the two 32-bit counts are 0 and the buffer's size.
\<close>

definition complete_subsamples ::
    "encryption_format \<Rightarrow> nat \<Rightarrow> protection_metadata \<Rightarrow> protection_metadata" where
  "complete_subsamples ef map_size md =
     (if ef = EF_WEBM \<or> ef = EF_CENC
      then (if pm_encrypted md \<and> length (pm_subsamples md) = 0
            then md\<lparr>pm_subsamples := pm_subsamples md @ [(0, word_of_nat map_size)]\<rparr> else md)
      else md)"

definition fill_segment :: "protection_metadata \<Rightarrow> media_segment \<Rightarrow> media_segment" where
  "fill_segment md seg =
     (if pm_encrypted md then
        (let seg = seg\<lparr>seg_encrypted := True, seg_mediaKeySessionId := Some (pm_mediaKeySessionId md),
               seg_keyId := Some (pm_kid md), seg_initVector := Some (pm_iv md),
               seg_initWithLast15 := Some (pm_initWithLast15 md),
               seg_cipherMode := Some (pm_cipherMode md)\<rparr>;
             seg = (if pm_encryptionPatternSet md
                    then seg\<lparr>seg_encryptionPattern := Some (pm_cryptBlocks md, pm_skipBlocks md)\<rparr> else seg)
         in fold (\<lambda>ss seg. seg\<lparr>seg_subSamples := seg_subSamples seg @ [ss]\<rparr>) (pm_subsamples md) seg)
      else seg)"

text \<open>
  The structure's name goes into a \<open>std::string\<close>: constructing one from a null pointer is a fault.
  The protection metadata is taken off the buffer on the way.
\<close>

definition addProtectionMetadataToSegment ::
    "gst_buffer \<Rightarrow> nat \<Rightarrow> gst_structure \<Rightarrow> media_segment \<Rightarrow> (gst_buffer \<times> media_segment) result" where
  "addProtectionMetadataToSegment buf map_size structure seg =
     bind_result (ProcessProtectionMetadata (Some buf) new_metadata) (\<lambda>(buf', md).
       case (buf', gst_name structure) of
         (Some b, Some mediaType) \<Rightarrow>
           (let md = complete_subsamples (encryption_format_of mediaType) map_size md
            in Inr (b, fill_segment md seg))
       | _ \<Rightarrow> Inl Null_Deref)"

definition parseBuffer ::
    "parser_kind \<Rightarrow> i32 \<Rightarrow> gst_sample \<Rightarrow> i32 \<Rightarrow> (gst_buffer \<times> media_segment) result" where
  "parseBuffer kind kUndefinedSize sample streamId =
     (let buf = sample_buffer sample; timeStamp = buf_pts buf; dur = buf_duration buf
      in case sample_structure sample of
           None \<Rightarrow> Inl Null_Deref
         | Some structure \<Rightarrow>
             (let mseData = (case kind of
                    Audio_Parser \<Rightarrow> parse_audio_part streamId structure timeStamp dur
                  | Video_Parser \<Rightarrow> parse_video_part kUndefinedSize streamId structure timeStamp dur);
                  mapped = mem_bytes (buf_memory buf);
                  mseData = mseData\<lparr>seg_data := Some mapped\<rparr>;
                  mseData = addCodecDataToSegment structure mseData
              in addProtectionMetadataToSegment buf (length mapped) structure mseData))"

section \<open>Lemmas\<close>

lemma fold_add_subsamples:
  "fold (\<lambda>ss seg. seg\<lparr>seg_subSamples := seg_subSamples seg @ [ss]\<rparr>) xs seg =
     seg\<lparr>seg_subSamples := seg_subSamples seg @ xs\<rparr>"
  by (induction xs arbitrary: seg) simp_all

lemma fill_segment_clear: "\<not> pm_encrypted md \<Longrightarrow> fill_segment md seg = seg"
  by (simp add: fill_segment_def)

lemma fill_segment_encrypted:
  "pm_encrypted md \<Longrightarrow> fill_segment md seg = seg\<lparr>seg_encrypted := True,
     seg_mediaKeySessionId := Some (pm_mediaKeySessionId md), seg_keyId := Some (pm_kid md),
     seg_initVector := Some (pm_iv md), seg_initWithLast15 := Some (pm_initWithLast15 md),
     seg_cipherMode := Some (pm_cipherMode md),
     seg_encryptionPattern := (if pm_encryptionPatternSet md
       then Some (pm_cryptBlocks md, pm_skipBlocks md) else seg_encryptionPattern seg),
     seg_subSamples := seg_subSamples seg @ pm_subsamples md\<rparr>"
  by (simp add: fill_segment_def fold_add_subsamples)

lemma complete_subsamples_fields [simp]:
  "pm_encrypted (complete_subsamples ef n md) = pm_encrypted md"
  "pm_kid (complete_subsamples ef n md) = pm_kid md"
  "pm_iv (complete_subsamples ef n md) = pm_iv md"
  "pm_mediaKeySessionId (complete_subsamples ef n md) = pm_mediaKeySessionId md"
  "pm_cipherMode (complete_subsamples ef n md) = pm_cipherMode md"
  "pm_initWithLast15 (complete_subsamples ef n md) = pm_initWithLast15 md"
  "pm_cryptBlocks (complete_subsamples ef n md) = pm_cryptBlocks md"
  "pm_skipBlocks (complete_subsamples ef n md) = pm_skipBlocks md"
  "pm_encryptionPatternSet (complete_subsamples ef n md) = pm_encryptionPatternSet md"
  by (simp_all add: complete_subsamples_def)

lemma complete_subsamples_table:
  "pm_encrypted md \<Longrightarrow> pm_subsamples (complete_subsamples ef n md) =
     (if ef \<noteq> EF_CLEAR \<and> pm_subsamples md = [] then [(0, word_of_nat n)] else pm_subsamples md)"
  by (cases ef) (simp_all add: complete_subsamples_def)

lemma addCodecData_fields [simp]:
  "seg_id (addCodecDataToSegment st seg) = seg_id seg"
  "seg_timeStamp (addCodecDataToSegment st seg) = seg_timeStamp seg"
  "seg_duration (addCodecDataToSegment st seg) = seg_duration seg"
  "seg_data (addCodecDataToSegment st seg) = seg_data seg"
  "seg_encrypted (addCodecDataToSegment st seg) = seg_encrypted seg"
  "seg_subSamples (addCodecDataToSegment st seg) = seg_subSamples seg"
  "seg_keyId (addCodecDataToSegment st seg) = seg_keyId seg"
  by (simp_all add: addCodecDataToSegment_def split: option.splits)

lemma new_segment_fields [simp]:
  "seg_id (new_segment i t d k) = i" "seg_timeStamp (new_segment i t d k) = t"
  "seg_duration (new_segment i t d k) = d" "seg_encrypted (new_segment i t d k) = False"
  "seg_subSamples (new_segment i t d k) = []" "seg_keyId (new_segment i t d k) = None"
  by (simp_all add: new_segment_def)

lemma ProcessProtectionMetadata_total:
  "\<exists>md'. ProcessProtectionMetadata (Some b) md = Inr (Some (b\<lparr>buf_protection := None\<rparr>), md')"
proof (cases "buf_protection b")
  case None
  then show ?thesis by (simp add: ProcessProtectionMetadata_def)
next
  case (Some info)
  let ?r = "getSubSamples info (getIV info (getKID info (getMediaKeySessionId info (getEncrypted info md))))"
  obtain md2 where "?r = Inr md2" using getSubSamples_total by metis
  with Some show ?thesis by (simp add: ProcessProtectionMetadata_def Let_def)
qed

text \<open>
  What the readers make of the metadata of an encrypted sample, as the structure's fields: the bytes of a
  value that holds a mappable buffer, and the defaults for what is missing. The vector is taken only if
  its length is the announced one.
\<close>

definition value_bytes :: "gst_structure \<Rightarrow> string \<Rightarrow> u8 list" where
  "value_bytes info f = (case gst_value info f of None \<Rightarrow> []
     | Some v \<Rightarrow> (case gv_buffer v of None \<Rightarrow> [] | Some m \<Rightarrow> if mem_mappable m then mem_bytes m else []))"

definition uint_or_zero :: "gst_structure \<Rightarrow> string \<Rightarrow> u32" where
  "uint_or_zero info f = (case gst_uint info f of None \<Rightarrow> 0 | Some n \<Rightarrow> n)"

definition cipher_mode_of :: "string option \<Rightarrow> cipher_mode" where
  "cipher_mode_of s = (case s of None \<Rightarrow> MODE_UNKNOWN | Some s \<Rightarrow>
     (case map_of [(''cbcs'', MODE_CBCS), (''cenc'', MODE_CENC), (''cbc1'', MODE_CBC1), (''cens'', MODE_CENS)] s of
        None \<Rightarrow> MODE_UNKNOWN | Some m \<Rightarrow> m))"

definition encrypted_as :: "gst_structure \<Rightarrow> (u32 \<times> u32) list \<Rightarrow> media_segment \<Rightarrow> media_segment" where
  "encrypted_as info table seg = seg\<lparr>seg_encrypted := True,
     seg_mediaKeySessionId := Some (int_or_zero info ''mks_id''),
     seg_keyId := Some (value_bytes info ''kid''),
     seg_initVector := Some (if unat (uint_or_zero info ''iv_size'') = length (value_bytes info ''iv'')
       then value_bytes info ''iv'' else []),
     seg_initWithLast15 := Some (uint_or_zero info ''init_with_last_15''),
     seg_cipherMode := Some (cipher_mode_of (gst_string info ''cipher-mode'')),
     seg_encryptionPattern := (case (gst_uint info ''crypt_byte_block'', gst_uint info ''skip_byte_block'') of
         (Some crypt, Some skip) \<Rightarrow> Some (crypt, skip) | _ \<Rightarrow> None),
     seg_subSamples := table\<rparr>"

definition says_encrypted :: "gst_buffer \<Rightarrow> gst_structure option" where
  "says_encrypted b = (case buf_protection b of None \<Rightarrow> None
     | Some info \<Rightarrow> if gst_boolean info ''encrypted'' = Some True then Some info else None)"

lemma protection_clear:
  assumes "says_encrypted b = None"
  shows "\<exists>md. ProcessProtectionMetadata (Some b) new_metadata = Inr (Some (b\<lparr>buf_protection := None\<rparr>), md) \<and> \<not> pm_encrypted md"
proof (cases "buf_protection b")
  case None
  then show ?thesis by (simp add: ProcessProtectionMetadata_def new_metadata_def)
next
  case (Some info)
  with assms show ?thesis
    by (auto simp: says_encrypted_def ProcessProtectionMetadata_def getEncrypted_def Let_def split: if_splits option.splits)
qed

lemma kid_readers [field_readers]:
  "pm_kid (getEncryptionPattern info md) = pm_kid md" "pm_kid (getEncryptionScheme info md) = pm_kid md"
  "pm_kid (getInitWithLast15 info md) = pm_kid md" "pm_kid (getIV info md) = pm_kid md"
  by (auto simp: getEncryptionPattern_def getEncryptionScheme_def getInitWithLast15_def getIV_def Let_def split: option.splits)

lemma subsample_readers [field_readers]:
  "pm_subsamples (getEncryptionPattern info md) = pm_subsamples md"
  "pm_subsamples (getEncryptionScheme info md) = pm_subsamples md"
  "pm_subsamples (getInitWithLast15 info md) = pm_subsamples md" "pm_subsamples (getIV info md) = pm_subsamples md"
  "pm_subsamples (getKID info md) = pm_subsamples md" "pm_subsamples (getMediaKeySessionId info md) = pm_subsamples md"
  "pm_subsamples (getEncrypted info md) = pm_subsamples md"
  by (auto simp: getEncryptionPattern_def getEncryptionScheme_def getInitWithLast15_def getIV_def getKID_def
      getMediaKeySessionId_def getEncrypted_def Let_def split: option.splits)

lemma getKID_new: "pm_kid md = [] \<Longrightarrow> pm_kid (getKID info md) = value_bytes info ''kid''"
  by (auto simp: getKID_def value_bytes_def mb_vector_map_buffer Let_def split: option.split)

lemma getIV_new: "pm_iv md = [] \<Longrightarrow> pm_iv (getIV info md) =
    (if unat (uint_or_zero info ''iv_size'') = length (value_bytes info ''iv'') then value_bytes info ''iv'' else [])"
  by (auto simp: getIV_def value_bytes_def uint_or_zero_def mb_vector_map_buffer Let_def split: option.split)

lemma pattern_new:
  assumes "\<not> pm_encryptionPatternSet md"
  shows "(if pm_encryptionPatternSet (getEncryptionPattern info md)
      then Some (pm_cryptBlocks (getEncryptionPattern info md), pm_skipBlocks (getEncryptionPattern info md)) else None) =
    (case (gst_uint info ''crypt_byte_block'', gst_uint info ''skip_byte_block'') of
       (Some crypt, Some skip) \<Rightarrow> Some (crypt, skip) | _ \<Rightarrow> None)"
  using assms by (simp add: getEncryptionPattern_def Let_def split: option.split)

lemma fill_encrypted_as:
  assumes "pm_encrypted md" "seg_encryptionPattern seg = None" "seg_subSamples seg = []"
    and "pm_mediaKeySessionId md = int_or_zero info ''mks_id''" "pm_kid md = value_bytes info ''kid''"
    and "pm_iv md = (if unat (uint_or_zero info ''iv_size'') = length (value_bytes info ''iv'') then value_bytes info ''iv'' else [])"
    and "pm_initWithLast15 md = uint_or_zero info ''init_with_last_15''"
    and "pm_cipherMode md = cipher_mode_of (gst_string info ''cipher-mode'')"
    and "(if pm_encryptionPatternSet md then Some (pm_cryptBlocks md, pm_skipBlocks md) else None) =
      (case (gst_uint info ''crypt_byte_block'', gst_uint info ''skip_byte_block'') of
         (Some crypt, Some skip) \<Rightarrow> Some (crypt, skip) | _ \<Rightarrow> None)"
  shows "fill_segment (md\<lparr>pm_subsamples := table\<rparr>) seg = encrypted_as info table seg"
  unfolding encrypted_as_def assms(9) [symmetric]
  using assms(1-8) by (simp add: fill_segment_encrypted)

lemma protection_read:
  assumes "says_encrypted b = Some info"
  obtains md where "ProcessProtectionMetadata (Some b) new_metadata = Inr (Some (b\<lparr>buf_protection := None\<rparr>), md)"
    "pm_encrypted md" "getSubSamples info new_metadata = Inr (new_metadata\<lparr>pm_subsamples := pm_subsamples md\<rparr>)"
    "\<And>table seg. seg_encryptionPattern seg = None \<Longrightarrow> seg_subSamples seg = [] \<Longrightarrow>
       fill_segment (md\<lparr>pm_subsamples := table\<rparr>) seg = encrypted_as info table seg"
proof -
  from assms have info: "buf_protection b = Some info" "gst_boolean info ''encrypted'' = Some True"
    by (auto simp: says_encrypted_def split: option.splits if_splits)
  let ?md0 = "getMediaKeySessionId info (getEncrypted info new_metadata)"
  let ?md1 = "getIV info (getKID info ?md0)"
  have md0: "pm_kid ?md0 = []" "pm_iv (getKID info ?md0) = []" "pm_encrypted ?md0" "pm_subsamples ?md1 = []"
    using info by (simp_all add: field_readers getMediaKeySessionId_def getEncrypted_def new_metadata_def)
  obtain ss where ss: "getSubSamples info new_metadata = Inr (new_metadata\<lparr>pm_subsamples := pm_subsamples new_metadata @ ss\<rparr>)"
    using getSubSamples_total by blast
  obtain ss1 where ss1: "getSubSamples info ?md1 = Inr (?md1\<lparr>pm_subsamples := pm_subsamples ?md1 @ ss1\<rparr>)"
    using getSubSamples_total by blast
  have "map_sum id pm_subsamples (getSubSamples info ?md1) = map_sum id pm_subsamples (getSubSamples info new_metadata)"
    using md0(4) by (simp add: getSubSamples_def new_metadata_def Let_def bind_result_def split: option.split sum.split)
  with ss ss1 md0(4) have "ss1 = ss" by (simp add: new_metadata_def)
  let ?md = "getEncryptionPattern info (getEncryptionScheme info (getInitWithLast15 info (?md1\<lparr>pm_subsamples := ss\<rparr>)))"
  have enc: "pm_encrypted ?md" using info by (simp add: field_readers getEncrypted_def)
  have "ProcessProtectionMetadata (Some b) new_metadata = Inr (Some (b\<lparr>buf_protection := None\<rparr>), ?md)"
    using info ss1 md0(4) unfolding \<open>ss1 = ss\<close>
    by (simp add: ProcessProtectionMetadata_def getEncrypted_def Let_def)
  moreover have "pm_subsamples ?md = ss" by (simp add: field_readers)
  moreover have "fill_segment (?md\<lparr>pm_subsamples := table\<rparr>) seg = encrypted_as info table seg"
    if "seg_encryptionPattern seg = None" "seg_subSamples seg = []" for table seg
  proof (rule fill_encrypted_as [OF enc that])
    show "pm_mediaKeySessionId ?md = int_or_zero info ''mks_id''" by (simp add: field_readers int_or_zero_def)
    show "pm_kid ?md = value_bytes info ''kid''" using getKID_new md0(1) by (simp add: field_readers)
    show "pm_iv ?md = (if unat (uint_or_zero info ''iv_size'') = length (value_bytes info ''iv'')
        then value_bytes info ''iv'' else [])" using getIV_new md0(2) by (simp add: field_readers)
    show "pm_initWithLast15 ?md = uint_or_zero info ''init_with_last_15''"
      by (simp add: field_readers uint_or_zero_def)
    show "pm_cipherMode ?md = cipher_mode_of (gst_string info ''cipher-mode'')"
      by (simp add: field_readers getEncryptionScheme_def cipher_mode_of_def Let_def split: option.split)
    show "(if pm_encryptionPatternSet ?md then Some (pm_cryptBlocks ?md, pm_skipBlocks ?md) else None) =
        (case (gst_uint info ''crypt_byte_block'', gst_uint info ''skip_byte_block'') of
           (Some crypt, Some skip) \<Rightarrow> Some (crypt, skip) | _ \<Rightarrow> None)"
      by (rule pattern_new) (simp add: field_readers new_metadata_def)
  qed
  ultimately show thesis using enc ss by (intro that [of ?md]) (simp_all add: new_metadata_def)
qed

section \<open>Guarantees\<close>

text \<open>
  C33. \<open>parseBuffer\<close> on a sample with caps never faults and returns this segment: the stream id, the
  buffer's timestamp, duration and bytes, the format and the codec data of the caps. If the buffer's
  protection metadata does not say encrypted, no protection field is set. If it does, the session id, the
  key id, the initialisation vector (if its length is the announced one), the count of the last 15 bytes,
  the cipher mode and the crypt and skip counts of the pattern are each those of the metadata; the subsamples
  are the metadata's table, or, for the two protected container formats without a table, the one subsample
  that covers the whole buffer. The metadata is gone from the buffer afterwards, and nothing else of it has changed.
\<close>

theorem parseBuffer_spec:
  assumes "sample_structure sample = Some st" and "gst_name st = Some mediaType"
  shows "let b = sample_buffer sample; bytes = mem_bytes (buf_memory b);
      clear = (new_segment streamId (buf_pts b) (buf_duration b)
        (case kind of
           Audio_Parser \<Rightarrow> Audio_Segment (int_or_zero st ''rate'') (int_or_zero st ''channels'')
         | Video_Parser \<Rightarrow> Video_Segment (int_or_zero st ''width'') (int_or_zero st ''height'')
             (case gst_fraction st ''framerate'' of None \<Rightarrow> (undef, undef) | Some fr \<Rightarrow> fr)))
        \<lparr>seg_data := Some bytes, seg_codecData := read_codec_data st\<rparr>
    in case says_encrypted b of
      None \<Rightarrow> parseBuffer kind undef sample streamId = Inr (b\<lparr>buf_protection := None\<rparr>, clear)
    | Some info \<Rightarrow> (\<exists>md. getSubSamples info new_metadata = Inr md \<and>
        parseBuffer kind undef sample streamId = Inr (b\<lparr>buf_protection := None\<rparr>,
          encrypted_as info
            (if mediaType \<in> {''application/x-cenc'', ''application/x-webm-enc''} \<and> pm_subsamples md = []
             then [(0, word_of_nat (length bytes))] else pm_subsamples md) clear))"
proof -
  let ?b = "sample_buffer sample" and ?ef = "encryption_format_of mediaType"
  let ?bytes = "mem_bytes (buf_memory ?b)"
  let ?kind = "case kind of
           Audio_Parser \<Rightarrow> Audio_Segment (int_or_zero st ''rate'') (int_or_zero st ''channels'')
         | Video_Parser \<Rightarrow> Video_Segment (int_or_zero st ''width'') (int_or_zero st ''height'')
             (case gst_fraction st ''framerate'' of None \<Rightarrow> (undef, undef) | Some fr \<Rightarrow> fr)"
  let ?clear = "(new_segment streamId (buf_pts ?b) (buf_duration ?b) ?kind)\<lparr>seg_data := Some ?bytes, seg_codecData := read_codec_data st\<rparr>"
  have p: "parseBuffer kind undef sample streamId = bind_result (ProcessProtectionMetadata (Some ?b) new_metadata)
      (\<lambda>(buf', md). case buf' of None \<Rightarrow> Inl Null_Deref
         | Some b \<Rightarrow> Inr (b, fill_segment (complete_subsamples ?ef (length ?bytes) md) ?clear))"
    using assms
    by (cases kind) (simp_all add: parseBuffer_def addProtectionMetadataToSegment_def parse_audio_part_def parse_video_part_def
        addCodecDataToSegment_def new_segment_def Let_def bind_result_def split: option.split sum.split)
  show ?thesis
  proof (cases "says_encrypted ?b")
    case None
    then obtain md where "ProcessProtectionMetadata (Some ?b) new_metadata = Inr (Some (?b\<lparr>buf_protection := None\<rparr>), md)"
      "\<not> pm_encrypted md" using protection_clear by blast
    with p None show ?thesis by (simp add: fill_segment_clear Let_def)
  next
    case (Some info)
    let ?table = "\<lambda>ss. if mediaType \<in> {''application/x-cenc'', ''application/x-webm-enc''} \<and> ss = []
             then [(0, word_of_nat (length ?bytes))] else ss"
    obtain md where md: "ProcessProtectionMetadata (Some ?b) new_metadata = Inr (Some (?b\<lparr>buf_protection := None\<rparr>), md)"
      "pm_encrypted md" "getSubSamples info new_metadata = Inr (new_metadata\<lparr>pm_subsamples := pm_subsamples md\<rparr>)"
      "\<And>t seg. seg_encryptionPattern seg = None \<Longrightarrow> seg_subSamples seg = [] \<Longrightarrow>
         fill_segment (md\<lparr>pm_subsamples := t\<rparr>) seg = encrypted_as info t seg"
      by (rule protection_read [OF Some], rule that; blast)
    have "complete_subsamples ?ef (length ?bytes) md = md\<lparr>pm_subsamples := ?table (pm_subsamples md)\<rparr>"
      using md(2) by (simp add: complete_subsamples_def encryption_format_of_def)
    with md(1,4) p have "parseBuffer kind undef sample streamId =
        Inr (?b\<lparr>buf_protection := None\<rparr>, encrypted_as info (?table (pm_subsamples md)) ?clear)"
      by (simp add: new_segment_def)
    with Some md(3) show ?thesis by (simp add: Let_def)
  qed
qed

definition example_sample :: gst_sample where
  "example_sample = \<lparr>sample_buffer = \<lparr>buf_memory = \<lparr>mem_mappable = True, mem_bytes = [1, 2, 3]\<rparr>,
       buf_pts = 40, buf_duration = 20,
       buf_protection = Some ((empty_structure ''meta'')\<lparr>gst_boolean := [''encrypted'' \<mapsto> True],
         gst_uint := [''iv_size'' \<mapsto> 2, ''crypt_byte_block'' \<mapsto> 1, ''skip_byte_block'' \<mapsto> 9],
         gst_value := [''kid'' \<mapsto> \<lparr>gv_buffer = Some \<lparr>mem_mappable = True, mem_bytes = [7]\<rparr>, gv_string = None\<rparr>,
           ''iv'' \<mapsto> \<lparr>gv_buffer = Some \<lparr>mem_mappable = True, mem_bytes = [8, 9]\<rparr>, gv_string = None\<rparr>]\<rparr>)\<rparr>,
     sample_structure = Some (empty_structure ''application/x-cenc''),
     sample_segment = \<lparr>sgm_rate = 0, sgm_start = 0\<rparr>\<rparr>"

theorem parseBuffer_spec_witness:
  "\<exists>buf' seg. parseBuffer Audio_Parser 0 example_sample 5 = Inr (buf', seg) \<and>
     seg_id seg = 5 \<and> seg_encrypted seg \<and> seg_keyId seg = Some [7] \<and> seg_initVector seg = Some [8, 9] \<and>
     seg_encryptionPattern seg = Some (1, 9) \<and> seg_subSamples seg = [(0, 3)]"
proof -
  have h: "sample_structure example_sample = Some (empty_structure ''application/x-cenc'')"
    "gst_name (empty_structure ''application/x-cenc'') = Some ''application/x-cenc''"
    by (simp_all add: example_sample_def empty_structure_def)
  show ?thesis
    using parseBuffer_spec [OF h, where kind = Audio_Parser and streamId = 5 and undef = 0]
    by (auto simp: example_sample_def says_encrypted_def encrypted_as_def value_bytes_def uint_or_zero_def getSubSamples_def
        new_metadata_def new_segment_def empty_structure_def Let_def)
qed
end
