(* ===== verification/Mse_Utils.thy ===== *)
theory Mse_Utils
  imports Gst_Types
begin

text \<open>
  The caps a sink class advertises: \<open>GStreamerMSEUtils.h\<close> and \<open>GStreamerMSEUtils.cpp\<close>. The supported
  mime types come from the server; the caps appended to the pad template are the result.
\<close>

section \<open>The table and the loop\<close>

definition kMimeToCaps :: "string \<rightharpoonup> string list" where
  "kMimeToCaps = map_of
     [(''audio/mp4'', [''audio/mpeg, mpegversion=1'', ''audio/mpeg, mpegversion=2'',
         ''audio/mpeg, mpegversion=4'']),
      (''audio/aac'', [''audio/mpeg, mpegversion=2'', ''audio/mpeg, mpegversion=4'']),
      (''audio/x-eac3'', [''audio/x-ac3'', ''audio/x-eac3'']),
      (''audio/x-opus'', [''audio/x-opus'']),
      (''video/h264'', [''video/x-h264'']),
      (''video/h265'', [''video/x-h265'']),
      (''video/x-av1'', [''video/x-av1'']),
      (''video/x-vp9'', [''video/x-vp9''])]"

text \<open>The inner loop: append what has not been added yet. The list is \<open>caps\<close>, its set \<open>addedCaps\<close>.\<close>

fun add_caps :: "string list \<Rightarrow> string list \<Rightarrow> string list" where
  "add_caps caps [] = caps"
| "add_caps caps (c # cs) = (if c \<notin> set caps then add_caps (caps @ [c]) cs else add_caps caps cs)"

fun supported_caps :: "string list \<Rightarrow> string list \<Rightarrow> string list" where
  "supported_caps caps [] = caps"
| "supported_caps caps (mime # mimes) =
     (case kMimeToCaps mime of
        Some cs \<Rightarrow> supported_caps (add_caps caps cs) mimes
      | None \<Rightarrow> supported_caps caps mimes)"

definition rialto_mse_sink_setup_supported_caps :: "string list \<Rightarrow> string list" where
  "rialto_mse_sink_setup_supported_caps mimes = supported_caps [] mimes"

section \<open>Lemmas\<close>

lemma set_add_caps: "set (add_caps caps cs) = set caps \<union> set cs"
  by (induction caps cs rule: add_caps.induct) auto

lemma distinct_add_caps: "distinct caps \<Longrightarrow> distinct (add_caps caps cs)"
  by (induction caps cs rule: add_caps.induct) auto

lemma add_caps_prefix: "\<exists>ys. add_caps caps cs = caps @ ys"
proof (induction caps cs rule: add_caps.induct)
  case (2 caps c cs)
  then show ?case by (cases "c \<in> set caps") auto
qed simp

definition caps_of :: "string \<Rightarrow> string list" where
  "caps_of mime = (case kMimeToCaps mime of None \<Rightarrow> [] | Some cs \<Rightarrow> cs)"

lemma supported_caps_Cons: "supported_caps caps (m # ms) = supported_caps (add_caps caps (caps_of m)) ms"
  by (simp add: caps_of_def split: option.splits)

lemma set_supported_caps: "set (supported_caps caps ms) = set caps \<union> \<Union> (set ` caps_of ` set ms)"
  by (induction ms arbitrary: caps) (auto simp: supported_caps_Cons set_add_caps simp del: supported_caps.simps(2))

lemma distinct_supported_caps: "distinct caps \<Longrightarrow> distinct (supported_caps caps ms)"
  by (induction ms arbitrary: caps)
    (auto simp: supported_caps_Cons distinct_add_caps simp del: supported_caps.simps(2))

lemma supported_caps_prefix: "\<exists>ys. supported_caps caps ms = caps @ ys"
proof (induction ms arbitrary: caps)
  case Nil
  then show ?case by simp
next
  case (Cons m ms)
  obtain ys where "add_caps caps (caps_of m) = caps @ ys" using add_caps_prefix by blast
  moreover obtain zs where "supported_caps (caps @ ys) ms = (caps @ ys) @ zs" using Cons by blast
  ultimately show ?case by (auto simp: supported_caps_Cons simp del: supported_caps.simps(2))
qed

section \<open>Guarantees\<close>

text \<open>
  The pad template gets each caps string once, exactly the strings the table lists for one of
  the supported mime types (unknown mime types add nothing), and supporting more mime types only
  appends to what fewer give: the order follows the server's list.
\<close>

theorem supported_caps_spec:
  "distinct (rialto_mse_sink_setup_supported_caps mimes) \<and>
   (c \<in> set (rialto_mse_sink_setup_supported_caps mimes) \<longleftrightarrow>
     (\<exists>mime cs. mime \<in> set mimes \<and> kMimeToCaps mime = Some cs \<and> c \<in> set cs)) \<and>
   (\<exists>ys. rialto_mse_sink_setup_supported_caps (mimes @ mimes') =
     rialto_mse_sink_setup_supported_caps mimes @ ys)"
proof -
  have app: "supported_caps caps (xs @ ys) = supported_caps (supported_caps caps xs) ys" for caps xs ys
    by (induction xs arbitrary: caps) (auto split: option.splits)
  show ?thesis
    using distinct_supported_caps [of "[]" mimes] supported_caps_prefix
    by (force simp: rialto_mse_sink_setup_supported_caps_def set_supported_caps app caps_of_def
        split: option.splits)
qed

end
