(* ===== verification/Base_Sink.thy ===== *)
theory Base_Sink
  imports Buffer_Parser Control_Backend
begin

text \<open>
  The state of a Rialto MSE base sink and the operations that touch nothing but it:
  \<open>RialtoGStreamerMSEBaseSink.cpp\<close>, \<open>RialtoGStreamerMSEBaseSinkPrivate.h\<close> and
  \<open>RialtoGStreamerMSEBaseSinkCallbacks.h\<close>. A sink is its GStreamer element (states and what it has
  posted on the bus), the private structure, and the streaming thread of its pad, which may be
  blocked in \<open>rialto_mse_base_sink_chain\<close>. Every operation here runs under \<open>m_sinkMutex\<close> (or another
  lock of the sink) and is one atomic step. The operations that also use the media player client
  (\<open>change_state\<close>, \<open>seek\<close>, the events and queries) are in \<open>Sink_Element\<close>.
\<close>

section \<open>Element and bus\<close>

datatype qos_format = FORMAT_DEFAULT | FORMAT_BUFFERS

datatype bus_message =
  Async_Start
| Async_Done
| Eos_Message
| Error_Message string
| State_Changed gst_state gst_state gst_state
| Reset_Time u64
| Qos_Stats qos_format u64 u64
| Sink_Message string

record gst_element =
  el_state :: gst_state
  el_next :: gst_state
  el_pending :: gst_state
  el_return :: gst_state_change_return
  el_bus :: "bus_message list"

section \<open>State of a sink\<close>

text \<open>
  \<open>Chain_Waiting\<close>: the streaming thread waits on \<open>m_needDataCondVariable\<close> with a buffer in hand;
  \<open>Chain_Woken\<close>: it has been notified and has not yet taken the mutex again.
\<close>

datatype chain_pc = Chain_Idle | Chain_Waiting gst_buffer | Chain_Woken gst_buffer

text \<open>
  A callback of \<open>RialtoGStreamerMSEBaseSinkCallbacks\<close> is set or empty; the four of the base class
  have one possible target each, the QoS callback one per subclass. \<open>m_seekWaiting\<close>: a thread waits
  on \<open>m_seekCondVariable\<close>. \<open>sink_signals\<close> counts the emissions of the underflow signal.
\<close>

record base_sink =
  element :: gst_element
  m_sinkPad :: bool
  m_lastSegment :: gst_segment
  m_caps :: "gst_structure option"
  m_sourceId :: i32
  m_samples :: "gst_sample list"
  m_isEos :: bool
  m_isFlushOngoing :: bool
  m_isStateCommitNeeded :: bool
  m_seekWaiting :: bool
  m_uri :: string
  cb_error :: bool
  cb_seekCompleted :: bool
  cb_eos :: bool
  cb_stateChanged :: bool
  cb_qos :: "qos_format option"
  m_controlClient :: "control_backend option"
  m_handleResetTimeMessage :: bool
  m_sourceAttached :: bool
  m_isSinglePathStream :: bool
  m_numOfStreams :: i32
  m_hasDrm :: bool
  chain_thread :: chain_pc
  sink_signals :: nat

text \<open>\<open>gst_segment_init\<close>: rate 1.0 (its IEEE bits) and start 0.\<close>

definition double_one :: double_bits where
  "double_one = 0x3FF0000000000000"

definition segment_init :: gst_segment where
  "segment_init = \<lparr>sgm_rate = double_one, sgm_start = 0\<rparr>"

text \<open>
  \<open>_RialtoMSEBaseSinkPrivate\<close> as constructed, inside a fresh element, followed by
  \<open>rialto_mse_base_sink_init\<close> (the control backend is what its constructor made).
\<close>

definition new_private :: "gst_segment \<Rightarrow> base_sink" where
  "new_private garbage = \<lparr>element = \<lparr>el_state = GST_STATE_NULL, el_next = GST_STATE_VOID_PENDING,
       el_pending = GST_STATE_VOID_PENDING, el_return = GST_STATE_CHANGE_SUCCESS, el_bus = []\<rparr>,
     m_sinkPad = False, m_lastSegment = garbage, m_caps = None, m_sourceId = -1, m_samples = [],
     m_isEos = False, m_isFlushOngoing = False, m_isStateCommitNeeded = False,
     m_seekWaiting = False, m_uri = [], cb_error = False, cb_seekCompleted = False,
     cb_eos = False, cb_stateChanged = False, cb_qos = None, m_controlClient = None,
     m_handleResetTimeMessage = False, m_sourceAttached = False, m_isSinglePathStream = False,
     m_numOfStreams = 1, m_hasDrm = True, chain_thread = Chain_Idle, sink_signals = 0\<rparr>"

definition rialto_mse_base_sink_init :: "control_backend \<Rightarrow> base_sink \<Rightarrow> base_sink" where
  "rialto_mse_base_sink_init control s =
     s\<lparr>m_controlClient := Some control, cb_eos := True, cb_seekCompleted := True,
       cb_stateChanged := True, cb_error := True, m_lastSegment := segment_init\<rparr>"

section \<open>Messages on the bus\<close>

definition post_message :: "bus_message \<Rightarrow> base_sink \<Rightarrow> base_sink" where
  "post_message msg s = s\<lparr>element := (element s)\<lparr>el_bus := el_bus (element s) @ [msg]\<rparr>\<rparr>"

definition rialto_mse_base_async_start :: "base_sink \<Rightarrow> base_sink" where
  "rialto_mse_base_async_start s = post_message Async_Start (s\<lparr>m_isStateCommitNeeded := True\<rparr>)"

definition rialto_mse_base_async_done :: "base_sink \<Rightarrow> base_sink" where
  "rialto_mse_base_async_done s = post_message Async_Done (s\<lparr>m_isStateCommitNeeded := False\<rparr>)"

definition rialto_mse_base_sink_eos_handler :: "base_sink \<Rightarrow> base_sink" where
  "rialto_mse_base_sink_eos_handler s =
     (let currentState = el_state (element s)
      in if currentState \<noteq> GST_STATE_PAUSED \<and> currentState \<noteq> GST_STATE_PLAYING
         then post_message (Error_Message ''Rialto sinks received EOS in non-playing state'') s
         else post_message Eos_Message s)"

definition rialto_mse_base_sink_error_handler :: "string \<Rightarrow> base_sink \<Rightarrow> base_sink" where
  "rialto_mse_base_sink_error_handler msg s = post_message (Error_Message msg) s"

text \<open>
  Completion of an asynchronous state change: the element is moved to the state it was going to,
  the change is announced, then the end of the asynchronous phase.
\<close>

definition rialto_mse_base_sink_rialto_state_changed_handler ::
  "playback_state \<Rightarrow> base_sink \<Rightarrow> base_sink" where
  "rialto_mse_base_sink_rialto_state_changed_handler state s =
     (let e = element s; current = el_state e; nxt = el_next e; pending = el_pending e;
          postNext = (if nxt = pending then GST_STATE_VOID_PENDING else pending)
      in if m_isStateCommitNeeded s \<and>
            (state = PS_PAUSED \<and> nxt = GST_STATE_PAUSED \<or> state = PS_PLAYING \<and> nxt = GST_STATE_PLAYING)
         then rialto_mse_base_async_done (post_message (State_Changed current nxt pending)
                (s\<lparr>element := e\<lparr>el_state := nxt, el_next := postNext,
                   el_pending := GST_STATE_VOID_PENDING, el_return := GST_STATE_CHANGE_SUCCESS\<rparr>\<rparr>))
         else s)"

definition rialto_mse_base_sink_seek_completed_handler :: "base_sink \<Rightarrow> base_sink" where
  "rialto_mse_base_sink_seek_completed_handler s = s\<lparr>m_seekWaiting := False\<rparr>"

section \<open>Properties of the object\<close>

datatype base_prop =
  PROP_LOCATION | PROP_HANDLE_RESET_TIME_MESSAGE | PROP_IS_SINGLE_PATH_STREAM | PROP_N_STREAMS
| PROP_HAS_DRM | PROP_INVALID

text \<open>\<open>V_Null\<close>: a string value that holds no string.\<close>

datatype prop_value =
  V_String string | V_Null | V_Bool bool | V_Int i32 | V_Uint u32 | V_Double double_bits

text \<open>\<open>None\<close>: the value is left as it was and an invalid property is reported.\<close>

fun rialto_mse_base_sink_get_property :: "base_prop \<Rightarrow> base_sink \<Rightarrow> prop_value option" where
  "rialto_mse_base_sink_get_property PROP_LOCATION s = Some (V_String (m_uri s))"
| "rialto_mse_base_sink_get_property PROP_HANDLE_RESET_TIME_MESSAGE s = Some (V_Bool (m_handleResetTimeMessage s))"
| "rialto_mse_base_sink_get_property PROP_IS_SINGLE_PATH_STREAM s = Some (V_Bool (m_isSinglePathStream s))"
| "rialto_mse_base_sink_get_property PROP_N_STREAMS s = Some (V_Int (m_numOfStreams s))"
| "rialto_mse_base_sink_get_property PROP_HAS_DRM s = Some (V_Bool (m_hasDrm s))"
| "rialto_mse_base_sink_get_property PROP_INVALID s = None"

text \<open>
  GObject hands over a value of the type of the property; other combinations do not occur. The
  location is assigned to a \<open>std::string\<close>, which does not take a null pointer.
\<close>

fun rialto_mse_base_sink_set_property :: "base_prop \<Rightarrow> prop_value \<Rightarrow> base_sink \<Rightarrow> base_sink result" where
  "rialto_mse_base_sink_set_property PROP_LOCATION (V_String x) s = Inr (s\<lparr>m_uri := x\<rparr>)"
| "rialto_mse_base_sink_set_property PROP_LOCATION V_Null s = Inl Null_Deref"
| "rialto_mse_base_sink_set_property PROP_HANDLE_RESET_TIME_MESSAGE (V_Bool b) s = Inr (s\<lparr>m_handleResetTimeMessage := b\<rparr>)"
| "rialto_mse_base_sink_set_property PROP_IS_SINGLE_PATH_STREAM (V_Bool b) s = Inr (s\<lparr>m_isSinglePathStream := b\<rparr>)"
| "rialto_mse_base_sink_set_property PROP_N_STREAMS (V_Int n) s = Inr (s\<lparr>m_numOfStreams := n\<rparr>)"
| "rialto_mse_base_sink_set_property PROP_HAS_DRM (V_Bool b) s = Inr (s\<lparr>m_hasDrm := b\<rparr>)"
| "rialto_mse_base_sink_set_property p v s = Inr s"

section \<open>The sample queue\<close>

definition MAX_INTERNAL_BUFFERS_QUEUE_SIZE :: nat where
  "MAX_INTERNAL_BUFFERS_QUEUE_SIZE = 24"

fun chain_idle :: "chain_pc \<Rightarrow> bool" where
  "chain_idle Chain_Idle = True"
| "chain_idle _ = False"

lemma chain_idle_iff [simp]: "chain_idle pc \<longleftrightarrow> pc = Chain_Idle"
  by (cases pc) simp_all

text \<open>\<open>m_needDataCondVariable.notify_all()\<close>.\<close>

fun wake_chain :: "chain_pc \<Rightarrow> chain_pc" where
  "wake_chain (Chain_Waiting b) = Chain_Woken b"
| "wake_chain pc = pc"

lemma wake_chain_idle [simp]: "wake_chain pc = Chain_Idle \<longleftrightarrow> pc = Chain_Idle"
  by (cases pc) simp_all

definition notify_need_data :: "base_sink \<Rightarrow> base_sink" where
  "notify_need_data s = s\<lparr>chain_thread := wake_chain (chain_thread s)\<rparr>"

definition clearBuffersUnlocked :: "base_sink \<Rightarrow> base_sink" where
  "clearBuffersUnlocked s = (notify_need_data (s\<lparr>m_isFlushOngoing := True\<rparr>))\<lparr>m_samples := []\<rparr>"

definition rialto_mse_base_sink_flush_start :: "base_sink \<Rightarrow> base_sink" where
  "rialto_mse_base_sink_flush_start s =
     (if \<not> m_isFlushOngoing s
      then clearBuffersUnlocked (s\<lparr>m_isEos := False, m_isFlushOngoing := True\<rparr>) else s)"

definition rialto_mse_base_sink_flush_stop :: "bool \<Rightarrow> base_sink \<Rightarrow> base_sink" where
  "rialto_mse_base_sink_flush_stop resetTime s =
     (let s' = s\<lparr>m_isFlushOngoing := False\<rparr>
      in if resetTime then post_message (Reset_Time 0) s' else s')"

text \<open>
  The rest of \<open>rialto_mse_base_sink_chain\<close> once the thread holds the mutex and does not wait (any
  more). \<open>sample_new\<close> is \<open>gst_sample_new\<close>, which may return null.
\<close>

definition chain_finish ::
  "(gst_buffer \<Rightarrow> gst_structure option \<Rightarrow> gst_segment \<Rightarrow> gst_sample option) \<Rightarrow> gst_buffer \<Rightarrow> base_sink \<Rightarrow>
   base_sink \<times> gst_flow_return" where
  "chain_finish sample_new buf s =
     (let s' = s\<lparr>chain_thread := Chain_Idle\<rparr>
      in if m_isFlushOngoing s' then (s', GST_FLOW_FLUSHING)
         else (case sample_new buf (m_caps s') (m_lastSegment s') of
                 Some sample \<Rightarrow> (s'\<lparr>m_samples := m_samples s' @ [sample]\<rparr>, GST_FLOW_OK)
               | None \<Rightarrow> (s', GST_FLOW_OK)))"

text \<open>
  The call of \<open>rialto_mse_base_sink_chain\<close> up to its return or its wait (\<open>None\<close>: it waits). The
  code waits once, without a predicate: \<open>chain_resume\<close> goes on after the notification whatever the
  queue looks like.
\<close>

definition rialto_mse_base_sink_chain ::
  "(gst_buffer \<Rightarrow> gst_structure option \<Rightarrow> gst_segment \<Rightarrow> gst_sample option) \<Rightarrow> gst_buffer \<Rightarrow> base_sink \<Rightarrow>
   base_sink \<times> gst_flow_return option" where
  "rialto_mse_base_sink_chain sample_new buf s =
     (if MAX_INTERNAL_BUFFERS_QUEUE_SIZE \<le> length (m_samples s)
      then (s\<lparr>chain_thread := Chain_Waiting buf\<rparr>, None)
      else apsnd Some (chain_finish sample_new buf s))"

definition chain_resume ::
  "(gst_buffer \<Rightarrow> gst_structure option \<Rightarrow> gst_segment \<Rightarrow> gst_sample option) \<Rightarrow> base_sink \<Rightarrow>
   base_sink \<times> gst_flow_return option" where
  "chain_resume sample_new s =
     (case chain_thread s of
        Chain_Woken buf \<Rightarrow> apsnd Some (chain_finish sample_new buf s)
      | _ \<Rightarrow> (s, None))"

definition rialto_mse_base_sink_get_front_sample :: "base_sink \<Rightarrow> gst_sample option" where
  "rialto_mse_base_sink_get_front_sample s =
     (if m_samples s \<noteq> [] then Some (hd (m_samples s)) else None)"

definition rialto_mse_base_sink_pop_sample :: "base_sink \<Rightarrow> base_sink" where
  "rialto_mse_base_sink_pop_sample s =
     (let s' = notify_need_data s
      in if m_samples s' \<noteq> [] then s'\<lparr>m_samples := tl (m_samples s')\<rparr> else s')"

definition rialto_mse_base_sink_is_eos :: "base_sink \<Rightarrow> bool" where
  "rialto_mse_base_sink_is_eos s \<longleftrightarrow> m_samples s = [] \<and> m_isEos s"

section \<open>Notifications from the server\<close>

definition rialto_mse_base_handle_rialto_server_state_changed ::
  "playback_state \<Rightarrow> base_sink \<Rightarrow> base_sink" where
  "rialto_mse_base_handle_rialto_server_state_changed state s =
     (if cb_stateChanged s then rialto_mse_base_sink_rialto_state_changed_handler state s else s)"

definition rialto_mse_base_handle_rialto_server_eos :: "base_sink \<Rightarrow> base_sink" where
  "rialto_mse_base_handle_rialto_server_eos s =
     (if cb_eos s then rialto_mse_base_sink_eos_handler s else s)"

definition rialto_mse_base_handle_rialto_server_completed_seek :: "base_sink \<Rightarrow> base_sink" where
  "rialto_mse_base_handle_rialto_server_completed_seek s =
     (if cb_seekCompleted s then rialto_mse_base_sink_seek_completed_handler s else s)"

text \<open>The QoS callbacks of the audio and the video sink differ in the format only.\<close>

definition rialto_mse_audio_sink_qos_handle :: "u64 \<Rightarrow> u64 \<Rightarrow> base_sink \<Rightarrow> base_sink" where
  "rialto_mse_audio_sink_qos_handle processed dropped s =
     post_message (Qos_Stats FORMAT_DEFAULT processed dropped) s"

definition rialto_mse_video_sink_qos_handle :: "u64 \<Rightarrow> u64 \<Rightarrow> base_sink \<Rightarrow> base_sink" where
  "rialto_mse_video_sink_qos_handle processed dropped s =
     post_message (Qos_Stats FORMAT_BUFFERS processed dropped) s"

definition rialto_mse_base_handle_rialto_server_sent_qos :: "u64 \<Rightarrow> u64 \<Rightarrow> base_sink \<Rightarrow> base_sink" where
  "rialto_mse_base_handle_rialto_server_sent_qos processed dropped s =
     (case cb_qos s of
        None \<Rightarrow> s
      | Some FORMAT_DEFAULT \<Rightarrow> rialto_mse_audio_sink_qos_handle processed dropped s
      | Some FORMAT_BUFFERS \<Rightarrow> rialto_mse_video_sink_qos_handle processed dropped s)"

definition rialto_mse_base_handle_rialto_server_error :: "base_sink \<Rightarrow> base_sink" where
  "rialto_mse_base_handle_rialto_server_error s =
     (if cb_error s then rialto_mse_base_sink_error_handler ''Rialto server playback failed'' s else s)"

definition rialto_mse_base_handle_rialto_server_sent_buffer_underflow :: "base_sink \<Rightarrow> base_sink" where
  "rialto_mse_base_handle_rialto_server_sent_buffer_underflow s = s\<lparr>sink_signals := sink_signals s + 1\<rparr>"

text \<open>
  \<open>lost_element\<close> is \<open>gst_element_lost_state\<close>, a function of GStreamer on the element.
\<close>

definition rialto_mse_base_sink_lost_state ::
  "(gst_element \<Rightarrow> gst_element) \<Rightarrow> base_sink \<Rightarrow> base_sink" where
  "rialto_mse_base_sink_lost_state lost_element s =
     s\<lparr>m_isStateCommitNeeded := True, element := lost_element (element s)\<rparr>"

section \<open>Pad, parents and caps\<close>

text \<open>
  \<open>has_template\<close>: the element class has a pad template \<open>sink\<close>; \<open>pad_created\<close>:
  \<open>gst_pad_new_from_template\<close> returns a pad.
\<close>

definition rialto_mse_base_sink_initialise_sinkpad :: "bool \<Rightarrow> bool \<Rightarrow> base_sink \<Rightarrow> base_sink \<times> bool" where
  "rialto_mse_base_sink_initialise_sinkpad has_template pad_created s =
     (if \<not> has_template then (s, False)
      else if \<not> pad_created then (s, False)
      else (s\<lparr>m_sinkPad := True\<rparr>, True))"

text \<open>
  \<open>rialto_mse_base_get_oldest_gst_bin_parent\<close> follows \<open>gst_object_get_parent\<close> while the parent is a
  bin. The ancestors of an object, nearest first, each with its \<open>GST_IS_BIN\<close>, are a finite list.
\<close>

fun rialto_mse_base_get_oldest_gst_bin_parent :: "'o \<Rightarrow> ('o \<times> bool) list \<Rightarrow> 'o" where
  "rialto_mse_base_get_oldest_gst_bin_parent e [] = e"
| "rialto_mse_base_get_oldest_gst_bin_parent e ((parent, is_bin) # ancestors) =
     (if is_bin then rialto_mse_base_get_oldest_gst_bin_parent parent ancestors else e)"

definition rialto_mse_base_sink_get_codec_data :: "gst_structure \<Rightarrow> codec_data option" where
  "rialto_mse_base_sink_get_codec_data st =
     (case gst_value st ''codec_data'' of
        None \<Rightarrow> None
      | Some v \<Rightarrow>
         (case gv_buffer v of
            Some buf \<Rightarrow>
              (let mappedBuf = map_buffer buf
               in if mb_ok mappedBuf
                  then Some \<lparr>cd_type = CODEC_BUFFER, cd_bytes = mb_vector mappedBuf\<rparr> else None)
          | None \<Rightarrow>
             (case gv_string v of
                Some str \<Rightarrow> Some \<lparr>cd_type = CODEC_STRING, cd_bytes = string_bytes str\<rparr>
              | None \<Rightarrow> None)))"

definition stringToStreamFormatMap :: "string \<rightharpoonup> stream_format" where
  "stringToStreamFormatMap =
     [''raw'' \<mapsto> FORMAT_RAW, ''avc'' \<mapsto> FORMAT_AVC, ''byte-stream'' \<mapsto> FORMAT_BYTE_STREAM]"

definition rialto_mse_base_sink_get_stream_format :: "gst_structure \<Rightarrow> stream_format" where
  "rialto_mse_base_sink_get_stream_format st =
     (case gst_string st ''stream-format'' of
        None \<Rightarrow> FORMAT_UNDEFINED
      | Some streamFormat \<Rightarrow>
         (case stringToStreamFormatMap streamFormat of
            Some format \<Rightarrow> format
          | None \<Rightarrow> FORMAT_UNDEFINED))"

definition rialto_mse_base_sink_get_segment_alignment :: "gst_structure \<Rightarrow> segment_alignment" where
  "rialto_mse_base_sink_get_segment_alignment st =
     (case gst_string st ''alignment'' of
        None \<Rightarrow> ALIGN_UNDEFINED
      | Some alignment \<Rightarrow>
          if alignment = ''au'' then ALIGN_AU
          else if alignment = ''nal'' then ALIGN_NAL
          else ALIGN_UNDEFINED)"

text \<open>\<open>Some p\<close>: the function returns true and has stored \<open>p\<close> in its reference argument.\<close>

definition rialto_mse_base_sink_get_dv_profile :: "gst_structure \<Rightarrow> u32 option" where
  "rialto_mse_base_sink_get_dv_profile st =
     (case gst_boolean st ''dovi-stream'' of
        Some isDolbyVisionEnabled \<Rightarrow>
          if isDolbyVisionEnabled then gst_uint st ''dv_profile'' else None
      | None \<Rightarrow> None)"

text \<open>
  What the sinks read of the object they attach to: the properties it has. The play flags are
  looked up in GStreamer's \<open>GstPlayFlags\<close> class by name, and are 0 when the class has no such flag.
\<close>

record parent_object =
  par_n_video :: "i32 option"
  par_n_audio :: "i32 option"
  par_flags :: "u32 option"

definition rialto_mse_base_sink_get_gst_play_flag :: "(string \<rightharpoonup> u32) \<Rightarrow> string \<Rightarrow> u32" where
  "rialto_mse_base_sink_get_gst_play_flag play_flags nick =
     (case play_flags nick of Some v \<Rightarrow> v | None \<Rightarrow> 0)"

definition rialto_mse_base_sink_get_n_streams_from_parent ::
  "(string \<rightharpoonup> u32) \<Rightarrow> parent_object \<Rightarrow> (i32 \<times> i32) option" where
  "rialto_mse_base_sink_get_n_streams_from_parent play_flags parent =
     (case (par_n_video parent, par_n_audio parent) of
        (Some n_video, Some n_audio) \<Rightarrow>
          Some (case par_flags parent of
                  None \<Rightarrow> (n_video, n_audio)
                | Some flags \<Rightarrow>
                   (if and flags (rialto_mse_base_sink_get_gst_play_flag play_flags ''video'') \<noteq> 0 then n_video else 0,
                    if and flags (rialto_mse_base_sink_get_gst_play_flag play_flags ''audio'') \<noteq> 0 then n_audio else 0))
      | _ \<Rightarrow> None)"

section \<open>Field effects\<close>

lemma post_message_fields [sink_simps]:
  "m_samples (post_message m s) = m_samples s"
  "m_isFlushOngoing (post_message m s) = m_isFlushOngoing s"
  "m_isStateCommitNeeded (post_message m s) = m_isStateCommitNeeded s"
  "m_isEos (post_message m s) = m_isEos s"
  "m_seekWaiting (post_message m s) = m_seekWaiting s"
  "m_sourceId (post_message m s) = m_sourceId s"
  "m_sourceAttached (post_message m s) = m_sourceAttached s"
  "m_lastSegment (post_message m s) = m_lastSegment s"
  "m_caps (post_message m s) = m_caps s"
  "chain_thread (post_message m s) = chain_thread s"
  "el_state (element (post_message m s)) = el_state (element s)"
  "el_next (element (post_message m s)) = el_next (element s)"
  "el_pending (element (post_message m s)) = el_pending (element s)"
  "el_return (element (post_message m s)) = el_return (element s)"
  "el_bus (element (post_message m s)) = el_bus (element s) @ [m]"
  by (simp_all add: post_message_def)

text \<open>The handlers of server notifications.\<close>

lemmas handler_defs =
  rialto_mse_base_sink_eos_handler_def rialto_mse_base_sink_error_handler_def
  rialto_mse_base_sink_rialto_state_changed_handler_def rialto_mse_base_sink_seek_completed_handler_def
  rialto_mse_base_handle_rialto_server_state_changed_def rialto_mse_base_handle_rialto_server_eos_def
  rialto_mse_base_handle_rialto_server_completed_seek_def rialto_mse_base_handle_rialto_server_sent_qos_def
  rialto_mse_base_handle_rialto_server_error_def rialto_mse_base_handle_rialto_server_sent_buffer_underflow_def
  rialto_mse_audio_sink_qos_handle_def rialto_mse_video_sink_qos_handle_def
  rialto_mse_base_async_start_def rialto_mse_base_async_done_def rialto_mse_base_sink_lost_state_def

text \<open>No notification and no state bookkeeping touches the sample queue or the streaming thread.\<close>

definition same_queue :: "base_sink \<Rightarrow> base_sink \<Rightarrow> bool" where
  "same_queue s t \<longleftrightarrow> m_samples t = m_samples s \<and> m_isFlushOngoing t = m_isFlushOngoing s \<and>
     chain_thread t = chain_thread s"

lemma same_queue_refl [simp]: "same_queue s s"
  by (simp add: same_queue_def)

lemma same_queue_handlers [simp]:
  "same_queue s (post_message m s)"
  "same_queue s (rialto_mse_base_async_start s)"
  "same_queue s (rialto_mse_base_async_done s)"
  "same_queue s (rialto_mse_base_sink_lost_state f s)"
  "same_queue s (rialto_mse_base_handle_rialto_server_state_changed st s)"
  "same_queue s (rialto_mse_base_handle_rialto_server_eos s)"
  "same_queue s (rialto_mse_base_handle_rialto_server_completed_seek s)"
  "same_queue s (rialto_mse_base_handle_rialto_server_sent_qos p d s)"
  "same_queue s (rialto_mse_base_handle_rialto_server_error s)"
  "same_queue s (rialto_mse_base_handle_rialto_server_sent_buffer_underflow s)"
  by (auto simp: same_queue_def handler_defs sink_simps Let_def split: option.splits qos_format.splits)

text \<open>Nor the caps and the control client.\<close>

definition same_sink :: "base_sink \<Rightarrow> base_sink \<Rightarrow> bool" where
  "same_sink s t \<longleftrightarrow> same_queue s t \<and> m_controlClient t = m_controlClient s \<and> m_caps t = m_caps s"

lemma same_sink_handlers [simp]:
  "same_sink s (post_message m s)"
  "same_sink s (rialto_mse_base_async_start s)"
  "same_sink s (rialto_mse_base_async_done s)"
  "same_sink s (rialto_mse_base_sink_lost_state f s)"
  "same_sink s (rialto_mse_base_handle_rialto_server_state_changed st s)"
  "same_sink s (rialto_mse_base_handle_rialto_server_eos s)"
  "same_sink s (rialto_mse_base_handle_rialto_server_completed_seek s)"
  "same_sink s (rialto_mse_base_handle_rialto_server_sent_qos p d s)"
  "same_sink s (rialto_mse_base_handle_rialto_server_error s)"
  "same_sink s (rialto_mse_base_handle_rialto_server_sent_buffer_underflow s)"
  by (auto simp: same_sink_def same_queue_def handler_defs sink_simps Let_def post_message_def split: option.splits qos_format.splits)

section \<open>The queue as the puller sees it\<close>

text \<open>
  The contract between a sink and the puller of its source: the puller looks at the front sample and pops
  it, and learns that nothing more will come. What the puller has taken is a prefix of what was queued.
\<close>

locale sample_source =
  fixes samples :: "'s \<Rightarrow> 'x list" and front :: "'s \<Rightarrow> 'x option" and pop :: "'s \<Rightarrow> 's" and at_end :: "'s \<Rightarrow> bool"
  assumes front_law: "front s = (case samples s of [] \<Rightarrow> None | x # _ \<Rightarrow> Some x)"
    and pop_law: "samples (pop s) = tl (samples s)"
    and end_law: "at_end s \<Longrightarrow> samples s = []"
    and end_kept: "at_end s \<Longrightarrow> at_end (pop s)"
begin

lemma front_None: "front s = None \<longleftrightarrow> samples s = []"
  by (simp add: front_law split: list.split)

lemma front_Cons: "samples s = x # xs \<Longrightarrow> front s = Some x"
  by (simp add: front_law)

lemma pops: "samples ((pop ^^ n) s) = drop n (samples s)"
  by (induction n) (simp_all add: pop_law drop_Suc tl_drop)

lemma front_after: "front ((pop ^^ n) s) = (if n < length (samples s) then Some (samples s ! n) else None)"
  by (simp add: front_law pops Cons_nth_drop_Suc [symmetric] split: list.split)

lemma taken_prefix: "map (\<lambda>i. front ((pop ^^ i) s)) [0..<n] = map Some (take n (samples s)) @ replicate (n - length (samples s)) None"
  by (rule nth_equalityI) (auto simp: front_after nth_append)

lemma end_stays: "at_end s \<Longrightarrow> front ((pop ^^ n) s) = None"
  by (simp add: front_after end_law)

end

interpretation sink_source: sample_source m_samples rialto_mse_base_sink_get_front_sample rialto_mse_base_sink_pop_sample
  rialto_mse_base_sink_is_eos
  by unfold_locales
    (auto simp: rialto_mse_base_sink_get_front_sample_def rialto_mse_base_sink_pop_sample_def rialto_mse_base_sink_is_eos_def
      notify_need_data_def Let_def split: list.split)

section \<open>The sample queue as a system\<close>

text \<open>
  The states of the queue that the operations can reach, with a ledger: \<open>acc\<close> lists the samples
  that were ever queued, \<open>out\<close> those that left (popped or flushed). The streaming thread enters
  \<open>chain\<close> only when it is idle and goes on only when it has been notified; everything else may run
  in between. \<open>quiet\<close> stands for every operation that leaves the queue alone.
\<close>

inductive sink_reach ::
  "(gst_buffer \<Rightarrow> gst_structure option \<Rightarrow> gst_segment \<Rightarrow> gst_sample option) \<Rightarrow>
   base_sink \<Rightarrow> gst_sample list \<Rightarrow> gst_sample list \<Rightarrow> bool" for sample_new where
  init: "sink_reach sample_new (rialto_mse_base_sink_init c (new_private g)) [] []"
| chain: "sink_reach sample_new s acc out \<Longrightarrow> chain_thread s = Chain_Idle \<Longrightarrow>
    rialto_mse_base_sink_chain sample_new b s = (s', r) \<Longrightarrow> m_samples s' = m_samples s @ added \<Longrightarrow>
    sink_reach sample_new s' (acc @ added) out"
| resume: "sink_reach sample_new s acc out \<Longrightarrow> chain_resume sample_new s = (s', r) \<Longrightarrow>
    m_samples s' = m_samples s @ added \<Longrightarrow> sink_reach sample_new s' (acc @ added) out"
| pop: "sink_reach sample_new s acc out \<Longrightarrow>
    sink_reach sample_new (rialto_mse_base_sink_pop_sample s) acc (out @ take 1 (m_samples s))"
| flush_start: "sink_reach sample_new s acc out \<Longrightarrow>
    sink_reach sample_new (rialto_mse_base_sink_flush_start s) acc
      (out @ (if m_isFlushOngoing s then [] else m_samples s))"
| flush_stop: "sink_reach sample_new s acc out \<Longrightarrow>
    sink_reach sample_new (rialto_mse_base_sink_flush_stop reset s) acc out"
| teardown: "sink_reach sample_new s acc out \<Longrightarrow>
    sink_reach sample_new (clearBuffersUnlocked s) acc (out @ m_samples s)"
| pausing: "sink_reach sample_new s acc out \<Longrightarrow>
    sink_reach sample_new (s\<lparr>m_isFlushOngoing := False\<rparr>) acc out"
| quiet: "sink_reach sample_new s acc out \<Longrightarrow> same_queue s s' \<Longrightarrow> sink_reach sample_new s' acc out"

definition queue_inv :: "base_sink \<Rightarrow> bool" where
  "queue_inv s \<longleftrightarrow> length (m_samples s) \<le> MAX_INTERNAL_BUFFERS_QUEUE_SIZE \<and>
     (m_isFlushOngoing s \<longrightarrow> m_samples s = []) \<and>
     (case chain_thread s of
        Chain_Idle \<Rightarrow> True
      | Chain_Waiting _ \<Rightarrow> \<not> m_isFlushOngoing s \<and> length (m_samples s) = MAX_INTERNAL_BUFFERS_QUEUE_SIZE
      | Chain_Woken _ \<Rightarrow> length (m_samples s) < MAX_INTERNAL_BUFFERS_QUEUE_SIZE)"

text \<open>Every operation of the queue.\<close>

lemmas queue_op_defs =
  rialto_mse_base_sink_chain_def chain_resume_def chain_finish_def rialto_mse_base_sink_pop_sample_def
  rialto_mse_base_sink_flush_start_def rialto_mse_base_sink_flush_stop_def clearBuffersUnlocked_def
  notify_need_data_def

lemma chain_pc_wake: "wake_chain pc = (case pc of Chain_Waiting b \<Rightarrow> Chain_Woken b | _ \<Rightarrow> pc)"
  by (cases pc) simp_all

lemma queue_inv_chain:
  assumes "queue_inv s" "chain_thread s = Chain_Idle" "rialto_mse_base_sink_chain sn b s = (s', r)"
  shows "queue_inv s'"
  using assms by (auto simp: queue_inv_def queue_op_defs Let_def MAX_INTERNAL_BUFFERS_QUEUE_SIZE_def
      split: if_splits option.splits)

lemma queue_inv_resume:
  assumes "queue_inv s" "chain_resume sn s = (s', r)"
  shows "queue_inv s'"
  using assms by (auto simp: queue_inv_def queue_op_defs Let_def split: if_splits option.splits chain_pc.splits)

lemma queue_inv_pop: "queue_inv s \<Longrightarrow> queue_inv (rialto_mse_base_sink_pop_sample s)"
  by (auto simp: queue_inv_def queue_op_defs chain_pc_wake Let_def MAX_INTERNAL_BUFFERS_QUEUE_SIZE_def
      split: chain_pc.splits)

lemma queue_inv_clear: "queue_inv s \<Longrightarrow> queue_inv (clearBuffersUnlocked s)"
  by (auto simp: queue_inv_def queue_op_defs chain_pc_wake MAX_INTERNAL_BUFFERS_QUEUE_SIZE_def
      split: chain_pc.splits)

lemma queue_inv_flush_start: "queue_inv s \<Longrightarrow> queue_inv (rialto_mse_base_sink_flush_start s)"
  by (auto simp: queue_inv_def queue_op_defs chain_pc_wake MAX_INTERNAL_BUFFERS_QUEUE_SIZE_def
      split: chain_pc.splits)

lemma queue_inv_unflush: "queue_inv s \<Longrightarrow> queue_inv (s\<lparr>m_isFlushOngoing := False\<rparr>)"
  by (auto simp: queue_inv_def split: chain_pc.splits)

lemma queue_inv_flush_stop: "queue_inv s \<Longrightarrow> queue_inv (rialto_mse_base_sink_flush_stop r s)"
  by (auto simp: queue_inv_def rialto_mse_base_sink_flush_stop_def Let_def sink_simps split: chain_pc.splits)

lemma queue_inv_quiet: "queue_inv s \<Longrightarrow> same_queue s s' \<Longrightarrow> queue_inv s'"
  by (auto simp: queue_inv_def same_queue_def split: chain_pc.splits)

lemmas queue_inv_ops = queue_inv_chain queue_inv_resume queue_inv_pop queue_inv_clear
  queue_inv_flush_start queue_inv_flush_stop queue_inv_unflush queue_inv_quiet

lemma sink_reach_inv: "sink_reach sn s acc out \<Longrightarrow> queue_inv s"
proof (induction rule: sink_reach.induct)
  case (init c g)
  show ?case by (simp add: queue_inv_def rialto_mse_base_sink_init_def new_private_def)
qed (blast intro: queue_inv_ops)+

lemma pop_samples [sink_simps]:
  "m_samples (rialto_mse_base_sink_pop_sample s) = tl (m_samples s)"
  by (simp add: queue_op_defs Let_def)

lemma pop_fields:
  "m_controlClient (rialto_mse_base_sink_pop_sample s) = m_controlClient s"
  "m_caps (rialto_mse_base_sink_pop_sample s) = m_caps s"
  "chain_thread (rialto_mse_base_sink_pop_sample s) = wake_chain (chain_thread s)"
  by (simp_all add: queue_op_defs Let_def)

lemma sink_reach_ledger: "sink_reach sn s acc out \<Longrightarrow> acc = out @ m_samples s"
proof (induction rule: sink_reach.induct)
  case (init c g)
  show ?case by (simp add: rialto_mse_base_sink_init_def new_private_def)
next
  case (pop s acc out)
  then show ?case by (cases "m_samples s") (simp_all add: sink_simps)
qed (auto simp: queue_op_defs Let_def sink_simps same_queue_def)

text \<open>
  C30. The sample queue of a sink is bounded and keeps its order. In every reachable state at most
  24 samples are queued; the samples ever queued are those that left the queue, in order, followed
  by the queued ones; while a flush is going on the queue is empty; and a streaming thread that is
  blocked in \<open>chain\<close> faces a full queue and no flush, so that there is always something whose removal
  will wake it.
\<close>

theorem sample_queue_bounded_fifo:
  assumes "sink_reach sample_new s acc out"
  shows "length (m_samples s) \<le> 24 \<and> acc = out @ m_samples s \<and>
    (m_isFlushOngoing s \<longrightarrow> m_samples s = []) \<and>
    (chain_thread s = Chain_Waiting b \<longrightarrow> \<not> m_isFlushOngoing s \<and> length (m_samples s) = 24)"
  using sink_reach_inv [OF assms] sink_reach_ledger [OF assms]
  by (auto simp: queue_inv_def MAX_INTERNAL_BUFFERS_QUEUE_SIZE_def)

text \<open>A sink after one buffer has come in.\<close>

definition example_sample_new :: "gst_buffer \<Rightarrow> gst_structure option \<Rightarrow> gst_segment \<Rightarrow> gst_sample option" where
  "example_sample_new b c g = Some \<lparr>sample_buffer = b, sample_structure = c, sample_segment = g\<rparr>"

definition example_sink :: base_sink where
  "example_sink = rialto_mse_base_sink_init (control_construct False (True, RUNNING)) (new_private segment_init)"

lemma example_sink_chain:
  "sink_reach example_sample_new (fst (rialto_mse_base_sink_chain example_sample_new b example_sink))
     [\<lparr>sample_buffer = b, sample_structure = None, sample_segment = segment_init\<rparr>] []"
proof -
  have "sink_reach example_sample_new example_sink [] []"
    unfolding example_sink_def by (rule sink_reach.init)
  from sink_reach.chain [OF this _ surjective_pairing, of _ "[\<lparr>sample_buffer = b, sample_structure = None,
      sample_segment = segment_init\<rparr>]"]
  show ?thesis
    by (simp add: example_sink_def rialto_mse_base_sink_init_def new_private_def queue_op_defs
        example_sample_new_def MAX_INTERNAL_BUFFERS_QUEUE_SIZE_def)
qed

definition example_buffer :: gst_buffer where
  "example_buffer = \<lparr>buf_memory = \<lparr>mem_mappable = True, mem_bytes = [1, 2]\<rparr>, buf_pts = 0,
     buf_duration = 1, buf_protection = None\<rparr>"

theorem sample_queue_bounded_fifo_witness:
  "length (m_samples (fst (rialto_mse_base_sink_chain example_sample_new example_buffer example_sink))) \<le> 24 \<and>
   [\<lparr>sample_buffer = example_buffer, sample_structure = None, sample_segment = segment_init\<rparr>] =
     [] @ m_samples (fst (rialto_mse_base_sink_chain example_sample_new example_buffer example_sink))"
  using sample_queue_bounded_fifo [OF example_sink_chain [of example_buffer]] by blast

text \<open>
  The bound rests on the absence of spurious wake-ups, which a condition variable is allowed: \<open>chain\<close> waits
  without a predicate, so each round in which the waiting thread wakes up without a reason puts one more
  sample into the full queue.
\<close>

fun spurious_rounds ::
  "(gst_buffer \<Rightarrow> gst_structure option \<Rightarrow> gst_segment \<Rightarrow> gst_sample option) \<Rightarrow> gst_buffer \<Rightarrow> nat \<Rightarrow> base_sink \<Rightarrow> base_sink" where
  "spurious_rounds sample_new b 0 s = s"
| "spurious_rounds sample_new b (Suc n) s = spurious_rounds sample_new b n
     (fst (chain_resume sample_new (notify_need_data (fst (rialto_mse_base_sink_chain sample_new b s)))))"

lemma spurious_wakeups_overfill:
  assumes "length (m_samples s) \<ge> MAX_INTERNAL_BUFFERS_QUEUE_SIZE" "\<not> m_isFlushOngoing s"
    and "sample_new b (m_caps s) (m_lastSegment s) = Some x"
  shows "m_samples (spurious_rounds sample_new b n s) = m_samples s @ replicate n x"
  using assms
proof (induction n arbitrary: s)
  case (Suc n)
  let ?s = "fst (chain_resume sample_new (notify_need_data (fst (rialto_mse_base_sink_chain sample_new b s))))"
  have "m_samples ?s = m_samples s @ [x]" "\<not> m_isFlushOngoing ?s" "m_caps ?s = m_caps s" "m_lastSegment ?s = m_lastSegment s"
    using Suc.prems by (simp_all add: queue_op_defs Let_def)
  with Suc.IH [of ?s] Suc.prems show ?case by simp
qed simp

text \<open>
  A blocked streaming thread is released by whatever frees the queue. When it waits in \<open>chain\<close>
  with a buffer, popping a sample wakes it and the call then appends that buffer and returns OK,
  the queue being full again; starting a flush wakes it and the call then drops the buffer and
  returns FLUSHING, the queue being empty.
\<close>

theorem chain_released:
  assumes "sink_reach sample_new s acc out" and "chain_thread s = Chain_Waiting b"
    and "sample_new b (m_caps s) (m_lastSegment s) = Some sample"
  shows "\<exists>s' s''. chain_resume sample_new (rialto_mse_base_sink_pop_sample s) = (s', Some GST_FLOW_OK) \<and>
      m_samples s' = tl (m_samples s) @ [sample] \<and> length (m_samples s') = 24 \<and>
      chain_resume sample_new (rialto_mse_base_sink_flush_start s) = (s'', Some GST_FLOW_FLUSHING) \<and>
      m_samples s'' = [] \<and> chain_thread s' = Chain_Idle \<and> chain_thread s'' = Chain_Idle"
proof -
  have inv: "\<not> m_isFlushOngoing s" "length (m_samples s) = 24"
    using sink_reach_inv [OF assms(1)] assms(2)
    by (simp_all add: queue_inv_def MAX_INTERNAL_BUFFERS_QUEUE_SIZE_def)
  then have "m_samples s \<noteq> []" by auto
  with inv assms(2,3) show ?thesis by (simp add: queue_op_defs Let_def)
qed

text \<open>A full queue with a blocked streaming thread: 25 buffers came into an empty sink.\<close>

definition feed :: "base_sink \<Rightarrow> base_sink" where
  "feed s = fst (rialto_mse_base_sink_chain example_sample_new example_buffer s)"

definition example_queued :: gst_sample where
  "example_queued = \<lparr>sample_buffer = example_buffer, sample_structure = None, sample_segment = segment_init\<rparr>"

lemma feed_open: "length (m_samples s) < 24 \<Longrightarrow> \<not> m_isFlushOngoing s \<Longrightarrow> m_caps s = None \<Longrightarrow>
    m_lastSegment s = segment_init \<Longrightarrow>
    feed s = s\<lparr>chain_thread := Chain_Idle, m_samples := m_samples s @ [example_queued]\<rparr>"
  by (simp add: feed_def queue_op_defs example_sample_new_def Let_def example_queued_def
      MAX_INTERNAL_BUFFERS_QUEUE_SIZE_def)

lemma feed_reach:
  "sink_reach example_sample_new s acc [] \<Longrightarrow> chain_thread s = Chain_Idle \<Longrightarrow>
   m_samples (feed s) = m_samples s @ added \<Longrightarrow> sink_reach example_sample_new (feed s) (acc @ added) []"
  unfolding feed_def by (rule sink_reach.chain [OF _ _ surjective_pairing])

lemma example_sink_fields:
  "chain_thread example_sink = Chain_Idle" "m_samples example_sink = []" "\<not> m_isFlushOngoing example_sink"
  "m_caps example_sink = None" "m_lastSegment example_sink = segment_init"
  "example_sink\<lparr>m_samples := []\<rparr> = example_sink"
  "example_sink\<lparr>chain_thread := Chain_Idle, m_samples := q\<rparr> = example_sink\<lparr>m_samples := q\<rparr>"
  by (simp_all add: example_sink_def rialto_mse_base_sink_init_def new_private_def)

definition queued :: "nat \<Rightarrow> base_sink" where
  "queued n = example_sink\<lparr>m_samples := replicate n example_queued\<rparr>"

lemma feed_queued: "n < 24 \<Longrightarrow> feed (queued n) = queued (Suc n)"
  by (simp add: feed_open queued_def example_sink_fields replicate_append_same)

lemma queued_reach: "n \<le> 24 \<Longrightarrow> sink_reach example_sample_new (queued n) (replicate n example_queued) []"
proof (induction n)
  case 0
  then show ?case using sink_reach.init [of example_sample_new "control_construct False (True, RUNNING)" segment_init]
    by (simp add: queued_def example_sink_fields example_sink_def [symmetric])
next
  case (Suc n)
  then have "sink_reach example_sample_new (queued n) (replicate n example_queued) []" by simp
  moreover have "m_samples (feed (queued n)) = m_samples (queued n) @ [example_queued]"
    "chain_thread (queued n) = Chain_Idle"
    using Suc.prems by (simp_all add: feed_queued) (simp_all add: queued_def example_sink_fields replicate_append_same)
  ultimately have "sink_reach example_sample_new (feed (queued n)) (replicate n example_queued @ [example_queued]) []"
    using feed_reach by blast
  then show ?case using Suc.prems by (simp add: feed_queued replicate_append_same)
qed

definition example_full :: base_sink where
  "example_full = feed (queued 24)"

lemma example_full_facts:
  "example_full = example_sink\<lparr>m_samples := replicate 24 example_queued, chain_thread := Chain_Waiting example_buffer\<rparr>"
  "sink_reach example_sample_new example_full (replicate 24 example_queued) []"
proof -
  show full: "example_full = example_sink\<lparr>m_samples := replicate 24 example_queued, chain_thread := Chain_Waiting example_buffer\<rparr>"
    by (simp add: example_full_def queued_def feed_def rialto_mse_base_sink_chain_def MAX_INTERNAL_BUFFERS_QUEUE_SIZE_def)
  have "m_samples (feed (queued 24)) = m_samples (queued 24) @ []"
    by (simp add: full [unfolded example_full_def]) (simp add: queued_def)
  from feed_reach [OF queued_reach [OF order_refl] _ this]
  show "sink_reach example_sample_new example_full (replicate 24 example_queued) []"
    by (simp add: example_full_def queued_def example_sink_fields)
qed

theorem chain_released_witness:
  "\<exists>s' s''. chain_resume example_sample_new (rialto_mse_base_sink_pop_sample example_full) = (s', Some GST_FLOW_OK) \<and>
     chain_resume example_sample_new (rialto_mse_base_sink_flush_start example_full) = (s'', Some GST_FLOW_FLUSHING) \<and>
     length (m_samples s') = 24 \<and> m_samples s'' = []"
proof -
  have "chain_thread example_full = Chain_Waiting example_buffer"
    "example_sample_new example_buffer (m_caps example_full) (m_lastSegment example_full) =
       Some \<lparr>sample_buffer = example_buffer, sample_structure = m_caps example_full,
         sample_segment = m_lastSegment example_full\<rparr>"
    by (simp_all add: example_full_facts(1) example_sample_new_def)
  from chain_released [OF example_full_facts(2) this] show ?thesis by blast
qed

section \<open>Completion of state changes\<close>

text \<open>
  The element after its pending change has been committed: it is in the state it was going to, has
  announced it, and has ended the asynchronous phase.
\<close>

definition committed :: "gst_element \<Rightarrow> gst_element" where
  "committed e = e\<lparr>el_state := el_next e,
     el_next := (if el_next e = el_pending e then GST_STATE_VOID_PENDING else el_pending e),
     el_pending := GST_STATE_VOID_PENDING, el_return := GST_STATE_CHANGE_SUCCESS,
     el_bus := el_bus e @ [State_Changed (el_state e) (el_next e) (el_pending e), Async_Done]\<rparr>"

text \<open>
  The contract of a sink whose state changes the server completes: a notification that does not match
  a pending change is ignored, one that does commits the element and ends the change.
\<close>

locale async_element =
  fixes elem :: "'s \<Rightarrow> gst_element" and pending :: "'s \<Rightarrow> bool"
    and notified :: "'n \<Rightarrow> 's \<Rightarrow> 's" and reaches :: "'n \<Rightarrow> gst_state \<Rightarrow> bool"
  assumes miss: "\<not> (pending s \<and> reaches n (el_next (elem s))) \<Longrightarrow> notified n s = s"
    and hit_pending: "pending s \<Longrightarrow> reaches n (el_next (elem s)) \<Longrightarrow> \<not> pending (notified n s)"
    and hit_element: "pending s \<Longrightarrow> reaches n (el_next (elem s)) \<Longrightarrow> elem (notified n s) = committed (elem s)"
begin

lemma not_pending: "\<not> pending s \<Longrightarrow> fold notified ns s = s"
  by (induction ns) (simp_all add: miss)

lemma completed_once:
  "let s' = fold notified ns s; hit = pending s \<and> list_ex (\<lambda>n. reaches n (el_next (elem s))) ns
   in pending s' = (pending s \<and> \<not> hit) \<and> (if hit then elem s' = committed (elem s) else s' = s)"
proof (induction ns arbitrary: s)
  case (Cons n ns)
  show ?case
  proof (cases "pending s \<and> reaches n (el_next (elem s))")
    case True
    then have "fold notified (n # ns) s = notified n s" by (simp add: not_pending hit_pending)
    with True show ?thesis by (simp only: Let_def) (simp add: hit_pending hit_element)
  next
    case False
    then have "notified n s = s" by (rule miss)
    moreover have "pending s \<and> list_ex (\<lambda>n. reaches n (el_next (elem s))) (n # ns) \<longleftrightarrow>
        pending s \<and> list_ex (\<lambda>n. reaches n (el_next (elem s))) ns" using False by auto
    ultimately show ?thesis using Cons.IH [of s] by (simp only: fold_Cons comp_apply)
  qed
qed simp

end

text \<open>
  The contract extended by the end of the stream: an element that has come to PAUSED or further posts EOS,
  any other an error. States that the server completes are PAUSED or further.
\<close>

locale ending_element = async_element elem pending notified reaches
  for elem :: "'s \<Rightarrow> gst_element" and pending :: "'s \<Rightarrow> bool"
    and notified :: "'n \<Rightarrow> 's \<Rightarrow> 's" and reaches :: "'n \<Rightarrow> gst_state \<Rightarrow> bool" +
  fixes ended :: "'s \<Rightarrow> 's" and complaint :: string
  assumes ended_element: "elem (ended s) = (elem s)\<lparr>el_bus := el_bus (elem s) @
      [if GST_STATE_PAUSED \<le> el_state (elem s) then Eos_Message else Error_Message complaint]\<rparr>"
    and reaches_far: "reaches n st \<Longrightarrow> GST_STATE_PAUSED \<le> st"
begin

text \<open>An end of stream after the preroll has been completed is never an error.\<close>

lemma ended_after_completion:
  assumes "pending s" "list_ex (\<lambda>n. reaches n (el_next (elem s))) ns"
  shows "last (el_bus (elem (ended (fold notified ns s)))) = Eos_Message"
proof -
  have "elem (fold notified ns s) = committed (elem s)"
    using completed_once [of ns s] assms by (simp add: Let_def)
  moreover have "GST_STATE_PAUSED \<le> el_next (elem s)"
    using assms(2) reaches_far by (auto simp: list_ex_iff)
  ultimately show ?thesis by (simp add: ended_element committed_def)
qed

text \<open>Before it, in a state below PAUSED, it is.\<close>

lemma ended_early:
  "\<not> GST_STATE_PAUSED \<le> el_state (elem s) \<Longrightarrow> last (el_bus (elem (ended s))) = Error_Message complaint"
  by (simp add: ended_element)

end

definition completes :: "playback_state \<Rightarrow> gst_state \<Rightarrow> bool" where
  "completes st nxt \<longleftrightarrow> st = PS_PAUSED \<and> nxt = GST_STATE_PAUSED \<or> st = PS_PLAYING \<and> nxt = GST_STATE_PLAYING"

interpretation mse_async: async_element element m_isStateCommitNeeded
  rialto_mse_base_sink_rialto_state_changed_handler completes
  by unfold_locales
    (auto simp: rialto_mse_base_sink_rialto_state_changed_handler_def completes_def committed_def
      rialto_mse_base_async_done_def post_message_def Let_def)

interpretation mse_ending: ending_element element m_isStateCommitNeeded
  rialto_mse_base_sink_rialto_state_changed_handler completes rialto_mse_base_sink_eos_handler
  "''Rialto sinks received EOS in non-playing state''"
  by unfold_locales
    (auto simp: rialto_mse_base_sink_eos_handler_def post_message_def completes_def paused_or_playing Let_def)

definition async_dones :: "base_sink \<Rightarrow> nat" where
  "async_dones s = length (filter (\<lambda>m. m = Async_Done) (el_bus (element s)))"

text \<open>
  However many state notifications of the server arrive, in whatever order, one pending
  asynchronous state change is completed exactly once: by the first notification that matches the
  element's next state. Then the element is in that state with no change pending and a last return
  of SUCCESS, one ASYNC_DONE has been posted, and no later notification changes the sink. Without
  a matching notification, or without a pending change, the sink is as it was.
\<close>

theorem state_change_completed_once:
  "let s' = fold rialto_mse_base_sink_rialto_state_changed_handler sts s;
       hit = m_isStateCommitNeeded s \<and> list_ex (\<lambda>st. completes st (el_next (element s))) sts
   in async_dones s' = async_dones s + of_bool hit \<and>
      m_isStateCommitNeeded s' = (m_isStateCommitNeeded s \<and> \<not> hit) \<and>
      (if hit then el_state (element s') = el_next (element s) \<and>
         el_pending (element s') = GST_STATE_VOID_PENDING \<and>
         el_return (element s') = GST_STATE_CHANGE_SUCCESS
       else s' = s)"
  using mse_async.completed_once [where ns = sts and s = s]
  by (simp add: Let_def async_dones_def committed_def split: if_splits)

section \<open>Readers of caps\<close>

text \<open>The copy of the codec data reader in the base sink and the one in the buffer parser agree.\<close>

lemma codec_data_readers_agree:
  "rialto_mse_base_sink_get_codec_data = read_codec_data"
  by (rule ext) (simp add: rialto_mse_base_sink_get_codec_data_def read_codec_data_def)

text \<open>
  \<open>rialto_mse_base_get_oldest_gst_bin_parent\<close> returns the last of the unbroken run of bins that
  starts at the element's parent, or the element itself when its parent is no bin (or it has none).
\<close>

theorem oldest_gst_bin_parent_spec:
  "rialto_mse_base_get_oldest_gst_bin_parent e ancestors = last (e # map fst (takeWhile snd ancestors))"
  by (induction e ancestors rule: rialto_mse_base_get_oldest_gst_bin_parent.induct) auto

section \<open>Typed properties\<close>

text \<open>The values the installed parameter specification of a property admits.\<close>

fun prop_typed :: "base_prop \<Rightarrow> prop_value \<Rightarrow> bool" where
  "prop_typed PROP_LOCATION (V_String _) = True"
| "prop_typed PROP_HANDLE_RESET_TIME_MESSAGE (V_Bool _) = True"
| "prop_typed PROP_IS_SINGLE_PATH_STREAM (V_Bool _) = True"
| "prop_typed PROP_N_STREAMS (V_Int n) = (1 \<le> sint n)"
| "prop_typed PROP_HAS_DRM (V_Bool _) = True"
| "prop_typed _ _ = False"

definition sink_typed :: "base_sink \<Rightarrow> bool" where
  "sink_typed s \<longleftrightarrow> list_all (\<lambda>p. case rialto_mse_base_sink_get_property p s of None \<Rightarrow> True | Some v \<Rightarrow> prop_typed p v)
     [PROP_LOCATION, PROP_HANDLE_RESET_TIME_MESSAGE, PROP_IS_SINGLE_PATH_STREAM, PROP_N_STREAMS, PROP_HAS_DRM, PROP_INVALID]"

lemma sink_typed_iff: "sink_typed s \<longleftrightarrow> 1 \<le> sint (m_numOfStreams s)"
  by (simp add: sink_typed_def)

lemma set_then_get:
  assumes "prop_typed p v"
  shows "yields (\<lambda>s'. rialto_mse_base_sink_get_property q s' =
      (if q = p then Some v else rialto_mse_base_sink_get_property q s)) (rialto_mse_base_sink_set_property p v s)"
  using assms by (cases p; cases v; simp; cases q; simp)

lemma set_keeps_typed: "prop_typed p v \<Longrightarrow> sink_typed s \<Longrightarrow> yields sink_typed (rialto_mse_base_sink_set_property p v s)"
  by (cases p; cases v; simp add: sink_typed_iff)

text \<open>
  The properties of a sink are typed and independent. A new sink has values of the declared types,
  with at least one stream, for all its properties. Setting a property to a value its specification
  admits succeeds, keeps that invariant, is read back, and changes no other property.
\<close>

theorem base_properties_typed:
  "sink_typed (rialto_mse_base_sink_init ctl (new_private g)) \<and>
   (sink_typed s \<and> prop_typed p v \<longrightarrow>
      yields (\<lambda>s'. sink_typed s' \<and> rialto_mse_base_sink_get_property p s' = Some v \<and>
          (\<forall>q. q \<noteq> p \<longrightarrow> rialto_mse_base_sink_get_property q s' = rialto_mse_base_sink_get_property q s))
        (rialto_mse_base_sink_set_property p v s))"
proof (intro conjI impI)
  show "sink_typed (rialto_mse_base_sink_init ctl (new_private g))"
    by (simp add: sink_typed_iff rialto_mse_base_sink_init_def new_private_def)
  assume a: "sink_typed s \<and> prop_typed p v"
  then obtain s' where s': "rialto_mse_base_sink_set_property p v s = Inr s'" "sink_typed s'"
    using set_keeps_typed [of p v s] by (blast elim: yieldsE)
  then show "yields (\<lambda>s'. sink_typed s' \<and> rialto_mse_base_sink_get_property p s' = Some v \<and>
          (\<forall>q. q \<noteq> p \<longrightarrow> rialto_mse_base_sink_get_property q s' = rialto_mse_base_sink_get_property q s))
        (rialto_mse_base_sink_set_property p v s)"
    using set_then_get [of p v _ s] a by simp
qed

theorem base_properties_typed_witness:
  "yields (\<lambda>s'. rialto_mse_base_sink_get_property PROP_N_STREAMS s' = Some (V_Int 2) \<and>
       rialto_mse_base_sink_get_property PROP_HAS_DRM s' = Some (V_Bool True))
     (rialto_mse_base_sink_set_property PROP_N_STREAMS (V_Int 2) (new_private segment_init))"
proof -
  have "rialto_mse_base_sink_get_property PROP_HAS_DRM (new_private segment_init) = Some (V_Bool True)"
    "sink_typed (new_private segment_init)" "prop_typed PROP_N_STREAMS (V_Int 2)"
    by (simp_all add: sink_typed_iff new_private_def)
  with base_properties_typed [of undefined undefined "new_private segment_init" PROP_N_STREAMS "V_Int 2"]
  show ?thesis by (auto elim: yields_mono)
qed

end
