(* ===== verification/Client_Backend.thy ===== *)
theory Client_Backend
  imports Base_Sink
begin

text \<open>
  \<open>MediaPlayerClientBackend.h\<close>: the owner of the Rialto media pipeline, which forwards every call to
  it. The pipeline (\<open>firebolt::rialto::IMediaPipeline\<close>) is not in the repository. It is a parameter
  \<open>ora\<close>: what it answers to a call, given the calls it has received before. The state of a
  pipeline is that list of calls, so a theorem about all \<open>ora\<close> is one about every behaviour of the
  pipeline and of the server behind it.
\<close>

section \<open>Media sources\<close>

record audio_config =
  ac_channels :: u32
  ac_sampleRate :: u32
  ac_codecSpecificConfig :: "u8 list"

datatype media_source =
  MediaSourceAudio string bool audio_config segment_alignment stream_format "codec_data option"
| MediaSourceVideo string bool i32 i32 segment_alignment stream_format "codec_data option"
| MediaSourceVideoDolbyVision string u32 bool i32 i32 segment_alignment stream_format "codec_data option"
| MediaSourceOther

fun getType :: "media_source \<Rightarrow> media_source_type" where
  "getType (MediaSourceAudio _ _ _ _ _ _) = TYPE_AUDIO"
| "getType (MediaSourceVideo _ _ _ _ _ _ _) = TYPE_VIDEO"
| "getType (MediaSourceVideoDolbyVision _ _ _ _ _ _ _ _) = TYPE_VIDEO"
| "getType MediaSourceOther = TYPE_UNKNOWN"

section \<open>The pipeline\<close>

datatype pipeline_call =
  Create_Pipeline u32 u32
| Load_Url string string
| Attach_Source media_source
| Remove_Source i32
| All_Sources_Attached
| Play_Call | Pause_Call | Stop_Call
| Have_Data media_source_status u32
| Set_Position i64
| Set_Playback_Rate double_bits
| Set_Video_Window u32 u32 u32 u32
| Add_Segment u32 media_segment
| Get_Position
| Render_Frame
| Set_Volume double_bits | Get_Volume
| Set_Mute bool | Get_Mute

text \<open>
  The boolean result of a call and what it stores in its reference arguments: a position, a volume,
  a mute flag, the id \<open>attachSource\<close> gives the source, the status of \<open>addSegment\<close>.
\<close>

record pipeline_answer =
  ans_ok :: bool
  ans_int :: i64
  ans_double :: double_bits
  ans_bool :: bool
  ans_id :: i32
  ans_status :: add_segment_status

type_synonym pipeline = "pipeline_call list \<Rightarrow> pipeline_call \<Rightarrow> pipeline_answer"

section \<open>MediaPlayerClientBackend\<close>

text \<open>\<open>m_mediaPlayerBackend\<close>: no pipeline, or one with the calls made on it.\<close>

record client_backend =
  m_mediaPlayerBackend :: "pipeline_call list option"

definition new_client_backend :: client_backend where
  "new_client_backend = \<lparr>m_mediaPlayerBackend = None\<rparr>"

text \<open>\<open>created\<close>: the factory returned a pipeline.\<close>

definition createMediaPlayerBackend :: "bool \<Rightarrow> u32 \<Rightarrow> u32 \<Rightarrow> client_backend \<Rightarrow> client_backend" where
  "createMediaPlayerBackend created maxWidth maxHeight cb =
     cb\<lparr>m_mediaPlayerBackend := (if created then Some [Create_Pipeline maxWidth maxHeight] else None)\<rparr>"

definition isMediaPlayerBackendCreated :: "client_backend \<Rightarrow> bool" where
  "isMediaPlayerBackendCreated cb \<longleftrightarrow> m_mediaPlayerBackend cb \<noteq> None"

text \<open>
  Every other method of the class forwards its call to the pipeline and returns the answer. Without
  a pipeline it dereferences a null pointer.
\<close>

definition forward :: "pipeline \<Rightarrow> pipeline_call \<Rightarrow> client_backend \<Rightarrow> (client_backend \<times> pipeline_answer) result" where
  "forward ora c cb =
     (case m_mediaPlayerBackend cb of
        None \<Rightarrow> Inl Null_Deref
      | Some calls \<Rightarrow> Inr (cb\<lparr>m_mediaPlayerBackend := Some (calls @ [c])\<rparr>, ora calls c))"

end
