(* ===== verification/Event_System.thy ===== *)
theory Event_System
  imports Rialto_Prelude
begin

text \<open>
  The interface between a system of the development and what is proved of its runs. A system has a step
  for each action, which may fault, and runs a list of actions; an invariant that every step keeps holds
  after every run. The systems are the client (\<open>Mse_Client\<close>), the managers (\<open>Player_Manager\<close>), the sinks
  (\<open>Sink_System\<close>), and the two models of the data path (\<open>Data_Path\<close>, \<open>Pull_Steps\<close>); each interprets one
  of the locales on its own step function.
\<close>

section \<open>Runs\<close>

locale event_system =
  fixes step :: "'a \<Rightarrow> 's \<Rightarrow> 's result" and run :: "'a list \<Rightarrow> 's \<Rightarrow> 's result"
  assumes run_Nil: "run [] s = Inr s"
    and run_Cons: "run (a # as) s = bind_result (step a s) (run as)"
begin

lemma run_append: "run (as @ bs) s = bind_result (run as s) (run bs)"
  by (induction as arbitrary: s) (simp_all add: run_Nil run_Cons bind_result_def split: sum.splits)

lemma run_snoc: "run (as @ [a]) s = bind_result (run as s) (step a)"
  by (cases "run as s") (simp_all add: run_append run_Cons run_Nil bind_result_def split: sum.splits)

lemma run_prefix:
  assumes "run (as @ bs) s = Inr t"
  obtains u where "run as s = Inr u" "run bs u = Inr t"
  using assms by (auto simp: run_append bind_result_Inr)

text \<open>A run is undisturbed by steps that change nothing but what \<open>view\<close> does not show.\<close>

lemma run_unseen:
  assumes "list_all P as"
    and "\<And>a s. P a \<Longrightarrow> Q (view s) \<Longrightarrow> \<exists>s'. step a s = Inr s' \<and> view s' = view s"
  shows "Q (view s) \<Longrightarrow> \<exists>s'. run as s = Inr s' \<and> view s' = view s"
  using assms(1)
proof (induction as arbitrary: s)
  case (Cons a as)
  then obtain s1 where s1: "step a s = Inr s1" "view s1 = view s" using assms(2) [of a s] by auto
  from Cons.IH [of s1] Cons.prems s1 show ?case by (auto simp: run_Cons)
qed (simp add: run_Nil)

end

section \<open>Invariants\<close>

text \<open>
  \<open>ok\<close> restricts the actions, \<open>guard\<close> when they may come. The invariant may have a grade that the actions
  change, such as whether there has been a flush or how many steps are left.
\<close>

fun allowed :: "('a \<Rightarrow> 's \<Rightarrow> 's result) \<Rightarrow> ('a \<Rightarrow> 's \<Rightarrow> bool) \<Rightarrow> 'a list \<Rightarrow> 's \<Rightarrow> bool" where
  "allowed step guard [] s = True"
| "allowed step guard (a # as) s \<longleftrightarrow>
     guard a s \<and> (case step a s of Inl _ \<Rightarrow> True | Inr s' \<Rightarrow> allowed step guard as s')"

locale guarded_system = event_system step run
  for step :: "'a \<Rightarrow> 's \<Rightarrow> 's result" and run :: "'a list \<Rightarrow> 's \<Rightarrow> 's result" +
  fixes ok :: "'a \<Rightarrow> bool" and guard :: "'a \<Rightarrow> 's \<Rightarrow> bool"
    and grade :: "'a \<Rightarrow> 'g \<Rightarrow> 'g" and inv :: "'g \<Rightarrow> 's \<Rightarrow> bool"
  assumes kept: "inv g s \<Longrightarrow> ok a \<Longrightarrow> guard a s \<Longrightarrow> yields (inv (grade a g)) (step a s)"
begin

lemma run_kept:
  "inv g s \<Longrightarrow> list_all ok as \<Longrightarrow> allowed step guard as s \<Longrightarrow> yields (inv (fold grade as g)) (run as s)"
proof (induction as arbitrary: s g)
  case (Cons a as)
  then have "ok a" "guard a s" by simp_all
  from yieldsE [OF kept [OF Cons.prems(1) this]] obtain s' where s': "step a s = Inr s'" "inv (grade a g) s'" by blast
  with Cons.prems(2,3) Cons.IH [OF s'(2)] show ?case by (simp add: run_Cons)
qed (simp add: run_Nil)

end

text \<open>The plain case: no guard and no grade.\<close>

locale safe_system = event_system step run
  for step :: "'a \<Rightarrow> 's \<Rightarrow> 's result" and run :: "'a list \<Rightarrow> 's \<Rightarrow> 's result" +
  fixes ok :: "'a \<Rightarrow> bool" and inv :: "'s \<Rightarrow> bool"
  assumes keeps: "inv s \<Longrightarrow> ok a \<Longrightarrow> yields inv (step a s)"

sublocale safe_system \<subseteq> plain: guarded_system step run ok "\<lambda>_ _. True" "\<lambda>_ g. g" "\<lambda>_ :: unit. inv"
  by unfold_locales (simp add: keeps)

lemma allowed_always [simp]: "allowed step (\<lambda>_ _. True) as s"
  by (induction as arbitrary: s) (simp_all split: sum.splits)

context safe_system
begin

lemma run_safe: "inv s \<Longrightarrow> list_all ok as \<Longrightarrow> yields inv (run as s)"
  using plain.run_kept by simp

lemma run_invariant: "inv s \<Longrightarrow> list_all ok as \<Longrightarrow> run as s = Inr t \<Longrightarrow> inv t"
  using run_safe [of s as] by simp

end

section \<open>Refinement\<close>

text \<open>
  A system refines an abstract machine when each step amounts, in the abstraction of its state, to the
  abstract events it stands for (none for a step that the machine does not see).
\<close>

fun trace :: "('a \<Rightarrow> 's \<Rightarrow> 's result) \<Rightarrow> ('a \<Rightarrow> 's \<Rightarrow> 'e list) \<Rightarrow> 'a list \<Rightarrow> 's \<Rightarrow> 'e list" where
  "trace step events [] s = []"
| "trace step events (a # as) s =
     events a s @ (case step a s of Inl _ \<Rightarrow> [] | Inr s' \<Rightarrow> trace step events as s')"

locale refining_system = safe_system step run ok inv
  for step :: "'a \<Rightarrow> 's \<Rightarrow> 's result" and run :: "'a list \<Rightarrow> 's \<Rightarrow> 's result"
    and ok :: "'a \<Rightarrow> bool" and inv :: "'s \<Rightarrow> bool" +
  fixes abs :: "'s \<Rightarrow> 't" and events :: "'a \<Rightarrow> 's \<Rightarrow> 'e list" and act :: "'e \<Rightarrow> 't \<Rightarrow> 't"
  assumes simulates: "inv s \<Longrightarrow> ok a \<Longrightarrow> step a s = Inr s' \<Longrightarrow> abs s' = fold act (events a s) (abs s)"
begin

lemma run_refines:
  "inv s \<Longrightarrow> list_all ok as \<Longrightarrow>
   yields (\<lambda>s'. inv s' \<and> abs s' = fold act (trace step events as s) (abs s)) (run as s)"
proof (induction as arbitrary: s)
  case (Cons a as)
  then have ok: "ok a" "list_all ok as" by simp_all
  from yieldsE [OF keeps [OF Cons.prems(1) ok(1)]] obtain s' where s': "step a s = Inr s'" "inv s'" by blast
  from Cons.IH [OF s'(2) ok(2)] simulates [OF Cons.prems(1) ok(1) s'(1)] s'(1) show ?case by (simp add: run_Cons)
qed (simp add: run_Nil)

lemma trace_append:
  "run as s = Inr s' \<Longrightarrow> trace step events (as @ bs) s = trace step events as s @ trace step events bs s'"
  by (induction as arbitrary: s) (auto simp: run_Nil run_Cons bind_result_Inr)

end

end
