(* ===== verification/Mse_Client.thy ===== *)
theory Mse_Client
  imports Client_Backend Message_Queue Event_System
begin

text \<open>
  \<open>GStreamerMSEMediaPlayerClient.h\<close> and \<open>.cpp\<close>: the media player client shared by the sinks of one
  pipeline, its buffer pullers, and the messages of their event loops. The state is the client
  together with the sinks it serves, which its handlers notify. Both kinds of event loop are the
  sequential queue of \<open>Message_Queue\<close>.

  A body given to \<open>callInEventLoop\<close> is one atomic step (only the worker runs bodies) and is run when
  the queue is running; on the worker itself it is run directly. The parameters: \<open>ora\<close> is the Rialto
  pipeline (\<open>Client_Backend\<close>), \<open>lost\<close> is \<open>gst_element_lost_state\<close>, \<open>undef\<close> is Rialto's
  \<open>kUndefinedSize\<close>.
\<close>

section \<open>State\<close>

datatype seeking_state = IDLE | SEEKING | SEEK_DONE

datatype pull_message = Pull_Buffer_Message i32 u64 u32

record buffer_puller =
  bp_queue :: "pull_message squeue"
  bp_sink :: nat
  bp_parser :: parser_kind

record attached_source =
  as_rialtoSink :: nat
  as_bufferPuller :: buffer_puller
  as_seekingState :: seeking_state
  as_type :: media_source_type

datatype backend_message =
  Have_Data_Message media_source_status i32 u32
| Need_Data_Message i32 u64 u32
| Playback_State_Message playback_state
| Qos_Message i32 u64 u64
| Buffer_Underflow_Message i32
| Set_Position_Message i64
| Set_Duration_Message i64

record rectangle =
  rect_x :: u32
  rect_y :: u32
  rect_width :: u32
  rect_height :: u32

record client =
  m_backendQueue :: "backend_message squeue"
  m_clientBackend :: "client_backend option"
  m_position :: i64
  m_duration :: i64
  m_volume :: double_bits
  m_mute :: bool
  m_attachedSources :: "(i32 \<times> attached_source) list"
  m_wasAllSourcesAttachedSent :: bool
  m_audioStreams :: i32
  m_videoStreams :: i32
  m_serverSeekingState :: seeking_state
  m_videoRectangle :: rectangle
  m_streamingStopped :: bool
  m_maxWidth :: u32
  m_maxHeight :: u32

record mse =
  client_of :: client
  sinks :: "nat \<Rightarrow> base_sink"

definition UNKNOWN_STREAMS_NUMBER :: i32 where
  "UNKNOWN_STREAMS_NUMBER = -1"

definition DEFAULT_MAX_VIDEO_WIDTH :: u32 where
  "DEFAULT_MAX_VIDEO_WIDTH = 3840"

definition DEFAULT_MAX_VIDEO_HEIGHT :: u32 where
  "DEFAULT_MAX_VIDEO_HEIGHT = 2160"

text \<open>The constructor, which also starts the backend queue.\<close>

definition new_client :: "client_backend option \<Rightarrow> u32 \<Rightarrow> u32 \<Rightarrow> client" where
  "new_client backend maxVideoWidth maxVideoHeight =
     \<lparr>m_backendQueue = sq_start sq_new, m_clientBackend = backend, m_position = 0, m_duration = 0,
      m_volume = double_one, m_mute = False, m_attachedSources = [],
      m_wasAllSourcesAttachedSent = False, m_audioStreams = UNKNOWN_STREAMS_NUMBER,
      m_videoStreams = UNKNOWN_STREAMS_NUMBER, m_serverSeekingState = IDLE,
      m_videoRectangle = \<lparr>rect_x = 0, rect_y = 0, rect_width = 1920, rect_height = 1080\<rparr>,
      m_streamingStopped = False,
      m_maxWidth = (if maxVideoWidth = 0 then DEFAULT_MAX_VIDEO_WIDTH else maxVideoWidth),
      m_maxHeight = (if maxVideoHeight = 0 then DEFAULT_MAX_VIDEO_HEIGHT else maxVideoHeight)\<rparr>"

section \<open>Plumbing\<close>

definition upd_client :: "(client \<Rightarrow> client) \<Rightarrow> mse \<Rightarrow> mse" where
  "upd_client f w = w\<lparr>client_of := f (client_of w)\<rparr>"

definition upd_sink :: "nat \<Rightarrow> (base_sink \<Rightarrow> base_sink) \<Rightarrow> mse \<Rightarrow> mse" where
  "upd_sink k f w = w\<lparr>sinks := (sinks w)(k := f (sinks w k))\<rparr>"

text \<open>A call on \<open>m_clientBackend\<close>, a shared pointer that \<open>destroyClientBackend\<close> makes null.\<close>

definition backend_do :: "pipeline \<Rightarrow> pipeline_call \<Rightarrow> mse \<Rightarrow> (mse \<times> pipeline_answer) result" where
  "backend_do ora c w =
     (case m_clientBackend (client_of w) of
        None \<Rightarrow> Inl Null_Deref
      | Some cb \<Rightarrow> bind_result (forward ora c cb) (\<lambda>(cb', a).
          Inr (upd_client (\<lambda>cl. cl\<lparr>m_clientBackend := Some cb'\<rparr>) w, a)))"

text \<open>\<open>m_backendQueue->postMessage\<close>.\<close>

definition post_backend :: "backend_message \<Rightarrow> mse \<Rightarrow> mse" where
  "post_backend m w = upd_client (\<lambda>cl. cl\<lparr>m_backendQueue := fst (sq_post (m_backendQueue cl) m)\<rparr>) w"

text \<open>
  \<open>callInEventLoop\<close> from another thread: the body is run if the queue is running; otherwise nothing
  happens and the caller's locals keep the values \<open>dflt\<close> they had.
\<close>

definition callInEventLoop :: "'a \<Rightarrow> (mse \<Rightarrow> (mse \<times> 'a) result) \<Rightarrow> mse \<Rightarrow> (mse \<times> 'a) result" where
  "callInEventLoop dflt body w =
     (if sq_running (m_backendQueue (client_of w)) then body w else Inr (w, dflt))"

section \<open>Notifications of the pipeline\<close>

definition notifyDuration :: "i64 \<Rightarrow> mse \<Rightarrow> mse" where
  "notifyDuration d = post_backend (Set_Duration_Message d)"

definition notifyPosition :: "i64 \<Rightarrow> mse \<Rightarrow> mse" where
  "notifyPosition p = post_backend (Set_Position_Message p)"

definition notifyPlaybackState :: "playback_state \<Rightarrow> mse \<Rightarrow> mse" where
  "notifyPlaybackState st = post_backend (Playback_State_Message st)"

definition notifyNeedMediaData :: "i32 \<Rightarrow> u64 \<Rightarrow> u32 \<Rightarrow> mse \<Rightarrow> mse" where
  "notifyNeedMediaData sourceId frameCount needDataRequestId =
     post_backend (Need_Data_Message sourceId frameCount needDataRequestId)"

definition notifyQos :: "i32 \<Rightarrow> u64 \<Rightarrow> u64 \<Rightarrow> mse \<Rightarrow> mse" where
  "notifyQos sourceId processed dropped = post_backend (Qos_Message sourceId processed dropped)"

definition notifyBufferUnderflow :: "i32 \<Rightarrow> mse \<Rightarrow> mse" where
  "notifyBufferUnderflow sourceId = post_backend (Buffer_Underflow_Message sourceId)"

section \<open>Pulling buffers\<close>

definition new_puller :: "nat \<Rightarrow> parser_kind \<Rightarrow> buffer_puller" where
  "new_puller k p = \<lparr>bp_queue = sq_new, bp_sink = k, bp_parser = p\<rparr>"

definition BufferPuller_start :: "buffer_puller \<Rightarrow> buffer_puller" where
  "BufferPuller_start p = p\<lparr>bp_queue := sq_start (bp_queue p)\<rparr>"

definition BufferPuller_requestPullBuffer :: "i32 \<Rightarrow> u64 \<Rightarrow> u32 \<Rightarrow> buffer_puller \<Rightarrow> buffer_puller \<times> bool" where
  "BufferPuller_requestPullBuffer sourceId frameCount needDataRequestId p =
     (let (q, ok) = sq_post (bp_queue p) (Pull_Buffer_Message sourceId frameCount needDataRequestId)
      in (p\<lparr>bp_queue := q\<rparr>, ok))"

definition addSegment :: "pipeline \<Rightarrow> u32 \<Rightarrow> media_segment \<Rightarrow> mse \<Rightarrow> (mse \<times> add_segment_status) result" where
  "addSegment ora needDataRequestId seg w =
     bind_result (backend_do ora (Add_Segment needDataRequestId seg) w) (\<lambda>(w, a). Inr (w, ans_status a))"

text \<open>The parser takes the protection metadata off the buffer of the sample it is given.\<close>

definition set_front_buffer :: "gst_buffer \<Rightarrow> base_sink \<Rightarrow> base_sink" where
  "set_front_buffer b s = s\<lparr>m_samples := (case m_samples s of
     [] \<Rightarrow> [] | x # xs \<Rightarrow> x\<lparr>sample_buffer := b\<rparr> # xs)\<rparr>"

text \<open>
  The loop of \<open>PullBufferMessage::handle\<close>, from the round \<open>frame\<close> on; the result is \<open>isEos\<close> and
  \<open>addedSegments\<close>. \<open>frame\<close> and \<open>addedSegments\<close> are 32-bit and wrap, \<open>m_frameCount\<close> is a 64-bit \<open>size_t\<close>. Every
  round that goes on pops a sample, so the loop ends for any frame count. The parser never returns a null
  segment, so the branch for that is not reached.
\<close>

lemma bind_result_cong [fundef_cong]:
  "r = r' \<Longrightarrow> (\<And>x. r' = Inr x \<Longrightarrow> f x = g x) \<Longrightarrow> bind_result r f = bind_result r' g"
  by (cases r') (simp_all add: bind_result_def)

function pull_loop :: "pipeline \<Rightarrow> i32 \<Rightarrow> parser_kind \<Rightarrow> nat \<Rightarrow> i32 \<Rightarrow> u32 \<Rightarrow> u64 \<Rightarrow> u32 \<Rightarrow> u32 \<Rightarrow> mse \<Rightarrow>
    (mse \<times> bool \<times> u32) result" where
  "pull_loop ora undef parser k sourceId req frameCount frame added w =
     (if \<not> ucast frame < frameCount then Inr (w, False, added)
      else case rialto_mse_base_sink_get_front_sample (sinks w k) of
        None \<Rightarrow> Inr (w, rialto_mse_base_sink_is_eos (sinks w k), added)
      | Some sample \<Rightarrow>
         (if \<not> mem_mappable (buf_memory (sample_buffer sample))
          then pull_loop ora undef parser k sourceId req frameCount (frame + 1) added
                 (upd_sink k rialto_mse_base_sink_pop_sample w)
          else bind_result (parseBuffer parser undef sample sourceId) (\<lambda>(buf', seg).
            bind_result (addSegment ora req seg (upd_sink k (set_front_buffer buf') w)) (\<lambda>(w, status).
              if status = ADD_NO_SPACE then Inr (w, False, added)
              else pull_loop ora undef parser k sourceId req frameCount (frame + 1) (added + 1)
                     (upd_sink k rialto_mse_base_sink_pop_sample w)))))"
  by pat_completeness auto

lemma addSegment_sinks: "addSegment ora req seg w = Inr (w', st) \<Longrightarrow> sinks w' = sinks w"
  by (auto simp: addSegment_def backend_do_def upd_client_def bind_result_def split: sum.splits option.splits)

lemma pop_shortens:
  "rialto_mse_base_sink_get_front_sample s = Some x \<Longrightarrow>
   length (m_samples (rialto_mse_base_sink_pop_sample s)) < length (m_samples s)"
  by (cases "m_samples s") (simp_all add: rialto_mse_base_sink_get_front_sample_def rialto_mse_base_sink_pop_sample_def
      notify_need_data_def Let_def)

lemma set_front_length [simp]: "length (m_samples (set_front_buffer b s)) = length (m_samples s)"
  by (simp add: set_front_buffer_def split: list.split)

lemma set_front_pop:
  assumes "rialto_mse_base_sink_get_front_sample s = Some x"
  shows "length (m_samples (rialto_mse_base_sink_pop_sample (set_front_buffer b s))) < length (m_samples s)"
proof -
  obtain y where "rialto_mse_base_sink_get_front_sample (set_front_buffer b s) = Some y"
    using assms by (cases "m_samples s") (simp_all add: rialto_mse_base_sink_get_front_sample_def set_front_buffer_def)
  from pop_shortens [OF this] show ?thesis by simp
qed

termination pull_loop
  by (relation "measure (\<lambda>(ora, undef, parser, k, sourceId, req, frameCount, frame, added, w). length (m_samples (sinks w k)))")
    (auto simp: upd_sink_def dest!: addSegment_sinks intro: pop_shortens set_front_pop)

declare pull_loop.simps [simp del]

text \<open>
  The same loop by recursion on the rounds that are left. Both agree as long as the counter does not wrap
  within the length of the queue, and a round that finds the queue empty is the last one: with a bounded queue
  the frames that are asked for beyond its length make no difference, and the counter never gets to wrap.
\<close>

fun pull_frames :: "pipeline \<Rightarrow> i32 \<Rightarrow> parser_kind \<Rightarrow> nat \<Rightarrow> i32 \<Rightarrow> u32 \<Rightarrow> nat \<Rightarrow> u32 \<Rightarrow> mse \<Rightarrow>
    (mse \<times> bool \<times> u32) result" where
  "pull_frames ora undef parser k sourceId req 0 added w = Inr (w, False, added)"
| "pull_frames ora undef parser k sourceId req (Suc frames) added w =
     (case rialto_mse_base_sink_get_front_sample (sinks w k) of
        None \<Rightarrow> Inr (w, rialto_mse_base_sink_is_eos (sinks w k), added)
      | Some sample \<Rightarrow>
         (if \<not> mem_mappable (buf_memory (sample_buffer sample))
          then pull_frames ora undef parser k sourceId req frames added
                 (upd_sink k rialto_mse_base_sink_pop_sample w)
          else bind_result (parseBuffer parser undef sample sourceId) (\<lambda>(buf', seg).
            bind_result (addSegment ora req seg (upd_sink k (set_front_buffer buf') w)) (\<lambda>(w, status).
              if status = ADD_NO_SPACE then Inr (w, False, added)
              else pull_frames ora undef parser k sourceId req frames (added + 1)
                     (upd_sink k rialto_mse_base_sink_pop_sample w)))))"

lemma unat_wide: "unat (ucast (x :: u32) :: u64) = unat x"
  by transfer (simp add: take_bit_take_bit min_def)

lemma frame_next:
  assumes "ucast frame < (frameCount :: u64)" "unat (frame :: u32) < 2 ^ 32 - 1"
  shows "unat (frame + 1) = Suc (unat frame)" "unat frameCount - unat frame = Suc (unat frameCount - unat (frame + 1))"
proof -
  show s: "unat (frame + 1) = Suc (unat frame)" using assms(2) by (simp add: unat_word_ariths)
  have "unat (ucast frame :: u64) = unat frame" by (rule unat_wide)
  with assms(1) s show "unat frameCount - unat frame = Suc (unat frameCount - unat (frame + 1))"
    by (simp add: word_less_nat_alt)
qed

lemma frame_last: "\<not> ucast frame < (frameCount :: u64) \<Longrightarrow> unat frameCount - unat (frame :: u32) = 0"
  by (simp add: word_less_nat_alt unat_wide)

lemma pull_loop_frames:
  assumes "unat frame + length (m_samples (sinks w k)) < 2 ^ 32"
  shows "pull_loop ora undef p k i req frameCount frame added w =
    pull_frames ora undef p k i req (unat frameCount - unat frame) added w"
  using assms
proof (induction "length (m_samples (sinks w k))" arbitrary: frame added w rule: less_induct)
  case less
  note simps = pull_loop.simps [of ora undef p k i req frameCount frame added w]
  show ?case
  proof (cases "ucast frame < frameCount")
    case False
    with frame_last [OF False] show ?thesis by (simp add: simps)
  next
    case True
    have "unat frame < 2 ^ 32 - 1 \<or> m_samples (sinks w k) = []" using less.prems by (cases "m_samples (sinks w k)") auto
    then show ?thesis
    proof
      assume "m_samples (sinks w k) = []"
      moreover obtain m where "unat frameCount - unat frame = Suc m"
        using True by (cases "unat frameCount - unat frame") (simp_all add: word_less_nat_alt unat_wide)
      ultimately show ?thesis using True by (simp add: simps rialto_mse_base_sink_get_front_sample_def)
    next
      assume small: "unat frame < 2 ^ 32 - 1"
      note next_round = frame_next [OF True small]
      have IH: "pull_loop ora undef p k i req frameCount (frame + 1) ad v =
          pull_frames ora undef p k i req (unat frameCount - unat (frame + 1)) ad v"
        if "length (m_samples (sinks v k)) < length (m_samples (sinks w k))" for ad v
        using that less.prems next_round(1) by (intro less.hyps) simp_all
      show ?thesis
        unfolding simps next_round(2) pull_frames.simps using True
        by (auto simp: upd_sink_def split: option.split intro!: bind_result_cong IH pop_shortens set_front_pop dest!: addSegment_sinks)
    qed
  qed
qed

lemma pull_loop_some_frames:
  "\<exists>n. pull_loop ora undef p k i req frameCount frame added w = pull_frames ora undef p k i req n added w"
proof (induction "length (m_samples (sinks w k))" arbitrary: frame added w rule: less_induct)
  case less
  note simps = pull_loop.simps [of ora undef p k i req frameCount frame added w]
  show ?case
  proof (cases "ucast frame < frameCount")
    case False
    then show ?thesis by (intro exI [of _ 0]) (simp add: simps)
  next
    case True
    show ?thesis
    proof (cases "rialto_mse_base_sink_get_front_sample (sinks w k)")
      case None
      with True show ?thesis by (intro exI [of _ 1]) (simp add: simps)
    next
      case (Some x)
      have IH: "\<exists>n. pull_loop ora undef p k i req frameCount (frame + 1) ad v = pull_frames ora undef p k i req n ad v"
        if "length (m_samples (sinks v k)) < length (m_samples (sinks w k))" for ad v
        using that by (intro less.hyps) simp
      show ?thesis
      proof (cases "mem_mappable (buf_memory (sample_buffer x))")
        case False
        have "length (m_samples (sinks (upd_sink k rialto_mse_base_sink_pop_sample w) k)) < length (m_samples (sinks w k))"
          using pop_shortens [OF Some] by (simp add: upd_sink_def)
        from IH [OF this] obtain n where
          "pull_loop ora undef p k i req frameCount (frame + 1) added (upd_sink k rialto_mse_base_sink_pop_sample w) =
             pull_frames ora undef p k i req n added (upd_sink k rialto_mse_base_sink_pop_sample w)" by blast
        with True Some False show ?thesis by (intro exI [of _ "Suc n"]) (simp add: simps)
      next
        case mapped: True
        show ?thesis
        proof (cases "bind_result (parseBuffer p undef x i) (\<lambda>(b, seg). addSegment ora req seg (upd_sink k (set_front_buffer b) w))")
          case (Inl e)
          with True Some mapped show ?thesis
            by (intro exI [of _ 1]) (auto simp: simps bind_result_def split: sum.splits)
        next
          case (Inr y)
          then obtain b seg w2 st where y: "parseBuffer p undef x i = Inr (b, seg)"
            "addSegment ora req seg (upd_sink k (set_front_buffer b) w) = Inr (w2, st)"
            by (cases y) (auto simp: bind_result_Inr)
          have "length (m_samples (sinks (upd_sink k rialto_mse_base_sink_pop_sample w2) k)) < length (m_samples (sinks w k))"
            using set_front_pop [OF Some] addSegment_sinks [OF y(2)] by (simp add: upd_sink_def)
          from IH [OF this] obtain n where
            "pull_loop ora undef p k i req frameCount (frame + 1) (added + 1) (upd_sink k rialto_mse_base_sink_pop_sample w2) =
               pull_frames ora undef p k i req n (added + 1) (upd_sink k rialto_mse_base_sink_pop_sample w2)" by blast
          with True Some mapped y show ?thesis by (intro exI [of _ "Suc n"]) (simp add: simps)
        qed
      qed
    qed
  qed
qed

definition pull_status :: "bool \<Rightarrow> u32 \<Rightarrow> media_source_status" where
  "pull_status isEos added =
     (if isEos then STATUS_EOS else if added = 0 then STATUS_NO_AVAILABLE_SAMPLES else STATUS_OK)"

definition PullBufferMessage_handle ::
  "pipeline \<Rightarrow> i32 \<Rightarrow> nat \<Rightarrow> parser_kind \<Rightarrow> pull_message \<Rightarrow> mse \<Rightarrow> mse result" where
  "PullBufferMessage_handle ora undef k parser m w =
     (case m of Pull_Buffer_Message sourceId frameCount req \<Rightarrow>
        bind_result (pull_loop ora undef parser k sourceId req frameCount 0 0 w) (\<lambda>(w, isEos, added).
          Inr (post_backend (Have_Data_Message (pull_status isEos added) sourceId req) w)))"

text \<open>
  \<open>BufferPuller::stop\<close> of the source \<open>i\<close>: the pending pulls are handled on the puller's thread, then
  the thread is joined.
\<close>

definition set_puller_queue :: "i32 \<Rightarrow> pull_message squeue \<Rightarrow> mse \<Rightarrow> mse" where
  "set_puller_queue i q = upd_client (\<lambda>cl. cl\<lparr>m_attachedSources := assoc_modify i
     (\<lambda>a. a\<lparr>as_bufferPuller := (as_bufferPuller a)\<lparr>bp_queue := q\<rparr>\<rparr>) (m_attachedSources cl)\<rparr>)"

definition BufferPuller_stop :: "pipeline \<Rightarrow> i32 \<Rightarrow> i32 \<Rightarrow> mse \<Rightarrow> mse result" where
  "BufferPuller_stop ora undef i w =
     (case map_of (m_attachedSources (client_of w)) i of
        None \<Rightarrow> Inr w
      | Some a \<Rightarrow>
         (let p = as_bufferPuller a;
              (q, r) = sq_stop (\<lambda>m r. bind_result r (PullBufferMessage_handle ora undef (bp_sink p) (bp_parser p) m))
                         (bp_queue p) (Inr w)
          in bind_result r (\<lambda>w. Inr (set_puller_queue i q w))))"

definition start_puller :: "attached_source \<Rightarrow> attached_source" where
  "start_puller a = a\<lparr>as_bufferPuller := BufferPuller_start (as_bufferPuller a)\<rparr>"

section \<open>Seeking and server states\<close>

text \<open>The body of \<open>startPullingDataIfSeekFinished\<close>, which is only called on the worker.\<close>

definition startPullingDataIfSeekFinished :: "client \<Rightarrow> client" where
  "startPullingDataIfSeekFinished cl =
     (if m_serverSeekingState cl \<noteq> SEEK_DONE then cl
      else if list_ex (\<lambda>(i, a). as_seekingState a \<noteq> SEEKING) (m_attachedSources cl) then cl
      else cl\<lparr>m_serverSeekingState := IDLE,
              m_attachedSources := assoc_map (\<lambda>a. (start_puller a)\<lparr>as_seekingState := IDLE\<rparr>) (m_attachedSources cl)\<rparr>)"

definition set_seeking :: "i32 \<Rightarrow> client \<Rightarrow> client" where
  "set_seeking i cl = cl\<lparr>m_attachedSources :=
     assoc_modify i (\<lambda>a. a\<lparr>as_seekingState := SEEKING\<rparr>) (m_attachedSources cl)\<rparr>"

definition notifySourceStartedSeeking_body :: "pipeline \<Rightarrow> i32 \<Rightarrow> i32 \<Rightarrow> mse \<Rightarrow> mse result" where
  "notifySourceStartedSeeking_body ora undef sourceId w =
     (case map_of (m_attachedSources (client_of w)) sourceId of
        None \<Rightarrow> Inr w
      | Some _ \<Rightarrow>
          bind_result (BufferPuller_stop ora undef sourceId (upd_client (set_seeking sourceId) w)) (\<lambda>w.
            Inr (upd_client startPullingDataIfSeekFinished w)))"

definition unit_body :: "(mse \<Rightarrow> mse result) \<Rightarrow> mse \<Rightarrow> (mse \<times> unit) result" where
  "unit_body f w = bind_result (f w) (\<lambda>w. Inr (w, ()))"

definition notifySourceStartedSeeking :: "pipeline \<Rightarrow> i32 \<Rightarrow> i32 \<Rightarrow> mse \<Rightarrow> (mse \<times> unit) result" where
  "notifySourceStartedSeeking ora undef sourceId =
     callInEventLoop () (unit_body (notifySourceStartedSeeking_body ora undef sourceId))"

definition seek :: "pipeline \<Rightarrow> i64 \<Rightarrow> mse \<Rightarrow> (mse \<times> unit) result" where
  "seek ora seekPosition = callInEventLoop () (\<lambda>w.
     bind_result (backend_do ora (Set_Position seekPosition)
       (upd_client (\<lambda>cl. cl\<lparr>m_serverSeekingState := SEEKING\<rparr>) w)) (\<lambda>(w, _).
       Inr (upd_client (\<lambda>cl. cl\<lparr>m_position := seekPosition\<rparr>) w, ())))"

text \<open>A notification of every attached sink, in the order of the map.\<close>

definition for_sinks :: "(base_sink \<Rightarrow> base_sink) \<Rightarrow> mse \<Rightarrow> mse" where
  "for_sinks f w = fold (\<lambda>(i, a). upd_sink (as_rialtoSink a) f) (m_attachedSources (client_of w)) w"

definition handlePlaybackStateChange :: "playback_state \<Rightarrow> mse \<Rightarrow> mse" where
  "handlePlaybackStateChange state w =
     (case state of
        PS_PAUSED \<Rightarrow> for_sinks (rialto_mse_base_handle_rialto_server_state_changed state) w
      | PS_PLAYING \<Rightarrow> for_sinks (rialto_mse_base_handle_rialto_server_state_changed state) w
      | PS_END_OF_STREAM \<Rightarrow> for_sinks rialto_mse_base_handle_rialto_server_eos w
      | PS_FLUSHED \<Rightarrow>
          (if m_serverSeekingState (client_of w) = SEEKING
           then for_sinks rialto_mse_base_handle_rialto_server_completed_seek
                  (upd_client startPullingDataIfSeekFinished
                    (upd_client (\<lambda>cl. cl\<lparr>m_serverSeekingState := SEEK_DONE\<rparr>) w))
           else w)
      | PS_FAILURE \<Rightarrow>
          (let seeking = m_serverSeekingState (client_of w) = SEEKING;
               w' = for_sinks (\<lambda>s. rialto_mse_base_handle_rialto_server_error
                      (if seeking then rialto_mse_base_handle_rialto_server_completed_seek s else s)) w
           in upd_client (\<lambda>cl. cl\<lparr>m_serverSeekingState := IDLE, m_position := 0\<rparr>) w')
      | PS_OTHER \<Rightarrow> w)"

section \<open>Messages of the backend queue\<close>

definition requestPullBuffer :: "i32 \<Rightarrow> u64 \<Rightarrow> u32 \<Rightarrow> mse \<Rightarrow> mse \<times> bool" where
  "requestPullBuffer streamId frameCount req w =
     (case map_of (m_attachedSources (client_of w)) streamId of
        None \<Rightarrow> (w, False)
      | Some a \<Rightarrow>
         (if m_serverSeekingState (client_of w) \<noteq> IDLE then (w, False)
          else (let (p, ok) = BufferPuller_requestPullBuffer streamId frameCount req (as_bufferPuller a)
                in (set_puller_queue streamId (bp_queue p) w, ok))))"

definition handleQos :: "i32 \<Rightarrow> u64 \<Rightarrow> u64 \<Rightarrow> mse \<Rightarrow> mse \<times> bool" where
  "handleQos sourceId processed dropped w =
     (case map_of (m_attachedSources (client_of w)) sourceId of
        None \<Rightarrow> (w, False)
      | Some a \<Rightarrow>
          (upd_sink (as_rialtoSink a) (rialto_mse_base_handle_rialto_server_sent_qos processed dropped) w, True))"

definition handleBufferUnderflow :: "i32 \<Rightarrow> mse \<Rightarrow> mse \<times> bool" where
  "handleBufferUnderflow sourceId w =
     (case map_of (m_attachedSources (client_of w)) sourceId of
        None \<Rightarrow> (w, False)
      | Some a \<Rightarrow>
          (upd_sink (as_rialtoSink a) rialto_mse_base_handle_rialto_server_sent_buffer_underflow w, True))"

definition NeedDataMessage_handle :: "i32 \<Rightarrow> u64 \<Rightarrow> u32 \<Rightarrow> mse \<Rightarrow> mse" where
  "NeedDataMessage_handle sourceId frameCount req w =
     (let (w', ok) = requestPullBuffer sourceId frameCount req w
      in if \<not> ok then post_backend (Have_Data_Message STATUS_ERROR sourceId req) w' else w')"

definition HaveDataMessage_handle :: "pipeline \<Rightarrow> media_source_status \<Rightarrow> i32 \<Rightarrow> u32 \<Rightarrow> mse \<Rightarrow> mse result" where
  "HaveDataMessage_handle ora status sourceId req w =
     (case map_of (m_attachedSources (client_of w)) sourceId of
        None \<Rightarrow> Inr w
      | Some _ \<Rightarrow> bind_result (backend_do ora (Have_Data status req) w) (\<lambda>(w, _). Inr w))"

fun handle_backend_message :: "pipeline \<Rightarrow> backend_message \<Rightarrow> mse \<Rightarrow> mse result" where
  "handle_backend_message ora (Have_Data_Message st i req) w = HaveDataMessage_handle ora st i req w"
| "handle_backend_message ora (Need_Data_Message i n req) w = Inr (NeedDataMessage_handle i n req w)"
| "handle_backend_message ora (Playback_State_Message st) w = Inr (handlePlaybackStateChange st w)"
| "handle_backend_message ora (Qos_Message i p d) w = Inr (fst (handleQos i p d w))"
| "handle_backend_message ora (Buffer_Underflow_Message i) w = Inr (fst (handleBufferUnderflow i w))"
| "handle_backend_message ora (Set_Position_Message p) w = Inr (upd_client (\<lambda>cl. cl\<lparr>m_position := p\<rparr>) w)"
| "handle_backend_message ora (Set_Duration_Message d) w = Inr (upd_client (\<lambda>cl. cl\<lparr>m_duration := d\<rparr>) w)"

text \<open>One turn of the worker of the backend queue and one of the puller of source \<open>i\<close>.\<close>

definition worker_turn :: "pipeline \<Rightarrow> mse \<Rightarrow> mse result option" where
  "worker_turn ora w =
     (case sq_take (m_backendQueue (client_of w)) of
        None \<Rightarrow> None
      | Some (m, q) \<Rightarrow> Some (handle_backend_message ora m (upd_client (\<lambda>cl. cl\<lparr>m_backendQueue := q\<rparr>) w)))"

definition puller_turn :: "pipeline \<Rightarrow> i32 \<Rightarrow> i32 \<Rightarrow> mse \<Rightarrow> mse result option" where
  "puller_turn ora undef i w =
     (case map_of (m_attachedSources (client_of w)) i of
        None \<Rightarrow> None
      | Some a \<Rightarrow>
         (case sq_take (bp_queue (as_bufferPuller a)) of
            None \<Rightarrow> None
          | Some (m, q) \<Rightarrow> Some (PullBufferMessage_handle ora undef (bp_sink (as_bufferPuller a))
              (bp_parser (as_bufferPuller a)) m (set_puller_queue i q w))))"

section \<open>Stopping\<close>

definition stop_backend_queue :: "pipeline \<Rightarrow> mse \<Rightarrow> mse result" where
  "stop_backend_queue ora w =
     (let (q, r) = sq_stop (\<lambda>m r. bind_result r (handle_backend_message ora m)) (m_backendQueue (client_of w)) (Inr w)
      in bind_result r (\<lambda>w. Inr (upd_client (\<lambda>cl. cl\<lparr>m_backendQueue := q\<rparr>) w)))"

definition stop_all_pullers :: "pipeline \<Rightarrow> i32 \<Rightarrow> mse \<Rightarrow> mse result" where
  "stop_all_pullers ora undef w =
     fold (\<lambda>(i, a) r. bind_result r (BufferPuller_stop ora undef i)) (m_attachedSources (client_of w)) (Inr w)"

definition stopStreaming :: "pipeline \<Rightarrow> i32 \<Rightarrow> mse \<Rightarrow> mse result" where
  "stopStreaming ora undef w =
     (if \<not> m_streamingStopped (client_of w)
      then bind_result (stop_backend_queue ora w) (\<lambda>w.
        bind_result (stop_all_pullers ora undef w) (\<lambda>w.
          Inr (upd_client (\<lambda>cl. cl\<lparr>m_streamingStopped := True\<rparr>) w)))
      else Inr w)"

definition destroyClientBackend :: "mse \<Rightarrow> mse" where
  "destroyClientBackend w = upd_client (\<lambda>cl. cl\<lparr>m_clientBackend := None\<rparr>) w"

section \<open>Attaching and removing sources\<close>

definition count_sources :: "media_source_type \<Rightarrow> client \<Rightarrow> nat" where
  "count_sources t cl = length (filter (\<lambda>(i, a). as_type a = t) (m_attachedSources cl))"

definition areAllStreamsAttached :: "client \<Rightarrow> bool" where
  "areAllStreamsAttached cl \<longleftrightarrow>
     word_of_nat (count_sources TYPE_VIDEO cl) = m_videoStreams cl \<and>
     word_of_nat (count_sources TYPE_AUDIO cl) = m_audioStreams cl"

definition attach_new :: "media_source_type \<Rightarrow> i32 \<Rightarrow> nat \<Rightarrow> mse \<Rightarrow> mse" where
  "attach_new t i k w =
     (let p = new_puller k (if t = TYPE_AUDIO then Audio_Parser else Video_Parser);
          a = \<lparr>as_rialtoSink = k, as_bufferPuller = p, as_seekingState = IDLE, as_type = t\<rparr>
      in (case map_of (m_attachedSources (client_of w)) i of
            Some _ \<Rightarrow> w
          | None \<Rightarrow>
              upd_sink k (\<lambda>s. s\<lparr>m_sourceId := i\<rparr>)
                (upd_client (\<lambda>cl. cl\<lparr>m_attachedSources :=
                   assoc_emplace i (start_puller a) (m_attachedSources cl)\<rparr>) w)))"

definition send_allSourcesAttached :: "pipeline \<Rightarrow> mse \<Rightarrow> mse result" where
  "send_allSourcesAttached ora w =
     (if \<not> m_wasAllSourcesAttachedSent (client_of w) \<and> areAllStreamsAttached (client_of w)
      then bind_result (backend_do ora All_Sources_Attached w) (\<lambda>(w, _).
        Inr (upd_client (\<lambda>cl. cl\<lparr>m_wasAllSourcesAttachedSent := True\<rparr>) w))
      else Inr w)"

definition attachSource :: "pipeline \<Rightarrow> media_source \<Rightarrow> nat \<Rightarrow> mse \<Rightarrow> (mse \<times> bool) result" where
  "attachSource ora source k w =
     (if getType source \<noteq> TYPE_AUDIO \<and> getType source \<noteq> TYPE_VIDEO then Inr (w, False)
      else callInEventLoop False (\<lambda>w.
        bind_result (backend_do ora (Attach_Source source) w) (\<lambda>(w, a).
        bind_result (send_allSourcesAttached ora
          (if ans_ok a then attach_new (getType source) (ans_id a) k w else w)) (\<lambda>w.
          Inr (w, ans_ok a)))) w)"

text \<open>
  Erasing an attached source destroys its puller, whose queue is stopped by its destructor.
\<close>

definition removeSource :: "pipeline \<Rightarrow> i32 \<Rightarrow> i32 \<Rightarrow> mse \<Rightarrow> (mse \<times> unit) result" where
  "removeSource ora undef sourceId = callInEventLoop () (\<lambda>w.
     bind_result (backend_do ora (Remove_Source sourceId) w) (\<lambda>(w, _).
     bind_result (BufferPuller_stop ora undef sourceId w) (\<lambda>w.
       Inr (upd_client (\<lambda>cl. cl\<lparr>m_attachedSources := assoc_erase sourceId (m_attachedSources cl)\<rparr>) w, ()))))"

definition setAudioStreamsInfo :: "i32 \<Rightarrow> bool \<Rightarrow> mse \<Rightarrow> (mse \<times> unit) result" where
  "setAudioStreamsInfo audioStreams isAudioOnly = callInEventLoop () (\<lambda>w.
     let cl = client_of w;
         cl = (if m_audioStreams cl = UNKNOWN_STREAMS_NUMBER then cl\<lparr>m_audioStreams := audioStreams\<rparr> else cl);
         cl = (if m_videoStreams cl = UNKNOWN_STREAMS_NUMBER \<and> isAudioOnly then cl\<lparr>m_videoStreams := 0\<rparr> else cl)
     in Inr (w\<lparr>client_of := cl\<rparr>, ()))"

definition setVideoStreamsInfo :: "i32 \<Rightarrow> bool \<Rightarrow> mse \<Rightarrow> (mse \<times> unit) result" where
  "setVideoStreamsInfo videoStreams isVideoOnly = callInEventLoop () (\<lambda>w.
     let cl = client_of w;
         cl = (if m_videoStreams cl = UNKNOWN_STREAMS_NUMBER then cl\<lparr>m_videoStreams := videoStreams\<rparr> else cl);
         cl = (if m_audioStreams cl = UNKNOWN_STREAMS_NUMBER \<and> isVideoOnly then cl\<lparr>m_audioStreams := 0\<rparr> else cl)
     in Inr (w\<lparr>client_of := cl\<rparr>, ()))"

section \<open>Calls that reach the pipeline\<close>

definition simple_call :: "pipeline \<Rightarrow> pipeline_call \<Rightarrow> mse \<Rightarrow> (mse \<times> unit) result" where
  "simple_call ora c = callInEventLoop () (\<lambda>w. bind_result (backend_do ora c w) (\<lambda>(w, _). Inr (w, ())))"

definition play :: "pipeline \<Rightarrow> mse \<Rightarrow> (mse \<times> unit) result" where
  "play ora = simple_call ora Play_Call"

definition pause :: "pipeline \<Rightarrow> mse \<Rightarrow> (mse \<times> unit) result" where
  "pause ora = simple_call ora Pause_Call"

definition stop :: "pipeline \<Rightarrow> mse \<Rightarrow> (mse \<times> unit) result" where
  "stop ora = simple_call ora Stop_Call"

definition setPlaybackRate :: "pipeline \<Rightarrow> double_bits \<Rightarrow> mse \<Rightarrow> (mse \<times> unit) result" where
  "setPlaybackRate ora rate = simple_call ora (Set_Playback_Rate rate)"

definition setVolume :: "pipeline \<Rightarrow> double_bits \<Rightarrow> mse \<Rightarrow> (mse \<times> unit) result" where
  "setVolume ora v = simple_call ora (Set_Volume v)"

definition setMute :: "pipeline \<Rightarrow> bool \<Rightarrow> mse \<Rightarrow> (mse \<times> unit) result" where
  "setMute ora b = simple_call ora (Set_Mute b)"

definition renderFrame :: "pipeline \<Rightarrow> (gst_element \<Rightarrow> gst_element) \<Rightarrow> nat \<Rightarrow> mse \<Rightarrow> (mse \<times> bool) result" where
  "renderFrame ora lost k = callInEventLoop False (\<lambda>w.
     bind_result (backend_do ora Render_Frame w) (\<lambda>(w, a).
       Inr (if ans_ok a then upd_sink k (rialto_mse_base_sink_lost_state lost) w else w, ans_ok a)))"

text \<open>\<open>getPosition\<close> tests the shared pointer first; the local it returns is not initialised.\<close>

definition getPositionDo :: "pipeline \<Rightarrow> mse \<Rightarrow> (mse \<times> i64) result" where
  "getPositionDo ora w =
     (if m_clientBackend (client_of w) \<noteq> None
      then bind_result (backend_do ora Get_Position w) (\<lambda>(w, a).
        if ans_ok a then Inr (upd_client (\<lambda>cl. cl\<lparr>m_position := ans_int a\<rparr>) w, ans_int a)
        else Inr (w, m_position (client_of w)))
      else Inr (w, m_position (client_of w)))"

definition getPosition :: "pipeline \<Rightarrow> i64 \<Rightarrow> mse \<Rightarrow> (mse \<times> i64) result" where
  "getPosition ora garbage = callInEventLoop garbage (getPositionDo ora)"

definition getVolume :: "pipeline \<Rightarrow> mse \<Rightarrow> (mse \<times> double_bits) result" where
  "getVolume ora = callInEventLoop 0 (\<lambda>w.
     bind_result (backend_do ora Get_Volume w) (\<lambda>(w, a).
       if ans_ok a then Inr (upd_client (\<lambda>cl. cl\<lparr>m_volume := ans_double a\<rparr>) w, ans_double a)
       else Inr (w, m_volume (client_of w))))"

definition getMute :: "pipeline \<Rightarrow> mse \<Rightarrow> (mse \<times> bool) result" where
  "getMute ora = callInEventLoop False (\<lambda>w.
     bind_result (backend_do ora Get_Mute w) (\<lambda>(w, a).
       if ans_ok a then Inr (upd_client (\<lambda>cl. cl\<lparr>m_mute := ans_bool a\<rparr>) w, ans_bool a)
       else Inr (w, m_mute (client_of w))))"

text \<open>\<open>created\<close>: the pipeline factory returns a pipeline.\<close>

definition createBackend :: "pipeline \<Rightarrow> bool \<Rightarrow> mse \<Rightarrow> (mse \<times> bool) result" where
  "createBackend ora created = callInEventLoop False (\<lambda>w.
     case m_clientBackend (client_of w) of
       None \<Rightarrow> Inr (w, False)
     | Some cb \<Rightarrow>
        (let cb = createMediaPlayerBackend created (m_maxWidth (client_of w)) (m_maxHeight (client_of w)) cb;
             w = upd_client (\<lambda>cl. cl\<lparr>m_clientBackend := Some cb\<rparr>) w
         in if isMediaPlayerBackendCreated cb
            then bind_result (backend_do ora (Load_Url '''' ''mse://1'') w) (\<lambda>(w, a). Inr (w, ans_ok a))
            else Inr (w, False)))"

section \<open>The client as a system\<close>

text \<open>
  Everything that can happen to a client, as data: notifications of the pipeline, turns of the
  worker and of the pullers, the calls of the sinks, and what other threads do to a sink (its new
  state is arbitrary, but satisfies what every sink satisfies (\<open>sink_ok\<close>).
  \<open>destroyClientBackend\<close> is only called after \<open>stopStreaming\<close>, by the player manager. Calls may
  overtake queued messages here; in the code a call waits for the messages before it.
\<close>

datatype client_event =
  Notify backend_message
| Worker_Turn
| Puller_Turn i32
| Started_Seeking i32
| Seek_To i64
| Attach media_source nat
| Remove i32
| Audio_Info i32 bool
| Video_Info i32 bool
| Simple pipeline_call
| Render nat
| Query_Position i64
| Query_Volume
| Query_Mute
| Stop_Streaming
| Destroy_Backend
| Sink_Changes nat base_sink

fun is_notification :: "backend_message \<Rightarrow> bool" where
  "is_notification (Have_Data_Message _ _ _) = False"
| "is_notification _ = True"

fun is_simple :: "pipeline_call \<Rightarrow> bool" where
  "is_simple Play_Call = True"
| "is_simple Pause_Call = True"
| "is_simple Stop_Call = True"
| "is_simple (Set_Playback_Rate _) = True"
| "is_simple (Set_Volume _) = True"
| "is_simple (Set_Mute _) = True"
| "is_simple _ = False"

definition sample_has_caps :: "gst_sample \<Rightarrow> bool" where
  "sample_has_caps x = (case sample_structure x of None \<Rightarrow> False | Some st \<Rightarrow> gst_name st \<noteq> None)"

text \<open>
  What holds of every sink of the plugin between two of its operations: its queue is in order, its
  samples have caps, its own caps have a name, a buffer waits only after caps were received, and its
  control client is there.
\<close>

definition sink_ok :: "base_sink \<Rightarrow> bool" where
  "sink_ok s \<longleftrightarrow> list_all sample_has_caps (m_samples s) \<and> queue_inv s \<and> m_controlClient s \<noteq> None \<and>
     (m_caps s = None \<longrightarrow> chain_idle (chain_thread s)) \<and> pred_option (\<lambda>st. gst_name st \<noteq> None) (m_caps s)"

definition drop_value :: "(mse \<times> 'a) result \<Rightarrow> mse result" where
  "drop_value r = bind_result r (\<lambda>(w, _). Inr w)"

definition turn :: "mse result option \<Rightarrow> mse \<Rightarrow> mse result" where
  "turn t w = (case t of None \<Rightarrow> Inr w | Some r \<Rightarrow> r)"

fun perform :: "pipeline \<Rightarrow> i32 \<Rightarrow> (gst_element \<Rightarrow> gst_element) \<Rightarrow> client_event \<Rightarrow> mse \<Rightarrow> mse result" where
  "perform ora undef lost (Notify m) w = Inr (if is_notification m then post_backend m w else w)"
| "perform ora undef lost Worker_Turn w = turn (worker_turn ora w) w"
| "perform ora undef lost (Puller_Turn i) w = turn (puller_turn ora undef i w) w"
| "perform ora undef lost (Started_Seeking i) w = drop_value (notifySourceStartedSeeking ora undef i w)"
| "perform ora undef lost (Seek_To p) w = drop_value (seek ora p w)"
| "perform ora undef lost (Attach src k) w = drop_value (attachSource ora src k w)"
| "perform ora undef lost (Remove i) w = drop_value (removeSource ora undef i w)"
| "perform ora undef lost (Audio_Info n b) w = drop_value (setAudioStreamsInfo n b w)"
| "perform ora undef lost (Video_Info n b) w = drop_value (setVideoStreamsInfo n b w)"
| "perform ora undef lost (Simple c) w = (if is_simple c then drop_value (simple_call ora c w) else Inr w)"
| "perform ora undef lost (Render k) w = drop_value (renderFrame ora lost k w)"
| "perform ora undef lost (Query_Position g) w = drop_value (getPosition ora g w)"
| "perform ora undef lost Query_Volume w = drop_value (getVolume ora w)"
| "perform ora undef lost Query_Mute w = drop_value (getMute ora w)"
| "perform ora undef lost Stop_Streaming w = stopStreaming ora undef w"
| "perform ora undef lost Destroy_Backend w =
     Inr (if m_streamingStopped (client_of w) then destroyClientBackend w else w)"
| "perform ora undef lost (Sink_Changes k s) w = Inr (if sink_ok s then upd_sink k (\<lambda>_. s) w else w)"

fun perform_all :: "pipeline \<Rightarrow> i32 \<Rightarrow> (gst_element \<Rightarrow> gst_element) \<Rightarrow> client_event list \<Rightarrow> mse \<Rightarrow> mse result" where
  "perform_all ora undef lost [] w = Inr w"
| "perform_all ora undef lost (ev # evs) w =
     bind_result (perform ora undef lost ev w) (perform_all ora undef lost evs)"

text \<open>A client whose backend has just been created and has loaded.\<close>

definition started :: "u32 \<Rightarrow> u32 \<Rightarrow> (nat \<Rightarrow> base_sink) \<Rightarrow> mse" where
  "started maxW maxH ss =
     \<lparr>client_of = (let cl = new_client None maxW maxH in
        cl\<lparr>m_clientBackend := Some \<lparr>m_mediaPlayerBackend = Some
          [Create_Pipeline (m_maxWidth cl) (m_maxHeight cl), Load_Url '''' ''mse://1'']\<rparr>\<rparr>), sinks = ss\<rparr>"

section \<open>Frames\<close>

lemma upd_simps [simp]:
  "client_of (upd_client f w) = f (client_of w)"
  "sinks (upd_client f w) = sinks w"
  "client_of (upd_sink k g w) = client_of w"
  "sinks (upd_sink k g w) = (sinks w)(k := g (sinks w k))"
  by (simp_all add: upd_client_def upd_sink_def)

text \<open>
  \<open>frame w w'\<close>: the clients differ at most in the pipeline's log and in the messages waiting in the
  backend queue, and a queue that is not running has not grown.
\<close>

definition control :: "client \<Rightarrow> client" where
  "control cl = cl\<lparr>m_clientBackend := None, m_backendQueue := sq_new\<rparr>"

definition frame :: "mse \<Rightarrow> mse \<Rightarrow> bool" where
  "frame w w' \<longleftrightarrow> control (client_of w') = control (client_of w) \<and>
     sq_running (m_backendQueue (client_of w')) = sq_running (m_backendQueue (client_of w)) \<and>
     (\<not> sq_running (m_backendQueue (client_of w)) \<longrightarrow> m_backendQueue (client_of w') = m_backendQueue (client_of w))"

lemma frame_refl [simp]: "frame w w"
  by (simp add: frame_def)

lemma frame_trans: "frame w w' \<Longrightarrow> frame w' w'' \<Longrightarrow> frame w w''"
  by (simp add: frame_def)

lemma frame_backend: "client_of w' = (client_of w)\<lparr>m_clientBackend := cb\<rparr> \<Longrightarrow> frame w w'"
  by (simp add: frame_def control_def)

lemma frame_post: "frame w (post_backend m w)"
  by (simp add: frame_def control_def post_backend_def sq_post_def)

lemma frame_client_eq: "client_of w' = client_of w \<Longrightarrow> frame w w'"
  by (simp add: frame_def)

lemma controlD:
  assumes "control a = control b"
  shows "m_attachedSources a = m_attachedSources b" "m_serverSeekingState a = m_serverSeekingState b"
    "m_streamingStopped a = m_streamingStopped b"
    "m_wasAllSourcesAttachedSent a = m_wasAllSourcesAttachedSent b"
    "m_audioStreams a = m_audioStreams b" "m_videoStreams a = m_videoStreams b"
    "m_position a = m_position b"
  using arg_cong [OF assms, of m_attachedSources] arg_cong [OF assms, of m_serverSeekingState]
    arg_cong [OF assms, of m_streamingStopped] arg_cong [OF assms, of m_wasAllSourcesAttachedSent]
    arg_cong [OF assms, of m_audioStreams] arg_cong [OF assms, of m_videoStreams]
    arg_cong [OF assms, of m_position]
  by (simp_all add: control_def)

lemma frameD:
  assumes "frame w w'"
  shows "m_attachedSources (client_of w') = m_attachedSources (client_of w)"
    "m_serverSeekingState (client_of w') = m_serverSeekingState (client_of w)"
    "m_streamingStopped (client_of w') = m_streamingStopped (client_of w)"
    "m_wasAllSourcesAttachedSent (client_of w') = m_wasAllSourcesAttachedSent (client_of w)"
    "sq_running (m_backendQueue (client_of w')) = sq_running (m_backendQueue (client_of w))"
    "\<not> sq_running (m_backendQueue (client_of w)) \<Longrightarrow> m_backendQueue (client_of w') = m_backendQueue (client_of w)"
  using assms controlD [of "client_of w'" "client_of w"] by (simp_all add: frame_def)

section \<open>No call faults while the backend is alive\<close>

definition backend_ok :: "client \<Rightarrow> bool" where
  "backend_ok cl \<longleftrightarrow> (\<exists>log. m_clientBackend cl = Some \<lparr>m_mediaPlayerBackend = Some log\<rparr> \<and>
     length (filter (\<lambda>c. c = All_Sources_Attached) log) = of_bool (m_wasAllSourcesAttachedSent cl))"

definition capped :: "mse \<Rightarrow> bool" where
  "capped w \<longleftrightarrow> (\<forall>k. sink_ok (sinks w k))"

definition good :: "mse \<Rightarrow> bool" where
  "good w \<longleftrightarrow> backend_ok (client_of w) \<and> capped w"

lemma capped_upd_client [simp]: "capped (upd_client f w) = capped w"
  by (simp add: capped_def)

lemma capped_upd_sink: "capped w \<Longrightarrow> sink_ok (f (sinks w k)) \<Longrightarrow> capped (upd_sink k f w)"
  by (simp add: capped_def)

text \<open>\<open>ok_from w f r\<close>: the result \<open>r\<close> is no fault and holds a good state within the frame of \<open>w\<close>.\<close>

definition ok_from :: "mse \<Rightarrow> ('a \<Rightarrow> mse) \<Rightarrow> 'a result \<Rightarrow> bool" where
  "ok_from w f r \<longleftrightarrow> (case r of Inl _ \<Rightarrow> False | Inr x \<Rightarrow> frame w (f x) \<and> good (f x))"

lemma ok_from_simps [simp]:
  "ok_from w f (Inr x) = (frame w (f x) \<and> good (f x))" "\<not> ok_from w f (Inl e)"
  by (simp_all add: ok_from_def)

lemma ok_from_bind:
  assumes "ok_from w f r" and "\<And>x. r = Inr x \<Longrightarrow> good (f x) \<Longrightarrow> ok_from (f x) g (h x)"
  shows "ok_from w g (bind_result r h)"
proof (cases r)
  case (Inr x)
  with assms have "frame w (f x)" "ok_from (f x) g (h x)" by auto
  with Inr show ?thesis by (cases "h x") (auto intro: frame_trans)
qed (use assms in simp)

lemma ok_from_frame: "ok_from w' g r \<Longrightarrow> frame w w' \<Longrightarrow> ok_from w g r"
  by (cases r) (auto intro: frame_trans)

lemma ok_fromE:
  assumes "ok_from w f r"
  obtains x where "r = Inr x" "frame w (f x)" "good (f x)"
  using assms by (cases r) auto

lemma backend_do_Inr:
  assumes "good w"
  obtains log where "m_clientBackend (client_of w) = Some \<lparr>m_mediaPlayerBackend = Some log\<rparr>"
    "length (filter (\<lambda>c. c = All_Sources_Attached) log) = of_bool (m_wasAllSourcesAttachedSent (client_of w))"
    "\<And>c. backend_do ora c w = Inr (upd_client (\<lambda>cl. cl\<lparr>m_clientBackend :=
       Some \<lparr>m_mediaPlayerBackend = Some (log @ [c])\<rparr>\<rparr>) w, ora log c)"
  using assms by (auto simp: good_def backend_ok_def backend_do_def forward_def)

lemma backend_do_ok:
  assumes "good w" and "c \<noteq> All_Sources_Attached"
  shows "ok_from w fst (backend_do ora c w)"
  using assms(1)
proof (rule backend_do_Inr)
  fix log
  assume "length (filter (\<lambda>c. c = All_Sources_Attached) log) = of_bool (m_wasAllSourcesAttachedSent (client_of w))"
    "backend_do ora c w = Inr (upd_client (\<lambda>cl. cl\<lparr>m_clientBackend :=
       Some \<lparr>m_mediaPlayerBackend = Some (log @ [c])\<rparr>\<rparr>) w, ora log c)" for c
  with assms show ?thesis by (simp add: good_def backend_ok_def frame_backend)
qed

lemma post_backend_good: "good (post_backend m w) = good w"
  by (simp add: good_def post_backend_def backend_ok_def)

lemma good_upd_sink: "good w \<Longrightarrow> sink_ok (f (sinks w k)) \<Longrightarrow> good (upd_sink k f w)"
  by (simp add: good_def capped_upd_sink)

lemma sink_ok_pop: "sink_ok s \<Longrightarrow> sink_ok (rialto_mse_base_sink_pop_sample s)"
  using queue_inv_pop [of s]
  by (cases "m_samples s") (simp_all add: sink_ok_def sink_simps pop_fields)

lemma sink_ok_set_front: "sink_ok s \<Longrightarrow> sink_ok (set_front_buffer b s)"
  by (cases "m_samples s")
    (simp_all add: sink_ok_def set_front_buffer_def sample_has_caps_def queue_inv_def split: chain_pc.splits)

lemma parseBuffer_total:
  assumes "sample_has_caps x"
  shows "\<exists>buf' seg. parseBuffer p undef x i = Inr (buf', seg)"
proof -
  from assms obtain st n where st: "sample_structure x = Some st" "gst_name st = Some n"
    by (auto simp: sample_has_caps_def split: option.splits)
  obtain md where "ProcessProtectionMetadata (Some (sample_buffer x)) new_metadata =
      Inr (Some ((sample_buffer x)\<lparr>buf_protection := None\<rparr>), md)"
    using ProcessProtectionMetadata_total by blast
  with st show ?thesis by (simp add: parseBuffer_def addProtectionMetadataToSegment_def Let_def)
qed

lemma front_has_caps:
  "capped w \<Longrightarrow> rialto_mse_base_sink_get_front_sample (sinks w k) = Some x \<Longrightarrow> sample_has_caps x"
  unfolding capped_def sink_ok_def rialto_mse_base_sink_get_front_sample_def list_all_iff
  by (metis hd_in_set option.distinct(1) option.inject)

lemma good_pop: "good v \<Longrightarrow> good (upd_sink k rialto_mse_base_sink_pop_sample v)"
  by (rule good_upd_sink) (auto simp: good_def capped_def sink_ok_pop)

lemma good_set_front: "good v \<Longrightarrow> good (upd_sink k (set_front_buffer b) v)"
  by (rule good_upd_sink) (auto simp: good_def capped_def sink_ok_set_front)

lemma frame_upd_sink: "frame w (upd_sink k f w)"
  by (rule frame_client_eq) simp

lemma addSegment_ok: "good w \<Longrightarrow> ok_from w fst (addSegment ora req seg w)"
  unfolding addSegment_def by (rule ok_from_bind [OF backend_do_ok]) auto

lemma pull_frames_ok:
  "good w \<Longrightarrow> ok_from w fst (pull_frames ora undef p k i req n added w)"
proof (induction n arbitrary: w added)
  case 0
  then show ?case by simp
next
  case (Suc n)
  have popped: "ok_from v fst (pull_frames ora undef p k i req n ad (upd_sink k rialto_mse_base_sink_pop_sample v))"
    if "good v" for v ad
    by (rule ok_from_frame [OF Suc.IH [OF good_pop [OF that]] frame_upd_sink])
  show ?case
  proof (cases "rialto_mse_base_sink_get_front_sample (sinks w k)")
    case None
    then show ?thesis using Suc.prems by simp
  next
    case (Some x)
    then have "sample_has_caps x" using front_has_caps Suc.prems by (auto simp: good_def)
    then obtain buf' seg where ps: "parseBuffer p undef x i = Inr (buf', seg)"
      using parseBuffer_total by blast
    have "ok_from w fst (bind_result (addSegment ora req seg (upd_sink k (set_front_buffer buf') w))
        (\<lambda>(w, status). if status = ADD_NO_SPACE then Inr (w, False, added)
           else pull_frames ora undef p k i req n (added + 1) (upd_sink k rialto_mse_base_sink_pop_sample w)))"
      by (rule ok_from_bind [OF ok_from_frame [OF addSegment_ok [OF good_set_front [OF Suc.prems]] frame_upd_sink]])
        (auto intro: popped)
    with Some ps popped [OF Suc.prems] show ?thesis by simp
  qed
qed

lemma pull_loop_ok:
  "good w \<Longrightarrow> ok_from w fst (pull_loop ora undef p k i req frameCount fr added w)"
  using pull_loop_some_frames [of ora undef p k i req frameCount fr added w] pull_frames_ok [of w] by fastforce

lemma PullBufferMessage_handle_ok:
  assumes "good w"
  shows "ok_from w (\<lambda>w. w) (PullBufferMessage_handle ora undef k p m w)"
proof (cases m)
  case (Pull_Buffer_Message i n req)
  then show ?thesis
    by (auto simp: PullBufferMessage_handle_def post_backend_good frame_post
        intro!: ok_from_bind [OF pull_loop_ok [OF assms]])
qed

lemma pulls_ok:
  "good w \<Longrightarrow> ok_from w (\<lambda>w. w) (fold (\<lambda>m r. bind_result r (PullBufferMessage_handle ora undef k p m)) ms (Inr w))"
proof (induction ms arbitrary: w)
  case (Cons m ms)
  from PullBufferMessage_handle_ok [OF Cons.prems] obtain w1 where
    "PullBufferMessage_handle ora undef k p m w = Inr w1" "frame w w1" "good w1" by (rule ok_fromE)
  with Cons.IH [of w1] show ?case by (auto intro: ok_from_frame)
qed simp

section \<open>Invariant of the client\<close>

definition source_ok :: "attached_source \<Rightarrow> bool" where
  "source_ok a \<longleftrightarrow> as_seekingState a \<noteq> SEEK_DONE \<and>
     (sq_running (bp_queue (as_bufferPuller a)) \<longleftrightarrow> as_seekingState a \<noteq> SEEKING) \<and>
     (\<not> sq_running (bp_queue (as_bufferPuller a)) \<longrightarrow> sq_items (bp_queue (as_bufferPuller a)) = [])"

definition source_halted :: "attached_source \<Rightarrow> bool" where
  "source_halted a \<longleftrightarrow> \<not> sq_running (bp_queue (as_bufferPuller a)) \<and> sq_items (bp_queue (as_bufferPuller a)) = []"

abbreviation sources_of :: "mse \<Rightarrow> (i32 \<times> attached_source) list" where
  "sources_of w \<equiv> m_attachedSources (client_of w)"

definition run_inv :: "mse \<Rightarrow> bool" where
  "run_inv w \<longleftrightarrow> good w \<and> \<not> m_streamingStopped (client_of w) \<and> sq_running (m_backendQueue (client_of w)) \<and>
     distinct (map fst (sources_of w)) \<and> list_all (\<lambda>(i, a). source_ok a) (sources_of w)"

definition stopped_inv :: "mse \<Rightarrow> bool" where
  "stopped_inv w \<longleftrightarrow> capped w \<and> m_streamingStopped (client_of w) \<and>
     \<not> sq_running (m_backendQueue (client_of w)) \<and> sq_items (m_backendQueue (client_of w)) = [] \<and>
     distinct (map fst (sources_of w)) \<and> list_all (\<lambda>(i, a). source_halted a) (sources_of w)"

definition client_inv :: "mse \<Rightarrow> bool" where
  "client_inv w \<longleftrightarrow> run_inv w \<or> stopped_inv w"

lemma run_inv_good: "run_inv w \<Longrightarrow> good w"
  by (simp add: run_inv_def)

lemma run_inv_frame: "run_inv w \<Longrightarrow> frame w w' \<Longrightarrow> good w' \<Longrightarrow> run_inv w'"
  by (simp add: run_inv_def frameD [of w w'])

lemma run_inv_ok_from: "run_inv w \<Longrightarrow> ok_from w f r \<Longrightarrow> yields (\<lambda>x. run_inv (f x)) r"
  by (cases r) (auto intro: run_inv_frame)

lemma run_inv_upd_sources:
  "run_inv w \<Longrightarrow> distinct (map fst (f (sources_of w))) \<Longrightarrow> list_all (\<lambda>(i, a). source_ok a) (f (sources_of w)) \<Longrightarrow>
   run_inv (upd_client (\<lambda>cl. cl\<lparr>m_attachedSources := f (m_attachedSources cl)\<rparr>) w)"
  by (simp add: run_inv_def good_def backend_ok_def)

lemma run_inv_upd_sink: "run_inv w \<Longrightarrow> sink_ok (f (sinks w k)) \<Longrightarrow> run_inv (upd_sink k f w)"
  by (rule run_inv_frame [OF _ frame_upd_sink]) (auto simp: run_inv_def intro: good_upd_sink)

lemma run_inv_post: "run_inv w \<Longrightarrow> run_inv (post_backend m w)"
  by (rule run_inv_frame [OF _ frame_post]) (auto simp: run_inv_def post_backend_good)

text \<open>Updates of the client that the invariant does not look at.\<close>

lemma run_inv_quiet:
  assumes "run_inv w" "\<And>cl. m_clientBackend (f cl) = m_clientBackend cl"
    "\<And>cl. m_wasAllSourcesAttachedSent (f cl) = m_wasAllSourcesAttachedSent cl"
    "\<And>cl. m_streamingStopped (f cl) = m_streamingStopped cl"
    "\<And>cl. sq_running (m_backendQueue (f cl)) = sq_running (m_backendQueue cl)"
    "\<And>cl. m_attachedSources (f cl) = m_attachedSources cl"
  shows "run_inv (upd_client f w)"
  using assms by (simp add: run_inv_def good_def backend_ok_def)

subsection \<open>Stopping one puller\<close>

definition halt_source :: "attached_source \<Rightarrow> attached_source" where
  "halt_source a = a\<lparr>as_bufferPuller := (as_bufferPuller a)\<lparr>bp_queue :=
     (if sq_running (bp_queue (as_bufferPuller a)) then sq_clear (sq_halt (bp_queue (as_bufferPuller a)))
      else bp_queue (as_bufferPuller a))\<rparr>\<rparr>"

lemma source_halted_halt:
  "source_ok a \<Longrightarrow> source_halted (halt_source a)" "source_halted a \<Longrightarrow> source_halted (halt_source a)"
  by (simp_all add: source_halted_def source_ok_def halt_source_def sq_clear_def sq_halt_def)

lemma source_ok_seeking:
  "source_ok a \<Longrightarrow> source_ok (halt_source (a\<lparr>as_seekingState := SEEKING\<rparr>))"
  by (simp add: source_ok_def halt_source_def sq_clear_def sq_halt_def)

lemma source_ok_restart: "source_ok ((start_puller a)\<lparr>as_seekingState := IDLE\<rparr>)"
  by (simp add: source_ok_def start_puller_def BufferPuller_start_def sq_start_def)

lemma BufferPuller_stop_ok:
  assumes "good w" "distinct (map fst (sources_of w))"
  shows "\<exists>w1. frame w w1 \<and> good w1 \<and> BufferPuller_stop ora undef i w = Inr (upd_client
     (\<lambda>cl. cl\<lparr>m_attachedSources := assoc_modify i halt_source (m_attachedSources cl)\<rparr>) w1)"
proof (cases "map_of (sources_of w) i")
  case None
  then have "upd_client (\<lambda>cl. cl\<lparr>m_attachedSources := assoc_modify i halt_source (m_attachedSources cl)\<rparr>) w = w"
    by (simp add: upd_client_def assoc_modify_absent)
  with None assms show ?thesis
    by (intro exI [of _ w]) (simp add: BufferPuller_stop_def)
next
  case (Some a)
  let ?p = "as_bufferPuller a"
  let ?h = "\<lambda>m r. bind_result r (PullBufferMessage_handle ora undef (bp_sink ?p) (bp_parser ?p) m)"
  let ?ms = "if sq_running (bp_queue ?p) then sq_items (bp_queue ?p) else []"
  let ?q = "if sq_running (bp_queue ?p) then sq_clear (sq_halt (bp_queue ?p)) else bp_queue ?p"
  have s: "sq_stop ?h (bp_queue ?p) (Inr w) = (?q, fold ?h ?ms (Inr w))"
    by (simp add: sq_stop_def)
  obtain w1 where w1: "fold ?h ?ms (Inr w) = Inr w1" "frame w w1" "good w1"
    using pulls_ok [OF assms(1)] by (rule ok_fromE)
  have "assoc_modify i (\<lambda>a. a\<lparr>as_bufferPuller := (as_bufferPuller a)\<lparr>bp_queue := ?q\<rparr>\<rparr>) (sources_of w) =
      assoc_modify i halt_source (sources_of w)"
    by (rule assoc_modify_cong [OF assms(2) Some]) (simp add: halt_source_def)
  then have "BufferPuller_stop ora undef i w = Inr (upd_client
     (\<lambda>cl. cl\<lparr>m_attachedSources := assoc_modify i halt_source (m_attachedSources cl)\<rparr>) w1)"
    using Some by (simp add: BufferPuller_stop_def s w1(1) set_puller_queue_def Let_def upd_client_def frameD(1) [OF w1(2)])
  with w1 show ?thesis by blast
qed

subsection \<open>Handlers\<close>

lemma sink_ok_same_sink: "same_sink s s' \<Longrightarrow> sink_ok s' = sink_ok s"
  using queue_inv_quiet [of s s'] queue_inv_quiet [of s' s]
  by (auto simp: same_sink_def same_queue_def sink_ok_def)

lemma sink_ok_sourceId [simp]: "sink_ok (s\<lparr>m_sourceId := i\<rparr>) = sink_ok s"
  by (rule sink_ok_same_sink) (simp add: same_sink_def same_queue_def)

lemmas sink_ok_handlers = same_sink_handlers [THEN sink_ok_same_sink]

lemma sources_of_for_sinks [simp]: "client_of (for_sinks f w) = client_of w"
proof -
  have "client_of (fold (\<lambda>(i, a). upd_sink (as_rialtoSink a) f) xs v) = client_of v" for xs v
    by (induction xs arbitrary: v) (auto simp: case_prod_beta)
  then show ?thesis by (simp add: for_sinks_def)
qed

lemma capped_for_sinks:
  assumes "capped w" "\<And>s. sink_ok s \<Longrightarrow> sink_ok (f s)"
  shows "capped (for_sinks f w)"
proof -
  have "capped v \<Longrightarrow> capped (fold (\<lambda>(i, a). upd_sink (as_rialtoSink a) f) xs v)" for xs v
    by (induction xs arbitrary: v) (auto simp: case_prod_beta capped_def assms(2))
  with assms(1) show ?thesis by (simp add: for_sinks_def)
qed

lemma run_inv_for_sinks:
  assumes "run_inv w" "\<And>s. sink_ok s \<Longrightarrow> sink_ok (f s)"
  shows "run_inv (for_sinks f w)"
proof (rule run_inv_frame [OF assms(1) frame_client_eq])
  show "good (for_sinks f w)"
    using assms by (auto simp: run_inv_def good_def intro: capped_for_sinks)
qed simp

lemma run_inv_start: "run_inv w \<Longrightarrow> run_inv (upd_client startPullingDataIfSeekFinished w)"
  by (auto simp: run_inv_def startPullingDataIfSeekFinished_def good_def backend_ok_def
      intro: list_all_assoc_map source_ok_restart)

lemma run_inv_playback_state: "run_inv w \<Longrightarrow> run_inv (handlePlaybackStateChange st w)"
  by (cases st)
    (auto simp: handlePlaybackStateChange_def Let_def
      intro!: run_inv_for_sinks run_inv_start run_inv_quiet simp: sink_ok_handlers)

lemma run_inv_set_puller_queue:
  assumes "run_inv w" "map_of (sources_of w) i = Some a"
    "sq_running q = sq_running (bp_queue (as_bufferPuller a))"
    "\<not> sq_running q \<Longrightarrow> sq_items q = []"
  shows "run_inv (set_puller_queue i q w)"
  unfolding set_puller_queue_def
proof (rule run_inv_upd_sources [OF assms(1)])
  have d: "distinct (map fst (sources_of w))" and l: "list_all (\<lambda>(i, a). source_ok a) (sources_of w)"
    using assms(1) by (simp_all add: run_inv_def)
  from l assms(2) have "source_ok a" by (auto simp: list_all_iff dest: map_of_SomeD)
  with assms(3,4) have "source_ok (a\<lparr>as_bufferPuller := (as_bufferPuller a)\<lparr>bp_queue := q\<rparr>\<rparr>)"
    by (simp add: source_ok_def)
  with d l assms(2) show "list_all (\<lambda>(i, a). source_ok a) (assoc_modify i
      (\<lambda>a. a\<lparr>as_bufferPuller := (as_bufferPuller a)\<lparr>bp_queue := q\<rparr>\<rparr>) (sources_of w))"
    by (intro list_all_assoc_modify_at [where P = source_ok and a = a])
qed (use assms(1) in \<open>simp add: run_inv_def\<close>)

lemma source_okD:
  assumes "run_inv w" "map_of (sources_of w) i = Some a"
  shows "source_ok a"
  using assms by (auto simp: run_inv_def list_all_iff dest: map_of_SomeD)

lemma run_inv_request: "run_inv w \<Longrightarrow> run_inv (fst (requestPullBuffer i n req w))"
  by (cases "map_of (sources_of w) i")
    (auto simp: requestPullBuffer_def BufferPuller_requestPullBuffer_def Let_def sq_post_def
      intro!: run_inv_set_puller_queue dest: source_okD [of w i] simp: source_ok_def)

lemma run_inv_need_data: "run_inv w \<Longrightarrow> run_inv (NeedDataMessage_handle i n req w)"
  using run_inv_request [of w i n req]
  by (cases "requestPullBuffer i n req w") (auto simp: NeedDataMessage_handle_def intro: run_inv_post)

lemma run_inv_handle: "run_inv w \<Longrightarrow> yields run_inv (handle_backend_message ora m w)"
proof (cases m)
  case (Have_Data_Message st i req)
  moreover assume "run_inv w"
  ultimately show ?thesis
    by (auto simp: HaveDataMessage_handle_def split: option.splits
        intro!: yields_bind [OF run_inv_ok_from [OF _ backend_do_ok]] run_inv_good)
next
  case (Qos_Message i p d)
  moreover assume "run_inv w"
  ultimately show ?thesis
    by (auto simp: handleQos_def split: option.splits
        intro!: run_inv_upd_sink simp: sink_ok_handlers run_inv_def good_def capped_def)
next
  case (Buffer_Underflow_Message i)
  moreover assume "run_inv w"
  ultimately show ?thesis
    by (auto simp: handleBufferUnderflow_def split: option.splits
        intro!: run_inv_upd_sink simp: sink_ok_handlers run_inv_def good_def capped_def)
qed (auto intro: run_inv_need_data run_inv_playback_state run_inv_quiet)

subsection \<open>Every event keeps the invariant\<close>

lemma run_inv_backend_do:
  "run_inv w \<Longrightarrow> c \<noteq> All_Sources_Attached \<Longrightarrow> yields (\<lambda>(w', a). run_inv w') (backend_do ora c w)"
  by (rule yields_mono [OF run_inv_ok_from [OF _ backend_do_ok]]) (auto intro: run_inv_good)

lemma run_inv_call:
  "run_inv w \<Longrightarrow> yields (\<lambda>(w', a). run_inv w') (body w) \<Longrightarrow>
   yields run_inv (drop_value (callInEventLoop d body w))"
  by (auto simp: drop_value_def callInEventLoop_def run_inv_def [of w] elim!: yields_bind)

lemma run_inv_worker: "run_inv w \<Longrightarrow> yields run_inv (turn (worker_turn ora w) w)"
proof (cases "sq_take (m_backendQueue (client_of w))")
  case (Some mq)
  obtain m q where mq: "mq = (m, q)" by (cases mq)
  assume w: "run_inv w"
  have "sq_running q = sq_running (m_backendQueue (client_of w))"
    using Some mq by (auto simp: sq_take_def split: list.splits)
  with w have "run_inv (upd_client (\<lambda>cl. cl\<lparr>m_backendQueue := q\<rparr>) w)"
    by (simp add: run_inv_def good_def backend_ok_def)
  with Some mq show ?thesis by (simp add: turn_def worker_turn_def run_inv_handle)
qed (simp add: turn_def worker_turn_def)

lemma run_inv_puller: "run_inv w \<Longrightarrow> yields run_inv (turn (puller_turn ora undef i w) w)"
proof -
  assume w: "run_inv w"
  show ?thesis
  proof (cases "map_of (sources_of w) i")
    case None
    with w show ?thesis by (simp add: turn_def puller_turn_def)
  next
    case (Some a)
    show ?thesis
    proof (cases "sq_take (bp_queue (as_bufferPuller a))")
      case None
      with Some w show ?thesis by (simp add: turn_def puller_turn_def)
    next
      case (Some mq)
      obtain m q where mq: "mq = (m, q)" by (cases mq)
      have a: "source_ok a" using source_okD w \<open>map_of (sources_of w) i = Some a\<close> by blast
      have q: "sq_running q = sq_running (bp_queue (as_bufferPuller a))" "sq_items (bp_queue (as_bufferPuller a)) \<noteq> []"
        using Some mq by (auto simp: sq_take_def split: list.splits)
      with a have "run_inv (set_puller_queue i q w)"
        using w \<open>map_of (sources_of w) i = Some a\<close> by (intro run_inv_set_puller_queue) (auto simp: source_ok_def)
      from run_inv_ok_from [OF this PullBufferMessage_handle_ok [OF run_inv_good [OF this]]]
      show ?thesis using Some mq \<open>map_of (sources_of w) i = Some a\<close> by (simp add: turn_def puller_turn_def)
    qed
  qed
qed

lemma run_inv_started_seeking:
  assumes "run_inv w"
  shows "yields run_inv (notifySourceStartedSeeking_body ora undef i w)"
proof (cases "map_of (sources_of w) i")
  case None
  with assms show ?thesis by (simp add: notifySourceStartedSeeking_body_def)
next
  case (Some a)
  let ?w = "upd_client (set_seeking i) w"
  have g: "good ?w" "distinct (map fst (sources_of ?w))"
    using assms by (auto simp: run_inv_def good_def backend_ok_def set_seeking_def)
  obtain w1 where w1: "frame ?w w1" "good w1" "BufferPuller_stop ora undef i ?w =
      Inr (upd_client (\<lambda>cl. cl\<lparr>m_attachedSources := assoc_modify i halt_source (m_attachedSources cl)\<rparr>) w1)"
    using BufferPuller_stop_ok [OF g] by blast
  let ?w2 = "upd_client (\<lambda>cl. cl\<lparr>m_attachedSources := assoc_modify i halt_source (m_attachedSources cl)\<rparr>) w1"
  have "sources_of ?w2 = assoc_modify i (\<lambda>a. halt_source (a\<lparr>as_seekingState := SEEKING\<rparr>)) (sources_of w)"
    using frameD(1) [OF w1(1)] by (simp add: set_seeking_def assoc_modify_assoc_modify)
  moreover have "list_all (\<lambda>(i, a). source_ok a)
      (assoc_modify i (\<lambda>a. halt_source (a\<lparr>as_seekingState := SEEKING\<rparr>)) (sources_of w))"
    using assms by (intro list_all_assoc_modify source_ok_seeking) (auto simp: run_inv_def)
  ultimately have "run_inv ?w2"
    using assms w1(2) frameD [OF w1(1)]
    by (simp add: run_inv_def good_def backend_ok_def set_seeking_def)
  then show ?thesis using Some w1(3)
    by (simp add: notifySourceStartedSeeking_body_def run_inv_start)
qed

lemma run_inv_seek_body:
  "run_inv w \<Longrightarrow> yields (\<lambda>(w', a). run_inv w') (bind_result (backend_do ora (Set_Position p)
     (upd_client (\<lambda>cl. cl\<lparr>m_serverSeekingState := SEEKING\<rparr>) w)) (\<lambda>(w, _).
     Inr (upd_client (\<lambda>cl. cl\<lparr>m_position := p\<rparr>) w, ())))"
  by (auto intro!: yields_bind [OF run_inv_backend_do] run_inv_quiet)

lemma run_inv_attach_new:
  assumes "run_inv w"
  shows "run_inv (attach_new t i k w)"
proof (cases "map_of (sources_of w) i")
  case None
  let ?a = "\<lparr>as_rialtoSink = k, as_bufferPuller = new_puller k (if t = TYPE_AUDIO then Audio_Parser else Video_Parser),
      as_seekingState = IDLE, as_type = t\<rparr>"
  have "run_inv (upd_client (\<lambda>cl. cl\<lparr>m_attachedSources := assoc_emplace i (start_puller ?a) (m_attachedSources cl)\<rparr>) w)"
  proof (rule run_inv_upd_sources [OF assms])
    show "distinct (map fst (assoc_emplace i (start_puller ?a) (sources_of w)))"
      using assms by (auto simp: run_inv_def)
    have "source_ok (start_puller ?a)"
      by (simp add: source_ok_def start_puller_def BufferPuller_start_def sq_start_def)
    then show "list_all (\<lambda>(i, a). source_ok a) (assoc_emplace i (start_puller ?a) (sources_of w))"
      using assms None by (simp add: assoc_emplace_fresh run_inv_def)
  qed
  then show ?thesis using None
    by (auto simp: attach_new_def Let_def intro!: run_inv_upd_sink simp: run_inv_def good_def capped_def)
qed (use assms in \<open>simp add: attach_new_def\<close>)

lemma run_inv_send_all:
  assumes "run_inv w"
  shows "yields run_inv (send_allSourcesAttached ora w)"
proof -
  from backend_do_Inr [OF run_inv_good [OF assms], of ora] obtain log where
    log: "m_clientBackend (client_of w) = Some \<lparr>m_mediaPlayerBackend = Some log\<rparr>"
      "length (filter (\<lambda>c. c = All_Sources_Attached) log) = of_bool (m_wasAllSourcesAttachedSent (client_of w))"
    and bd: "\<And>c. backend_do ora c w = Inr (upd_client (\<lambda>cl. cl\<lparr>m_clientBackend :=
       Some \<lparr>m_mediaPlayerBackend = Some (log @ [c])\<rparr>\<rparr>) w, ora log c)" by blast
  with assms show ?thesis
    by (auto simp: send_allSourcesAttached_def bd run_inv_def good_def backend_ok_def)
qed

lemma run_inv_attachSource: "run_inv w \<Longrightarrow> yields run_inv (drop_value (attachSource ora src k w))"
proof -
  assume w: "run_inv w"
  have s: "yields (\<lambda>(w', a). run_inv w') (bind_result (send_allSourcesAttached ora
      (if ans_ok a then attach_new (getType src) (ans_id a) k v else v)) (\<lambda>w. Inr (w, ans_ok a)))"
    if v: "run_inv v" for v and a :: pipeline_answer
  proof -
    have "run_inv (if ans_ok a then attach_new (getType src) (ans_id a) k v else v)"
      using v by (simp add: run_inv_attach_new)
    from yields_bind [OF run_inv_send_all [OF this], of _ "\<lambda>w. Inr (w, ans_ok a)"] show ?thesis by simp
  qed
  show ?thesis
  proof (cases "getType src \<noteq> TYPE_AUDIO \<and> getType src \<noteq> TYPE_VIDEO")
    case True
    with w show ?thesis by (simp add: attachSource_def drop_value_def)
  next
    case False
    have "yields (\<lambda>(w', a). run_inv w') (bind_result (backend_do ora (Attach_Source src) w) (\<lambda>(w, a).
        bind_result (send_allSourcesAttached ora
          (if ans_ok a then attach_new (getType src) (ans_id a) k w else w)) (\<lambda>w. Inr (w, ans_ok a))))"
      by (rule yields_bind [OF run_inv_backend_do [OF w]]) (auto simp only: split_conv s pipeline_call.distinct)
    with False w show ?thesis by (auto simp: attachSource_def intro!: run_inv_call)
  qed
qed

lemma run_inv_remove_body:
  assumes "run_inv w"
  shows "yields (\<lambda>(w', a). run_inv w') (bind_result (backend_do ora (Remove_Source i) w) (\<lambda>(w, _).
     bind_result (BufferPuller_stop ora undef i w) (\<lambda>w.
       Inr (upd_client (\<lambda>cl. cl\<lparr>m_attachedSources := assoc_erase i (m_attachedSources cl)\<rparr>) w, ()))))"
proof -
  have "yields (\<lambda>(w', a). run_inv w') (bind_result (BufferPuller_stop ora undef i v) (\<lambda>w.
       Inr (upd_client (\<lambda>cl. cl\<lparr>m_attachedSources := assoc_erase i (m_attachedSources cl)\<rparr>) w, ())))"
    if v: "run_inv v" for v
  proof -
    have "good v" "distinct (map fst (sources_of v))" using v by (simp_all add: run_inv_def)
    from BufferPuller_stop_ok [OF this, of ora undef i] obtain w1 where w1: "frame v w1" "good w1"
      "BufferPuller_stop ora undef i v = Inr (upd_client
        (\<lambda>cl. cl\<lparr>m_attachedSources := assoc_modify i halt_source (m_attachedSources cl)\<rparr>) w1)" by blast
    have "run_inv w1" using run_inv_frame v w1 by blast
    then have "run_inv (upd_client (\<lambda>cl. cl\<lparr>m_attachedSources := assoc_erase i (m_attachedSources cl)\<rparr>) w1)"
      by (intro run_inv_upd_sources) (auto simp: run_inv_def list_all_assoc_erase)
    then show ?thesis by (simp add: w1(3) upd_client_def assoc_erase_modify)
  qed
  then show ?thesis by (intro yields_bind [OF run_inv_backend_do [OF assms]]) auto
qed

lemma run_inv_caps: "run_inv w \<Longrightarrow> sink_ok (sinks w k)"
  by (simp add: run_inv_def good_def capped_def)

lemma run_inv_queries:
  assumes "run_inv w"
  shows "yields (\<lambda>(w', a). run_inv w') (getPositionDo ora w)"
    "yields (\<lambda>(w', a). run_inv w') (bind_result (backend_do ora Get_Volume w) (\<lambda>(w, a).
       if ans_ok a then Inr (upd_client (\<lambda>cl. cl\<lparr>m_volume := ans_double a\<rparr>) w, ans_double a)
       else Inr (w, m_volume (client_of w))))"
    "yields (\<lambda>(w', a). run_inv w') (bind_result (backend_do ora Get_Mute w) (\<lambda>(w, a).
       if ans_ok a then Inr (upd_client (\<lambda>cl. cl\<lparr>m_mute := ans_bool a\<rparr>) w, ans_bool a)
       else Inr (w, m_mute (client_of w))))"
    "yields (\<lambda>(w', a). run_inv w') (bind_result (backend_do ora Render_Frame w) (\<lambda>(w, a).
       Inr (if ans_ok a then upd_sink k (rialto_mse_base_sink_lost_state lost) w else w, ans_ok a)))"
  using assms
  by (auto simp: getPositionDo_def sink_ok_handlers run_inv_caps
      intro!: yields_bind [OF run_inv_backend_do [OF assms]] run_inv_quiet run_inv_upd_sink)


lemma run_inv_infos:
  "run_inv w \<Longrightarrow> yields run_inv (drop_value (setAudioStreamsInfo n b w))"
  "run_inv w \<Longrightarrow> yields run_inv (drop_value (setVideoStreamsInfo n b w))"
  by (auto simp: setAudioStreamsInfo_def setVideoStreamsInfo_def Let_def run_inv_def good_def
      backend_ok_def capped_def intro!: run_inv_call)

lemma run_inv_simple: "run_inv w \<Longrightarrow> is_simple c \<Longrightarrow> yields run_inv (drop_value (simple_call ora c w))"
  unfolding simple_call_def
  by (rule run_inv_call, assumption, rule yields_bind [OF run_inv_backend_do]) auto

subsection \<open>Stopping\<close>

lemma run_inv_handle_all:
  "run_inv w \<Longrightarrow> yields run_inv (fold (\<lambda>m r. bind_result r (handle_backend_message ora m)) ms (Inr w))"
proof (induction ms arbitrary: w)
  case (Cons m ms)
  obtain w1 where "handle_backend_message ora m w = Inr w1" "run_inv w1"
    using run_inv_handle [OF Cons.prems] by (rule yieldsE)
  with Cons.IH [of w1] show ?case by simp
qed simp

text \<open>The backend queue has stopped, the pullers of the sources in \<open>ks\<close> have not yet.\<close>

definition stopping_inv :: "i32 list \<Rightarrow> mse \<Rightarrow> bool" where
  "stopping_inv ks w \<longleftrightarrow> good w \<and> \<not> sq_running (m_backendQueue (client_of w)) \<and>
     sq_items (m_backendQueue (client_of w)) = [] \<and> distinct (map fst (sources_of w)) \<and>
     list_all (\<lambda>(i, a). source_ok a \<or> source_halted a) (sources_of w) \<and>
     list_all (\<lambda>(i, a). i \<in> set ks \<or> source_halted a) (sources_of w)"

lemma stopping_step:
  assumes "stopping_inv (i # ks) w"
  shows "yields (stopping_inv ks) (BufferPuller_stop ora undef i w)"
proof -
  have "good w" "distinct (map fst (sources_of w))" using assms by (simp_all add: stopping_inv_def)
  from BufferPuller_stop_ok [OF this, of ora undef i] obtain w1 where w1: "frame w w1" "good w1"
    "BufferPuller_stop ora undef i w = Inr (upd_client
      (\<lambda>cl. cl\<lparr>m_attachedSources := assoc_modify i halt_source (m_attachedSources cl)\<rparr>) w1)" by blast
  have "list_all (\<lambda>(i, a). source_ok a \<or> source_halted a) (assoc_modify i halt_source (sources_of w))"
    using assms by (intro list_all_assoc_modify) (auto simp: stopping_inv_def source_halted_halt)
  moreover have "list_all (\<lambda>(j, a). j \<in> set ks \<or> source_halted a) (assoc_modify i halt_source (sources_of w))"
    unfolding list_all_iff
  proof (intro ballI, clarify)
    fix j b
    assume "(j, b) \<in> set (assoc_modify i halt_source (sources_of w))" "\<not> source_halted b"
    then obtain a where a: "(j, a) \<in> set (sources_of w)" "b = (if j = i then halt_source a else a)"
      by (auto simp: assoc_modify_def)
    then have "source_ok a \<or> source_halted a" "j = i \<or> j \<in> set ks \<or> source_halted a"
      using assms by (auto simp: stopping_inv_def list_all_iff)
    with a(2) \<open>\<not> source_halted b\<close> source_halted_halt show "j \<in> set ks" by (metis (full_types))
  qed
  ultimately show ?thesis using assms w1 frameD [OF w1(1)]
    by (simp add: stopping_inv_def good_def backend_ok_def)
qed

lemma stopping_all:
  "stopping_inv (map fst xs) w \<Longrightarrow>
   yields (stopping_inv []) (fold (\<lambda>(i, a) r. bind_result r (BufferPuller_stop ora undef i)) xs (Inr w))"
proof (induction xs arbitrary: w)
  case (Cons x xs)
  obtain i a where x: "x = (i, a)" by (cases x)
  from Cons.prems x have "stopping_inv (i # map fst xs) w" by simp
  from stopping_step [OF this] obtain w1 where "BufferPuller_stop ora undef i w = Inr w1"
    "stopping_inv (map fst xs) w1" by (rule yieldsE)
  with Cons.IH [of w1] x show ?case by simp
qed simp

lemma run_inv_stopStreaming:
  assumes "run_inv w"
  shows "yields stopped_inv (stopStreaming ora undef w)"
proof -
  let ?q = "sq_clear (sq_halt (m_backendQueue (client_of w)))"
  have q: "\<not> sq_running ?q" "sq_items ?q = []" by (simp_all add: sq_clear_def sq_halt_def)
  obtain w1 where w1: "fold (\<lambda>m r. bind_result r (handle_backend_message ora m))
      (sq_items (m_backendQueue (client_of w))) (Inr w) = Inr w1" "run_inv w1"
    using run_inv_handle_all [OF assms] by (rule yieldsE)
  let ?w2 = "upd_client (\<lambda>cl. cl\<lparr>m_backendQueue := ?q\<rparr>) w1"
  have sb: "stop_backend_queue ora w = Inr ?w2"
    using assms w1 by (simp add: stop_backend_queue_def sq_stop_def run_inv_def)
  have "stopping_inv (map fst (sources_of ?w2)) ?w2"
    using w1(2) q by (auto simp: run_inv_def stopping_inv_def good_def backend_ok_def list_all_iff intro: rev_image_eqI)
  from stopping_all [OF this, of ora undef] obtain w3 where
    w3: "stop_all_pullers ora undef ?w2 = Inr w3" "stopping_inv [] w3"
    unfolding stop_all_pullers_def by (rule yieldsE)
  have "stopped_inv (upd_client (\<lambda>cl. cl\<lparr>m_streamingStopped := True\<rparr>) w3)"
    using w3(2) by (simp add: stopping_inv_def stopped_inv_def good_def)
  with assms show ?thesis by (simp add: stopStreaming_def sb w3(1) run_inv_def)
qed

subsection \<open>All events\<close>

lemma stopped_call:
  "stopped_inv w \<Longrightarrow> drop_value (callInEventLoop d body w) = Inr w"
  by (simp add: stopped_inv_def callInEventLoop_def drop_value_def)

lemma stopped_puller: "stopped_inv w \<Longrightarrow> puller_turn ora undef i w = None"
  by (auto simp: puller_turn_def stopped_inv_def list_all_iff source_halted_def sq_take_def
      split: option.split dest!: map_of_SomeD)

lemma stopped_worker: "stopped_inv w \<Longrightarrow> worker_turn ora w = None"
  by (simp add: worker_turn_def stopped_inv_def sq_take_def)

text \<open>The definitions of the calls of the sinks.\<close>

lemmas client_call_defs =
  notifySourceStartedSeeking_def seek_def attachSource_def removeSource_def setAudioStreamsInfo_def
  setVideoStreamsInfo_def simple_call_def renderFrame_def getPosition_def getVolume_def getMute_def

lemma stopped_perform:
  assumes "stopped_inv w"
  shows "yields stopped_inv (perform ora undef lost ev w)"
proof (cases ev)
  case (Attach src k)
  have "drop_value (attachSource ora src k w) = Inr w"
  proof (cases "getType src \<noteq> TYPE_AUDIO \<and> getType src \<noteq> TYPE_VIDEO")
    case True
    then show ?thesis by (simp add: attachSource_def drop_value_def)
  next
    case False
    show ?thesis
      unfolding attachSource_def by (subst if_not_P [OF False]) (rule stopped_call [OF assms])
  qed
  with Attach assms show ?thesis by simp
next
  case (Notify m)
  with assms show ?thesis by (simp add: post_backend_def sq_post_def stopped_inv_def)
next
  case Destroy_Backend
  with assms show ?thesis by (simp add: destroyClientBackend_def stopped_inv_def)
next
  case (Sink_Changes k s)
  with assms show ?thesis by (simp add: stopped_inv_def capped_def)
next
  case Stop_Streaming
  with assms show ?thesis by (simp add: stopStreaming_def stopped_inv_def)
qed (use assms in \<open>simp_all add: client_call_defs stopped_call stopped_puller stopped_worker turn_def\<close>)

lemma running_stays_running:
  assumes "run_inv w" and "ev \<noteq> Stop_Streaming"
  shows "yields run_inv (perform ora undef lost ev w)"
proof (cases ev)
  case (Started_Seeking i)
  then show ?thesis using assms
    by (auto simp: notifySourceStartedSeeking_def unit_body_def
        intro!: run_inv_call yields_bind [OF run_inv_started_seeking])
next
  case (Sink_Changes k s)
  then show ?thesis using assms by (auto intro: run_inv_upd_sink)
next
  case Destroy_Backend
  then show ?thesis using assms by (simp add: run_inv_def)
qed (use assms in \<open>auto simp: seek_def removeSource_def renderFrame_def getPosition_def getVolume_def getMute_def
    intro!: run_inv_call run_inv_seek_body run_inv_remove_body run_inv_queries
    intro: run_inv_post run_inv_worker run_inv_puller run_inv_attachSource run_inv_infos run_inv_simple\<close>)

lemma running_perform:
  assumes "run_inv w"
  shows "yields client_inv (perform ora undef lost ev w)"
  using run_inv_stopStreaming [OF assms, of ora undef] running_stays_running [OF assms, of ev ora undef lost]
  by (cases "ev = Stop_Streaming") (auto simp: client_inv_def elim: yields_mono)

lemma client_inv_perform: "client_inv w \<Longrightarrow> yields client_inv (perform ora undef lost ev w)"
  using running_perform [of w ora undef lost ev] yields_mono [OF stopped_perform [of w ora undef lost ev], of client_inv]
  by (auto simp: client_inv_def)

interpretation client_system: safe_system "perform ora undef lost" "perform_all ora undef lost" "\<lambda>_. True" client_inv
  for ora undef lost
  by unfold_locales (simp_all add: client_inv_perform)

lemma client_inv_perform_all:
  "client_inv w \<Longrightarrow> yields client_inv (perform_all ora undef lost evs w)"
  by (rule client_system.run_safe) (simp_all add: list_all_iff)

lemma client_inv_started: "(\<And>k. sink_ok (ss k)) \<Longrightarrow> client_inv (started maxW maxH ss)"
  by (simp add: client_inv_def run_inv_def started_def Let_def new_client_def good_def backend_ok_def
      capped_def sq_start_def sq_new_def)

section \<open>The pull loop\<close>

text \<open>The segments that a list of samples turns into: one for each sample that can be mapped.\<close>

definition segments :: "parser_kind \<Rightarrow> i32 \<Rightarrow> i32 \<Rightarrow> gst_sample list \<Rightarrow> media_segment list" where
  "segments p undef i xs = concat (map (\<lambda>x.
     if mem_mappable (buf_memory (sample_buffer x))
     then (case parseBuffer p undef x i of Inr (_, seg) \<Rightarrow> [seg] | Inl _ \<Rightarrow> []) else []) xs)"

lemma segments_simps [simp]:
  "segments p undef i [] = []"
  "\<not> mem_mappable (buf_memory (sample_buffer x)) \<Longrightarrow> segments p undef i (x # xs) = segments p undef i xs"
  "mem_mappable (buf_memory (sample_buffer x)) \<Longrightarrow> parseBuffer p undef x i = Inr (b, seg) \<Longrightarrow>
     segments p undef i (x # xs) = seg # segments p undef i xs"
  by (simp_all add: segments_def)

definition strip_protection :: "gst_sample \<Rightarrow> gst_sample" where
  "strip_protection x = x\<lparr>sample_buffer := (sample_buffer x)\<lparr>buf_protection := None\<rparr>\<rparr>"

lemma parseBuffer_strips: "parseBuffer p undef x i = Inr (b, seg) \<Longrightarrow> b = (sample_buffer x)\<lparr>buf_protection := None\<rparr>"
proof -
  assume a: "parseBuffer p undef x i = Inr (b, seg)"
  obtain md where "ProcessProtectionMetadata (Some (sample_buffer x)) new_metadata =
      Inr (Some ((sample_buffer x)\<lparr>buf_protection := None\<rparr>), md)"
    using ProcessProtectionMetadata_total by blast
  with a show ?thesis
    by (auto simp: parseBuffer_def addProtectionMetadataToSegment_def Let_def split: option.splits)
qed

definition pipeline_log :: "mse \<Rightarrow> pipeline_call list" where
  "pipeline_log w = (case m_clientBackend (client_of w) of
     Some cb \<Rightarrow> (case m_mediaPlayerBackend cb of Some log \<Rightarrow> log | None \<Rightarrow> []) | None \<Rightarrow> [])"

definition pipeline_alive :: "mse \<Rightarrow> bool" where
  "pipeline_alive w \<longleftrightarrow> m_clientBackend (client_of w) = Some \<lparr>m_mediaPlayerBackend = Some (pipeline_log w)\<rparr>"

lemma alive_upd_sink [simp]:
  "pipeline_alive (upd_sink k f w) = pipeline_alive w" "pipeline_log (upd_sink k f w) = pipeline_log w"
  by (simp_all add: pipeline_alive_def pipeline_log_def)

lemma addSegment_alive:
  assumes "pipeline_alive w"
  shows "\<exists>w'. addSegment ora req seg w = Inr (w', ans_status (ora (pipeline_log w) (Add_Segment req seg))) \<and>
    pipeline_alive w' \<and> pipeline_log w' = pipeline_log w @ [Add_Segment req seg] \<and> sinks w' = sinks w"
proof -
  obtain log where log: "m_clientBackend (client_of w) = Some \<lparr>m_mediaPlayerBackend = Some log\<rparr>"
    "pipeline_log w = log" using assms by (simp add: pipeline_alive_def)
  then show ?thesis by (simp add: addSegment_def backend_do_def forward_def pipeline_alive_def pipeline_log_def)
qed

text \<open>What the loop does to the queue \<open>xs\<close> in \<open>n\<close> rounds: \<open>m\<close> samples are gone, \<open>rej\<close> tells a rejection.\<close>

definition pulled :: "pipeline \<Rightarrow> i32 \<Rightarrow> parser_kind \<Rightarrow> i32 \<Rightarrow> u32 \<Rightarrow> nat \<Rightarrow> bool \<Rightarrow> nat \<Rightarrow> pipeline_call list \<Rightarrow>
    gst_sample list \<Rightarrow> pipeline_call list \<Rightarrow> gst_sample list \<Rightarrow> bool" where
  "pulled ora undef p i req n rej m log xs log' xs' \<longleftrightarrow> m \<le> n \<and> m \<le> length xs \<and>
     (if rej then m < n \<and> m < length xs \<and> mem_mappable (buf_memory (sample_buffer (xs ! m))) \<and>
        xs' = strip_protection (xs ! m) # drop (Suc m) xs \<and>
        (\<exists>b seg. parseBuffer p undef (xs ! m) i = Inr (b, seg) \<and>
          log' = log @ map (Add_Segment req) (segments p undef i (take m xs)) @ [Add_Segment req seg] \<and>
          ans_status (ora (log @ map (Add_Segment req) (segments p undef i (take m xs))) (Add_Segment req seg)) = ADD_NO_SPACE)
      else (m = n \<or> m = length xs) \<and> xs' = drop m xs \<and>
        log' = log @ map (Add_Segment req) (segments p undef i (take m xs)))"

lemma pulled_0: "pulled ora undef p i req 0 False 0 log xs log xs"
  by (simp add: pulled_def)

lemma pulled_empty: "pulled ora undef p i req n False 0 log [] log []"
  by (simp add: pulled_def)

lemma pulled_skip:
  "\<not> mem_mappable (buf_memory (sample_buffer x)) \<Longrightarrow> pulled ora undef p i req n rej m log xs log' xs' \<Longrightarrow>
   pulled ora undef p i req (Suc n) rej (Suc m) log (x # xs) log' xs'"
  by (auto simp: pulled_def split: if_splits)

lemma pulled_add:
  "mem_mappable (buf_memory (sample_buffer x)) \<Longrightarrow> parseBuffer p undef x i = Inr (b, seg) \<Longrightarrow>
   pulled ora undef p i req n rej m (log @ [Add_Segment req seg]) xs log' xs' \<Longrightarrow>
   pulled ora undef p i req (Suc n) rej (Suc m) log (x # xs) log' xs'"
  by (auto simp: pulled_def split: if_splits)

lemma pulled_reject:
  "mem_mappable (buf_memory (sample_buffer x)) \<Longrightarrow> parseBuffer p undef x i = Inr (b, seg) \<Longrightarrow>
   ans_status (ora log (Add_Segment req seg)) = ADD_NO_SPACE \<Longrightarrow>
   pulled ora undef p i req (Suc n) True 0 log (x # xs) (log @ [Add_Segment req seg]) (strip_protection x # xs)"
  by (simp add: pulled_def)

lemma pop_upd: "m_isEos (rialto_mse_base_sink_pop_sample s) = m_isEos s"
  by (simp add: rialto_mse_base_sink_pop_sample_def notify_need_data_def Let_def)

lemma set_front_fields [simp]:
  "m_samples s = x # xs \<Longrightarrow> m_samples (set_front_buffer b s) = x\<lparr>sample_buffer := b\<rparr> # xs"
  "m_isEos (set_front_buffer b s) = m_isEos s"
  by (simp_all add: set_front_buffer_def)

lemma pull_frames_pulled:
  assumes "pipeline_alive w" "pull_frames ora undef p k i req n ad w = Inr (w', isEos, added)"
  shows "\<exists>m rej. pulled ora undef p i req n rej m (pipeline_log w) (m_samples (sinks w k)) (pipeline_log w') (m_samples (sinks w' k)) \<and>
    added = ad + of_nat (length (segments p undef i (take m (m_samples (sinks w k))))) \<and>
    isEos = (\<not> rej \<and> m = length (m_samples (sinks w k)) \<and> m < n \<and> m_isEos (sinks w k))"
  using assms
proof (induction n arbitrary: w ad)
  case 0
  then show ?case using pulled_0 by (intro exI [of _ 0] exI [of _ False]) auto
next
  case (Suc n)
  show ?case
  proof (cases "m_samples (sinks w k)")
    case Nil
    with Suc.prems have "w' = w" "added = ad" "isEos = m_isEos (sinks w k)"
      by (auto simp: rialto_mse_base_sink_get_front_sample_def rialto_mse_base_sink_is_eos_def)
    then show ?thesis using Nil pulled_empty by (intro exI [of _ 0] exI [of _ False]) auto
  next
    case (Cons x xs)
    then have front: "rialto_mse_base_sink_get_front_sample (sinks w k) = Some x"
      by (rule sink_source.front_Cons)
    show ?thesis
    proof (cases "mem_mappable (buf_memory (sample_buffer x))")
      case False
      let ?w = "upd_sink k rialto_mse_base_sink_pop_sample w"
      have "pull_frames ora undef p k i req n ad ?w = Inr (w', isEos, added)" "pipeline_alive ?w"
        "m_samples (sinks ?w k) = xs" "m_isEos (sinks ?w k) = m_isEos (sinks w k)"
        using Suc.prems front False Cons by (simp_all add: sink_simps pop_upd)
      from Suc.IH [OF this(2,1)] this(3,4) obtain m rej where
        "pulled ora undef p i req n rej m (pipeline_log w) xs (pipeline_log w') (m_samples (sinks w' k))"
        "added = ad + of_nat (length (segments p undef i (take m xs)))"
        "isEos = (\<not> rej \<and> m = length xs \<and> m < n \<and> m_isEos (sinks w k))" by auto
      with Cons False pulled_skip [OF False] show ?thesis
        by (intro exI [of _ "Suc m"] exI [of _ rej]) simp
    next
      case True
      obtain b seg where ps: "parseBuffer p undef x i = Inr (b, seg)"
        using Suc.prems(2) front True by (cases "parseBuffer p undef x i") (auto split: prod.splits)
      have strip: "x\<lparr>sample_buffer := b\<rparr> = strip_protection x"
        using parseBuffer_strips [OF ps] by (simp add: strip_protection_def)
      let ?w = "upd_sink k (set_front_buffer b) w"
      have "pipeline_alive ?w" using Suc.prems(1) by simp
      from addSegment_alive [OF this, of ora req seg] obtain w2 where
        w2: "addSegment ora req seg ?w = Inr (w2, ans_status (ora (pipeline_log w) (Add_Segment req seg)))"
          "pipeline_alive w2" "pipeline_log w2 = pipeline_log w @ [Add_Segment req seg]" "sinks w2 = sinks ?w" by auto
      show ?thesis
      proof (cases "ans_status (ora (pipeline_log w) (Add_Segment req seg)) = ADD_NO_SPACE")
        case True2: True
        with Suc.prems(2) front True ps w2 have "w' = w2" "isEos = False" "added = ad" by auto
        moreover have "pulled ora undef p i req (Suc n) True 0 (pipeline_log w) (x # xs)
            (pipeline_log w @ [Add_Segment req seg]) (strip_protection x # xs)"
          by (rule pulled_reject [OF True ps]) (rule True2)
        ultimately show ?thesis using Cons w2 strip by (intro exI [of _ 0] exI [of _ True]) simp
      next
        case False
        let ?w3 = "upd_sink k rialto_mse_base_sink_pop_sample w2"
        have "pull_frames ora undef p k i req n (ad + 1) ?w3 = Inr (w', isEos, added)" "pipeline_alive ?w3"
          "m_samples (sinks ?w3 k) = xs" "m_isEos (sinks ?w3 k) = m_isEos (sinks w k)"
          "pipeline_log ?w3 = pipeline_log w @ [Add_Segment req seg]"
          using Suc.prems front False True ps w2 Cons by (simp_all add: sink_simps pop_upd)
        from Suc.IH [OF this(2,1)] this(3-5) obtain m rej where
          "pulled ora undef p i req n rej m (pipeline_log w @ [Add_Segment req seg]) xs (pipeline_log w') (m_samples (sinks w' k))"
          "added = ad + 1 + of_nat (length (segments p undef i (take m xs)))"
          "isEos = (\<not> rej \<and> m = length xs \<and> m < n \<and> m_isEos (sinks w k))" by auto
        with Cons True ps show ?thesis
          by (intro exI [of _ "Suc m"] exI [of _ rej]) (auto intro: pulled_add [OF True ps])
      qed
    qed
  qed
qed

section \<open>Guarantees\<close>

text \<open>
  C1. No sequence of notifications, worker and puller turns, calls of the sinks, and changes of the
  sinks by other threads makes the client dereference a null pointer or fault otherwise, once its
  backend has been created: after \<open>stopStreaming\<close> the backend may be destroyed, because then no body
  and no message is run any more.
\<close>

theorem client_never_faults:
  assumes "\<forall>k. sink_ok (ss k)"
  shows "\<exists>w. perform_all ora undef lost evs (started maxW maxH ss) = Inr w"
  using client_inv_perform_all [OF client_inv_started, of ss ora undef lost evs maxW maxH] assms
  by (auto elim: yieldsE)

definition quiet_sinks :: "nat \<Rightarrow> base_sink" where
  "quiet_sinks k = example_sink"

lemma sink_ok_example:
  "list_all sample_has_caps q \<Longrightarrow> length q \<le> 24 \<Longrightarrow> sink_ok (example_sink\<lparr>m_samples := q\<rparr>)" "sink_ok example_sink"
  by (simp_all add: sink_ok_def queue_inv_def example_sink_def rialto_mse_base_sink_init_def new_private_def
      MAX_INTERNAL_BUFFERS_QUEUE_SIZE_def)

lemma quiet_sinks_caps: "\<forall>k. sink_ok (quiet_sinks k)"
  by (simp add: quiet_sinks_def sink_ok_example)

theorem client_never_faults_witness:
  "\<exists>w. perform_all (\<lambda>_ _. \<lparr>ans_ok = True, ans_int = 0, ans_double = 0, ans_bool = False, ans_id = 1,
      ans_status = ADD_OK\<rparr>) 0 id [Video_Info 1 True,
      Attach (MediaSourceVideo ''video/h264'' True 0 0 ALIGN_AU FORMAT_AVC None) 0, Notify (Need_Data_Message 1 3 7),
      Worker_Turn, Puller_Turn 1, Worker_Turn, Stop_Streaming, Destroy_Backend, Query_Volume]
      (started 0 0 quiet_sinks) = Inr w"
  by (rule client_never_faults [OF quiet_sinks_caps])

text \<open>
  C2. Pulling is gated by seeking. In every state of a client that has not stopped, the ids of the
  attached sources are distinct, and the puller of a source runs exactly when that source is not
  seeking, a puller that does not run having nothing queued. Once the client has stopped, neither
  the backend queue nor any puller runs or holds a message.
\<close>

theorem pulling_gated_by_seeking:
  assumes "\<forall>k. sink_ok (ss k)" and "perform_all ora undef lost evs (started maxW maxH ss) = Inr w"
  shows "distinct (map fst (m_attachedSources (client_of w))) \<and>
    (if m_streamingStopped (client_of w)
     then \<not> sq_running (m_backendQueue (client_of w)) \<and> sq_items (m_backendQueue (client_of w)) = [] \<and>
       list_all (\<lambda>(i, a). \<not> sq_running (bp_queue (as_bufferPuller a)) \<and> sq_items (bp_queue (as_bufferPuller a)) = [])
         (m_attachedSources (client_of w))
     else sq_running (m_backendQueue (client_of w)) \<and>
       list_all (\<lambda>(i, a). if as_seekingState a = SEEKING
           then \<not> sq_running (bp_queue (as_bufferPuller a)) \<and> sq_items (bp_queue (as_bufferPuller a)) = []
           else sq_running (bp_queue (as_bufferPuller a)))
         (m_attachedSources (client_of w)))"
proof -
  have "client_inv w"
    using client_inv_perform_all [OF client_inv_started, of ss ora undef lost evs maxW maxH] assms by simp
  then show ?thesis
    by (auto simp: client_inv_def run_inv_def stopped_inv_def source_ok_def source_halted_def list_all_iff)
qed

text \<open>A client with one seeking source.\<close>

definition yes_pipeline :: pipeline where
  "yes_pipeline log c = \<lparr>ans_ok = True, ans_int = 0, ans_double = 0, ans_bool = False, ans_id = 1, ans_status = ADD_OK\<rparr>"

definition video_source :: media_source where
  "video_source = MediaSourceVideo ''video/h264'' True 0 0 ALIGN_AU FORMAT_AVC None"

definition example_run :: "client_event list" where
  "example_run = [Video_Info 1 True, Attach video_source 0, Started_Seeking 1]"

lemma example_run_result:
  "yields (\<lambda>w. map (\<lambda>(i, a). (i, as_seekingState a)) (m_attachedSources (client_of w)) = [(1, SEEKING)] \<and>
     \<not> m_streamingStopped (client_of w) \<and> m_wasAllSourcesAttachedSent (client_of w))
   (perform_all yes_pipeline 0 id example_run (started 0 0 quiet_sinks))"
  by code_simp

theorem pulling_gated_by_seeking_witness:
  "\<exists>w. perform_all yes_pipeline 0 id example_run (started 0 0 quiet_sinks) = Inr w \<and>
     list_all (\<lambda>(i, a). \<not> sq_running (bp_queue (as_bufferPuller a))) (m_attachedSources (client_of w)) \<and>
     m_attachedSources (client_of w) \<noteq> []"
proof -
  obtain w where w: "perform_all yes_pipeline 0 id example_run (started 0 0 quiet_sinks) = Inr w"
    "map (\<lambda>(i, a). (i, as_seekingState a)) (m_attachedSources (client_of w)) = [(1, SEEKING)]"
    "\<not> m_streamingStopped (client_of w)" using example_run_result by (auto elim: yieldsE)
  from pulling_gated_by_seeking [OF quiet_sinks_caps w(1)] w(2,3)
  have "list_all (\<lambda>(i, a). \<not> sq_running (bp_queue (as_bufferPuller a))) (m_attachedSources (client_of w))"
    by auto
  with w show ?thesis by (intro exI [of _ w]) auto
qed

text \<open>
  The server is told that all sources are attached at most once: while the client runs, the
  pipeline has received \<open>allSourcesAttached\<close> once if the client's flag says so, and never otherwise.
\<close>

theorem allSourcesAttached_once:
  assumes "\<forall>k. sink_ok (ss k)" and "perform_all ora undef lost evs (started maxW maxH ss) = Inr w"
    and "\<not> m_streamingStopped (client_of w)"
  shows "length (filter (\<lambda>c. c = All_Sources_Attached) (pipeline_log w)) =
    of_bool (m_wasAllSourcesAttachedSent (client_of w))"
proof -
  have "client_inv w"
    using client_inv_perform_all [OF client_inv_started, of ss ora undef lost evs maxW maxH] assms by simp
  with assms(3) show ?thesis
    by (auto simp: client_inv_def run_inv_def stopped_inv_def good_def backend_ok_def pipeline_log_def)
qed

theorem allSourcesAttached_once_witness:
  "\<exists>w. perform_all yes_pipeline 0 id example_run (started 0 0 quiet_sinks) = Inr w \<and>
     length (filter (\<lambda>c. c = All_Sources_Attached) (pipeline_log w)) = 1"
proof -
  obtain w where w: "perform_all yes_pipeline 0 id example_run (started 0 0 quiet_sinks) = Inr w"
    "\<not> m_streamingStopped (client_of w)" "m_wasAllSourcesAttachedSent (client_of w)"
    using example_run_result by (auto elim: yieldsE)
  with allSourcesAttached_once [OF quiet_sinks_caps w(1,2)] show ?thesis by auto
qed

text \<open>
  C34. Attaching a source of a valid type to a running client forwards it to the pipeline, returns the
  pipeline's verdict, and then announces \<open>allSourcesAttached\<close> exactly when this had not been done
  before and the numbers of attached audio and video sources now are the announced ones. An accepted
  source with a new id is entered under that id with a running puller; the sink learns the id.
\<close>

theorem attachSource_spec:
  assumes "pipeline_alive w" and "sq_running (m_backendQueue (client_of w))"
    and "getType src = TYPE_AUDIO \<or> getType src = TYPE_VIDEO"
  shows "\<exists>w' a. attachSource ora src k w = Inr (w', ans_ok a) \<and> a = ora (pipeline_log w) (Attach_Source src) \<and>
    pipeline_log w' = pipeline_log w @ [Attach_Source src] @
      (if \<not> m_wasAllSourcesAttachedSent (client_of w) \<and> areAllStreamsAttached (client_of w')
       then [All_Sources_Attached] else []) \<and>
    (if ans_ok a \<and> map_of (m_attachedSources (client_of w)) (ans_id a) = None
     then m_sourceId (sinks w' k) = ans_id a \<and>
       (\<exists>s. map_of (m_attachedSources (client_of w')) (ans_id a) = Some s \<and> as_type s = getType src \<and>
          as_rialtoSink s = k \<and> as_seekingState s = IDLE \<and> sq_running (bp_queue (as_bufferPuller s)))
     else m_attachedSources (client_of w') = m_attachedSources (client_of w))"
proof -
  obtain log where log: "m_clientBackend (client_of w) = Some \<lparr>m_mediaPlayerBackend = Some log\<rparr>"
    "pipeline_log w = log" using assms(1) by (simp add: pipeline_alive_def)
  let ?a = "ora log (Attach_Source src)"
  let ?w1 = "upd_client (\<lambda>cl. cl\<lparr>m_clientBackend := Some \<lparr>m_mediaPlayerBackend = Some (log @ [Attach_Source src])\<rparr>\<rparr>) w"
  let ?w2 = "if ans_ok ?a then attach_new (getType src) (ans_id ?a) k ?w1 else ?w1"
  have an: "m_clientBackend (client_of ?w2) = Some \<lparr>m_mediaPlayerBackend = Some (log @ [Attach_Source src])\<rparr>"
    "m_wasAllSourcesAttachedSent (client_of ?w2) = m_wasAllSourcesAttachedSent (client_of w)"
    by (simp_all add: attach_new_def Let_def split: option.splits)
  have src: "if ans_ok ?a \<and> map_of (m_attachedSources (client_of w)) (ans_id ?a) = None
     then m_sourceId (sinks ?w2 k) = ans_id ?a \<and>
       (\<exists>s. map_of (m_attachedSources (client_of ?w2)) (ans_id ?a) = Some s \<and> as_type s = getType src \<and>
          as_rialtoSink s = k \<and> as_seekingState s = IDLE \<and> sq_running (bp_queue (as_bufferPuller s)))
     else m_attachedSources (client_of ?w2) = m_attachedSources (client_of w)"
    by (auto simp: attach_new_def Let_def map_of_assoc_emplace start_puller_def BufferPuller_start_def
        sq_start_def split: option.splits)
  let ?send = "\<not> m_wasAllSourcesAttachedSent (client_of ?w2) \<and> areAllStreamsAttached (client_of ?w2)"
  let ?w3 = "if ?send then upd_client (\<lambda>cl. cl\<lparr>m_clientBackend := Some \<lparr>m_mediaPlayerBackend =
      Some (log @ [Attach_Source src, All_Sources_Attached])\<rparr>, m_wasAllSourcesAttachedSent := True\<rparr>) ?w2 else ?w2"
  have "attachSource ora src k w = Inr (?w3, ans_ok ?a)"
    using assms(2,3) log an
    by (auto simp: attachSource_def callInEventLoop_def backend_do_def forward_def send_allSourcesAttached_def
        upd_client_def)
  moreover have "areAllStreamsAttached (client_of ?w3) = areAllStreamsAttached (client_of ?w2)"
    by (simp add: areAllStreamsAttached_def count_sources_def)
  ultimately show ?thesis using log an src
    by (intro exI [of _ ?w3] exI [of _ ?a]) (auto simp: pipeline_log_def)
qed

lemma started_facts:
  "pipeline_alive (started mw mh ss)" "sq_running (m_backendQueue (client_of (started mw mh ss)))"
  "sinks (started mw mh ss) = ss" "m_attachedSources (client_of (started mw mh ss)) = []"
  by (simp_all add: started_def new_client_def pipeline_alive_def pipeline_log_def sq_start_def Let_def)

theorem attachSource_spec_witness:
  "\<exists>w' s. attachSource yes_pipeline video_source 0 (started 0 0 quiet_sinks) = Inr (w', True) \<and>
     m_sourceId (sinks w' 0) = 1 \<and> map_of (m_attachedSources (client_of w')) 1 = Some s \<and>
     as_type s = TYPE_VIDEO \<and> sq_running (bp_queue (as_bufferPuller s))"
proof -
  have "getType video_source = TYPE_VIDEO" by (simp add: video_source_def)
  with attachSource_spec [OF started_facts(1,2), of video_source yes_pipeline 0 0 0 quiet_sinks]
  show ?thesis by (auto simp: yes_pipeline_def started_facts)
qed

lemma small_word_zero: "n < 2 ^ 32 \<Longrightarrow> (word_of_nat n :: u32) = 0 \<longleftrightarrow> n = 0"
  by (auto simp: word_of_nat_eq_0_iff dest: nat_dvd_not_less)

lemma run_inv_alive: "run_inv w \<Longrightarrow> pipeline_alive w"
  by (auto simp: run_inv_def good_def backend_ok_def pipeline_alive_def pipeline_log_def)

lemma backend_do_client:
  "backend_do ora c w = Inr (w', a) \<Longrightarrow>
   client_of w' = (client_of w)\<lparr>m_clientBackend := m_clientBackend (client_of w')\<rparr>"
  by (auto simp: backend_do_def bind_result_Inr upd_client_def split: option.splits)

lemma pull_frames_client:
  "pull_frames ora undef p k i req n ad w = Inr (w', e, ad') \<Longrightarrow>
   client_of w' = (client_of w)\<lparr>m_clientBackend := m_clientBackend (client_of w')\<rparr>"
proof (induction n arbitrary: w ad)
  case (Suc n)
  have c: "c2 = c1\<lparr>m_clientBackend := b2\<rparr> \<Longrightarrow> c3 = c2\<lparr>m_clientBackend := b3\<rparr> \<Longrightarrow> c3 = c1\<lparr>m_clientBackend := b3\<rparr>"
    for c1 c2 c3 :: client and b2 b3 by simp
  from Suc.prems show ?case
    by (auto simp: bind_result_Inr addSegment_def split: option.splits if_splits
        dest!: backend_do_client Suc.IH dest: c)
qed simp

lemma pull_loop_client:
  "pull_loop ora undef p k i req fc f ad w = Inr (w', e, ad') \<Longrightarrow>
   client_of w' = (client_of w)\<lparr>m_clientBackend := m_clientBackend (client_of w')\<rparr>"
  using pull_loop_some_frames [of ora undef p k i req fc f ad w] pull_frames_client by fastforce

text \<open>
  A need-data request on the puller's thread takes samples from the front of the sink's queue, in
  order, each at most once: \<open>m\<close> samples leave the queue, at most as many as were asked for; the
  segments of those that can be mapped are added to the request, in order; if the server has no
  space for one, that sample stays at the front (without its protection metadata) and the loop ends;
  otherwise it ends with the request satisfied or the queue empty. One answer is posted: end of stream
  if the queue ran empty before the request was satisfied and the stream has ended, no available
  samples if nothing else was added, and OK otherwise.
\<close>

theorem pull_request_spec:
  assumes "run_inv w"
  shows "\<exists>w' m rej. PullBufferMessage_handle ora undef k p (Pull_Buffer_Message i n req) w = Inr w' \<and>
    (let xs = m_samples (sinks w k); segs = segments p undef i (take m xs) in
     m \<le> unat n \<and> m \<le> length xs \<and>
     (if rej
      then m < length xs \<and> m_samples (sinks w' k) = strip_protection (xs ! m) # drop (Suc m) xs \<and>
        (\<exists>seg. segments p undef i [xs ! m] = [seg] \<and>
           pipeline_log w' = pipeline_log w @ map (Add_Segment req) (segs @ [seg]) \<and>
           ans_status (ora (pipeline_log w @ map (Add_Segment req) segs) (Add_Segment req seg)) = ADD_NO_SPACE)
      else (m = unat n \<or> m = length xs) \<and> m_samples (sinks w' k) = drop m xs \<and>
        pipeline_log w' = pipeline_log w @ map (Add_Segment req) segs) \<and>
     sq_items (m_backendQueue (client_of w')) = sq_items (m_backendQueue (client_of w)) @
       [Have_Data_Message (if \<not> rej \<and> m = length xs \<and> m < unat n \<and> m_isEos (sinks w k) then STATUS_EOS
           else if segs = [] then STATUS_NO_AVAILABLE_SAMPLES else STATUS_OK) i req])"
proof -
  have alive: "pipeline_alive w" and run: "sq_running (m_backendQueue (client_of w))"
    using assms(1) run_inv_alive by (auto simp: run_inv_def)
  have "sink_ok (sinks w k)" using run_inv_good [OF assms(1)] by (simp add: good_def capped_def)
  then have short: "length (m_samples (sinks w k)) \<le> 24"
    by (simp add: sink_ok_def queue_inv_def MAX_INTERNAL_BUFFERS_QUEUE_SIZE_def)
  obtain x where "pull_loop ora undef p k i req n 0 0 w = Inr x"
    using pull_loop_ok [OF run_inv_good [OF assms(1)]] by (rule ok_fromE)
  then obtain w1 e ad where pl: "pull_loop ora undef p k i req n 0 0 w = Inr (w1, e, ad)" by (cases x) blast
  then have pf: "pull_frames ora undef p k i req (unat n) 0 w = Inr (w1, e, ad)"
    using pull_loop_frames [of 0 w k ora undef p i req n 0] short by simp
  let ?xs = "m_samples (sinks w k)"
  obtain m rej where m: "pulled ora undef p i req (unat n) rej m (pipeline_log w) ?xs (pipeline_log w1) (m_samples (sinks w1 k))"
    "ad = 0 + of_nat (length (segments p undef i (take m ?xs)))"
    "e = (\<not> rej \<and> m = length ?xs \<and> m < unat n \<and> m_isEos (sinks w k))"
    using pull_frames_pulled [OF alive pf] by blast
  have "length (segments p undef i ys) \<le> length ys" for ys
    by (induction ys) (auto simp: segments_def split: sum.splits)
  from this [of "take m ?xs"] short have "length (segments p undef i (take m ?xs)) < 2 ^ 32"
    by (simp add: le_less_trans [of _ 24])
  then have ad: "ad = 0 \<longleftrightarrow> segments p undef i (take m ?xs) = []"
    using m(2) small_word_zero by auto
  let ?w' = "post_backend (Have_Data_Message (pull_status e ad) i req) w1"
  have "m_backendQueue (client_of w1) = m_backendQueue (client_of w)"
    using arg_cong [OF pull_loop_client [OF pl], of m_backendQueue] by simp
  then have q: "sq_items (m_backendQueue (client_of ?w')) =
      sq_items (m_backendQueue (client_of w)) @ [Have_Data_Message (pull_status e ad) i req]"
    using run by (simp add: post_backend_def sq_post_def)
  have h: "PullBufferMessage_handle ora undef k p (Pull_Buffer_Message i n req) w = Inr ?w'"
    by (simp add: PullBufferMessage_handle_def pl)
  have p': "pipeline_log ?w' = pipeline_log w1" "sinks ?w' = sinks w1"
    by (simp_all add: post_backend_def pipeline_log_def)
  have seg1: "segments p undef i [x] = [seg]"
    if "mem_mappable (buf_memory (sample_buffer x))" "parseBuffer p undef x i = Inr (b, seg)" for x b seg
    using segments_simps(3) [OF that, of "[]"] by simp
  show ?thesis
    using m(1) h q p' ad seg1
    by (intro exI [of _ ?w'] exI [of _ m] exI [of _ rej])
      (auto simp: pulled_def Let_def pull_status_def m(3) split: if_splits)
qed

lemma run_inv_started: "(\<And>k. sink_ok (ss k)) \<Longrightarrow> run_inv (started maxW maxH ss)"
  by (simp add: run_inv_def started_def Let_def new_client_def good_def backend_ok_def
      capped_def sq_start_def sq_new_def)

text \<open>Sinks that hold one encrypted sample each.\<close>

definition loaded_sinks :: "nat \<Rightarrow> base_sink" where
  "loaded_sinks k = example_sink\<lparr>m_samples := [example_sample]\<rparr>"

lemma loaded_sinks_ok: "sink_ok (loaded_sinks k)"
  unfolding loaded_sinks_def by (rule sink_ok_example) (simp_all add: sample_has_caps_def example_sample_def empty_structure_def)

lemma loaded_sinks_facts:
  "sink_ok (loaded_sinks k)" "m_samples (loaded_sinks k) = [example_sample]" "\<not> m_isEos (loaded_sinks k)"
  "mem_mappable (buf_memory (sample_buffer example_sample))"
  by (rule loaded_sinks_ok)
    (simp_all add: loaded_sinks_def sample_has_caps_def example_sample_def empty_structure_def
      example_sink_def rialto_mse_base_sink_init_def new_private_def)

theorem pull_request_spec_witness:
  "\<exists>w'. PullBufferMessage_handle yes_pipeline 0 0 Audio_Parser (Pull_Buffer_Message 1 2 7) (started 0 0 loaded_sinks) = Inr w' \<and>
     m_samples (sinks w' 0) = []"
proof -
  from pull_request_spec [OF run_inv_started [OF loaded_sinks_facts(1)], of yes_pipeline 0 0 Audio_Parser 1 2 7 0 0]
  obtain w' m rej where w': "PullBufferMessage_handle yes_pipeline 0 0 Audio_Parser (Pull_Buffer_Message 1 2 7)
      (started 0 0 loaded_sinks) = Inr w'"
    "if rej then (\<exists>log c. ans_status (yes_pipeline log c) = ADD_NO_SPACE)
     else (m = 2 \<or> m = 1) \<and> m_samples (sinks w' 0) = drop m [example_sample]"
    by (fastforce simp: Let_def started_facts loaded_sinks_facts split: if_splits)
  moreover have "ans_status (yes_pipeline log c) \<noteq> ADD_NO_SPACE" for log c by (simp add: yes_pipeline_def)
  ultimately show ?thesis by (auto split: if_splits)
qed

lemma parseBuffer_clear:
  assumes "sample_has_caps x" "buf_protection (sample_buffer x) = None"
  shows "\<exists>seg. parseBuffer p undef x i = Inr (sample_buffer x, seg) \<and> \<not> seg_encrypted seg \<and>
    seg_data seg = Some (mem_bytes (buf_memory (sample_buffer x)))"
proof -
  from assms(1) obtain st n where "sample_structure x = Some st" "gst_name st = Some n"
    by (auto simp: sample_has_caps_def split: option.splits)
  with assms(2) show ?thesis
    by (cases p) (simp_all add: parseBuffer_def addProtectionMetadataToSegment_def ProcessProtectionMetadata_def
        new_metadata_def complete_subsamples_def fill_segment_def Let_def parse_audio_part_def parse_video_part_def)
qed

text \<open>
  C35. A sample that the server has no space for loses its protection. The rejected sample stays at
  the front of the queue with the same bytes, but the parser has already taken the protection
  metadata off its buffer: when it is pulled again, it is sent as a clear segment, whether or not the
  segment that was rejected was an encrypted one.
\<close>

theorem no_space_loses_protection:
  assumes "pipeline_alive w" and "rialto_mse_base_sink_get_front_sample (sinks w k) = Some x"
    and "mem_mappable (buf_memory (sample_buffer x))" and "sample_has_caps x"
    and "parseBuffer p undef x i = Inr (b, seg)"
    and "ans_status (ora (pipeline_log w) (Add_Segment req seg)) = ADD_NO_SPACE" and "ucast fr < frameCount"
  shows "\<exists>w' x' b' seg'. pull_loop ora undef p k i req frameCount fr 0 w = Inr (w', False, 0) \<and>
    rialto_mse_base_sink_get_front_sample (sinks w' k) = Some x' \<and>
    parseBuffer p undef x' i = Inr (b', seg') \<and> \<not> seg_encrypted seg' \<and>
    seg_data seg' = Some (mem_bytes (buf_memory (sample_buffer x)))"
proof -
  let ?w = "upd_sink k (set_front_buffer b) w"
  have "pipeline_alive ?w" using assms(1) by simp
  from addSegment_alive [OF this, of ora req seg] assms(6) obtain w2 where
    w2: "addSegment ora req seg ?w = Inr (w2, ADD_NO_SPACE)" "sinks w2 = sinks ?w" by auto
  from assms(2) obtain xs where xs: "m_samples (sinks w k) = x # xs"
    by (cases "m_samples (sinks w k)") (auto simp: rialto_mse_base_sink_get_front_sample_def)
  have st: "x\<lparr>sample_buffer := b\<rparr> = strip_protection x"
    using parseBuffer_strips [OF assms(5)] by (simp add: strip_protection_def)
  have front: "rialto_mse_base_sink_get_front_sample (sinks w2 k) = Some (strip_protection x)"
    by (simp add: w2(2) rialto_mse_base_sink_get_front_sample_def xs st)
  have "sample_has_caps (strip_protection x)" "buf_protection (sample_buffer (strip_protection x)) = None"
    using assms(4) by (simp_all add: sample_has_caps_def strip_protection_def)
  from parseBuffer_clear [OF this, of p undef i] obtain seg' where
    "parseBuffer p undef (strip_protection x) i = Inr (sample_buffer (strip_protection x), seg')"
    "\<not> seg_encrypted seg'" "seg_data seg' = Some (mem_bytes (buf_memory (sample_buffer x)))"
    by (auto simp: strip_protection_def)
  moreover have "pull_loop ora undef p k i req frameCount fr 0 w = Inr (w2, False, 0)"
    using assms(2,3,5,7) w2(1) by (simp add: pull_loop.simps [of _ _ _ _ _ _ frameCount fr])
  ultimately show ?thesis using front by blast
qed

text \<open>An encrypted sample, rejected once.\<close>

definition full_pipeline :: pipeline where
  "full_pipeline log c = (yes_pipeline log c)\<lparr>ans_status := ADD_NO_SPACE\<rparr>"

theorem no_space_loses_protection_witness:
  "\<exists>b seg w' x' b' seg'. parseBuffer Audio_Parser 0 example_sample 1 = Inr (b, seg) \<and> seg_encrypted seg \<and>
     pull_loop full_pipeline 0 Audio_Parser 0 1 7 3 0 0 (started 0 0 loaded_sinks) = Inr (w', False, 0) \<and>
     rialto_mse_base_sink_get_front_sample (sinks w' 0) = Some x' \<and>
     parseBuffer Audio_Parser 0 x' 1 = Inr (b', seg') \<and> \<not> seg_encrypted seg'"
proof -
  have caps: "sample_has_caps example_sample"
    by (simp add: sample_has_caps_def example_sample_def empty_structure_def)
  from parseBuffer_total [OF this] obtain b seg where ps: "parseBuffer Audio_Parser 0 example_sample 1 = Inr (b, seg)"
    by blast
  have "yields (\<lambda>(b, seg). seg_encrypted seg) (parseBuffer Audio_Parser 0 example_sample 1)" by code_simp
  with ps have enc: "seg_encrypted seg" by simp
  have "rialto_mse_base_sink_get_front_sample (sinks (started 0 0 loaded_sinks) 0) = Some example_sample"
    "ans_status (full_pipeline (pipeline_log (started 0 0 loaded_sinks)) (Add_Segment 7 seg)) = ADD_NO_SPACE"
    by (simp_all add: started_facts loaded_sinks_facts rialto_mse_base_sink_get_front_sample_def full_pipeline_def)
  note no_space_loses_protection [where w = "started 0 0 loaded_sinks" and ora = full_pipeline and req = 7 and k = 0 and fr = 0 and frameCount = 3,
      OF started_facts(1) this(1) loaded_sinks_facts(4) caps ps this(2)]
  with enc ps show ?thesis by simp blast
qed

definition seek_settled :: "mse \<Rightarrow> bool" where
  "seek_settled w \<longleftrightarrow> m_serverSeekingState (client_of w) = IDLE \<and>
     list_all (\<lambda>(i, a). as_seekingState a = IDLE \<and> sq_running (bp_queue (as_bufferPuller a)))
       (m_attachedSources (client_of w))"

definition all_seeking :: "mse \<Rightarrow> bool" where
  "all_seeking w \<longleftrightarrow> list_all (\<lambda>(i, a). as_seekingState a = SEEKING) (m_attachedSources (client_of w))"

lemma for_sinks_done:
  assumes "\<And>s. P (f s)"
  shows "list_all (\<lambda>(i, a). P (sinks (for_sinks f w) (as_rialtoSink a))) (m_attachedSources (client_of w))"
proof -
  have keep: "P (sinks v k) \<Longrightarrow> P (sinks (fold (\<lambda>(i, a). upd_sink (as_rialtoSink a) f) xs v) k)" for xs v k
    by (induction xs arbitrary: v) (auto simp: case_prod_beta assms)
  have "list_all (\<lambda>(i, a). P (sinks (fold (\<lambda>(i, a). upd_sink (as_rialtoSink a) f) xs v) (as_rialtoSink a))) xs" for xs v
    by (induction xs arbitrary: v) (auto simp: case_prod_beta assms intro: keep)
  then show ?thesis by (simp add: for_sinks_def)
qed

lemma start_all_seeking:
  assumes "m_serverSeekingState (client_of w) = SEEK_DONE"
  shows "all_seeking w \<Longrightarrow> seek_settled (upd_client startPullingDataIfSeekFinished w)"
    and "\<not> all_seeking w \<Longrightarrow> upd_client startPullingDataIfSeekFinished w = w"
  using assms
  by (auto simp: all_seeking_def seek_settled_def startPullingDataIfSeekFinished_def list_all_iff list_ex_iff
      assoc_map_def start_puller_def BufferPuller_start_def sq_start_def upd_client_def)

text \<open>
  FLUSHED ends the server's part of a seek. If every attached source is seeking by then, all
  pullers run again and no seek is going on any more; if some source is not, nothing is restarted
  and the server's part is remembered as done. Every attached sink whose callback is set has no
  thread waiting for the seek afterwards.
\<close>

theorem flushed_resumes_when_all_seeking:
  assumes "m_serverSeekingState (client_of w) = SEEKING"
  defines "w' \<equiv> handlePlaybackStateChange PS_FLUSHED w"
  shows "(if all_seeking w then seek_settled w'
       else m_serverSeekingState (client_of w') = SEEK_DONE \<and>
         m_attachedSources (client_of w') = m_attachedSources (client_of w)) \<and>
    list_all (\<lambda>(i, a). \<not> (cb_seekCompleted (sinks w' (as_rialtoSink a)) \<and> m_seekWaiting (sinks w' (as_rialtoSink a))))
      (m_attachedSources (client_of w'))"
proof -
  let ?w1 = "upd_client (\<lambda>cl. cl\<lparr>m_serverSeekingState := SEEK_DONE\<rparr>) w"
  let ?w2 = "upd_client startPullingDataIfSeekFinished ?w1"
  let ?f = rialto_mse_base_handle_rialto_server_completed_seek
  have w': "w' = for_sinks ?f ?w2" using assms(1) by (simp add: w'_def handlePlaybackStateChange_def)
  have d: "m_serverSeekingState (client_of ?w1) = SEEK_DONE" "all_seeking ?w1 = all_seeking w"
    by (simp_all add: all_seeking_def)
  have "list_all (\<lambda>(i, a). \<not> (cb_seekCompleted (sinks (for_sinks ?f ?w2) (as_rialtoSink a)) \<and>
      m_seekWaiting (sinks (for_sinks ?f ?w2) (as_rialtoSink a)))) (m_attachedSources (client_of ?w2))"
    by (rule for_sinks_done)
      (simp add: rialto_mse_base_handle_rialto_server_completed_seek_def rialto_mse_base_sink_seek_completed_handler_def)
  moreover have "if all_seeking w then seek_settled w'
       else m_serverSeekingState (client_of w') = SEEK_DONE \<and>
         m_attachedSources (client_of w') = m_attachedSources (client_of w)"
  proof (cases "all_seeking w")
    case True
    then have "seek_settled ?w2" using start_all_seeking(1) [OF d(1)] d(2) by blast
    with True show ?thesis by (simp add: w' seek_settled_def)
  next
    case False
    then have "?w2 = ?w1" using start_all_seeking(2) [OF d(1)] d(2) by blast
    with False show ?thesis by (simp only: w' sources_of_for_sinks) simp
  qed
  ultimately show ?thesis by (simp add: w')
qed

text \<open>
  The other order: when the server's part of a seek is done, the last attached source that starts
  seeking restarts the pullers of all sources and ends the seek.
\<close>

theorem last_source_resumes:
  assumes "run_inv w" and "m_serverSeekingState (client_of w) = SEEK_DONE"
    and "map_of (m_attachedSources (client_of w)) i = Some a"
    and "list_all (\<lambda>(j, b). j = i \<or> as_seekingState b = SEEKING) (m_attachedSources (client_of w))"
  shows "yields (\<lambda>(w', _). seek_settled w') (notifySourceStartedSeeking ora undef i w)"
proof -
  let ?w = "upd_client (set_seeking i) w"
  have g: "good ?w" "distinct (map fst (sources_of ?w))" "sq_running (m_backendQueue (client_of w))"
    using assms(1) by (auto simp: run_inv_def good_def backend_ok_def set_seeking_def)
  obtain w1 where w1: "frame ?w w1" "BufferPuller_stop ora undef i ?w =
      Inr (upd_client (\<lambda>cl. cl\<lparr>m_attachedSources := assoc_modify i halt_source (m_attachedSources cl)\<rparr>) w1)"
    using BufferPuller_stop_ok [OF g(1,2)] by blast
  let ?w2 = "upd_client (\<lambda>cl. cl\<lparr>m_attachedSources := assoc_modify i halt_source (m_attachedSources cl)\<rparr>) w1"
  have "sources_of ?w2 = assoc_modify i (\<lambda>a. halt_source (a\<lparr>as_seekingState := SEEKING\<rparr>)) (sources_of w)"
    using frameD(1) [OF w1(1)] by (simp add: set_seeking_def assoc_modify_assoc_modify)
  then have "all_seeking ?w2" using assms(4)
    by (auto simp: all_seeking_def list_all_iff assoc_modify_def halt_source_def)
  moreover have "m_serverSeekingState (client_of ?w2) = SEEK_DONE"
    using frameD(2) [OF w1(1)] assms(2) by (simp add: set_seeking_def)
  ultimately have "seek_settled (upd_client startPullingDataIfSeekFinished ?w2)"
    using start_all_seeking(1) by blast
  then show ?thesis using assms(3) g(3) w1(2)
    by (simp add: notifySourceStartedSeeking_def callInEventLoop_def unit_body_def
        notifySourceStartedSeeking_body_def)
qed

lemma reached_running:
  assumes "perform_all ora undef lost evs (started mw mh ss) = Inr w" "\<forall>k. sink_ok (ss k)"
    "\<not> m_streamingStopped (client_of w)"
  shows "run_inv w"
  using client_inv_perform_all [OF client_inv_started, of ss ora undef lost evs mw mh] assms
  by (auto simp: client_inv_def stopped_inv_def)

text \<open>A pipeline that numbers its sources 1, 2, ... in the order they are attached.\<close>

fun is_attach :: "pipeline_call \<Rightarrow> bool" where
  "is_attach (Attach_Source _) = True"
| "is_attach _ = False"

definition numbering_pipeline :: pipeline where
  "numbering_pipeline log c = (yes_pipeline log c)\<lparr>ans_id := word_of_nat (Suc (length (filter is_attach log)))\<rparr>"

definition audio_source :: media_source where
  "audio_source = MediaSourceAudio ''audio/mp4'' True \<lparr>ac_channels = 2, ac_sampleRate = 48000, ac_codecSpecificConfig = []\<rparr>
     ALIGN_UNDEFINED FORMAT_RAW None"

definition seeking_run :: "client_event list" where
  "seeking_run = [Attach video_source 0, Attach audio_source 1, Started_Seeking 1, Seek_To 5]"

lemma seeking_run_result:
  "yields (\<lambda>w. map (\<lambda>(i, a). (i, as_seekingState a)) (m_attachedSources (client_of w)) = [(1, SEEKING), (2, IDLE)] \<and>
     m_serverSeekingState (client_of w) = SEEKING \<and> \<not> m_streamingStopped (client_of w))
   (perform_all numbering_pipeline 0 id seeking_run (started 0 0 quiet_sinks))"
  by code_simp

theorem flushed_resumes_when_all_seeking_witness:
  "\<exists>w. perform_all numbering_pipeline 0 id seeking_run (started 0 0 quiet_sinks) = Inr w \<and> \<not> all_seeking w \<and>
     m_serverSeekingState (client_of (handlePlaybackStateChange PS_FLUSHED w)) = SEEK_DONE"
proof -
  obtain w where w: "perform_all numbering_pipeline 0 id seeking_run (started 0 0 quiet_sinks) = Inr w"
    "map (\<lambda>(i, a). (i, as_seekingState a)) (m_attachedSources (client_of w)) = [(1, SEEKING), (2, IDLE)]"
    "m_serverSeekingState (client_of w) = SEEKING" using seeking_run_result by (auto elim: yieldsE)
  from w(2) have "\<not> all_seeking w" by (auto simp: all_seeking_def)
  with flushed_resumes_when_all_seeking [OF w(3)] w show ?thesis by auto
qed

text \<open>The same run, with FLUSHED delivered: the server's part is done.\<close>

definition flushed_run :: "client_event list" where
  "flushed_run = seeking_run @ [Notify (Playback_State_Message PS_FLUSHED), Worker_Turn]"

lemma flushed_run_result:
  "yields (\<lambda>w. map (\<lambda>(i, a). (i, as_seekingState a)) (m_attachedSources (client_of w)) = [(1, SEEKING), (2, IDLE)] \<and>
     m_serverSeekingState (client_of w) = SEEK_DONE \<and> \<not> m_streamingStopped (client_of w))
   (perform_all numbering_pipeline 0 id flushed_run (started 0 0 quiet_sinks))"
  by code_simp

lemma flushed_runE:
  obtains w a b where "perform_all numbering_pipeline 0 id flushed_run (started 0 0 quiet_sinks) = Inr w" "run_inv w"
    "m_serverSeekingState (client_of w) = SEEK_DONE" "m_attachedSources (client_of w) = [(1, a), (2, b)]"
    "as_seekingState a = SEEKING" "as_seekingState b = IDLE"
proof -
  obtain w where w: "perform_all numbering_pipeline 0 id flushed_run (started 0 0 quiet_sinks) = Inr w"
    "map (\<lambda>(i, a). (i, as_seekingState a)) (m_attachedSources (client_of w)) = [(1, SEEKING), (2, IDLE)]"
    "m_serverSeekingState (client_of w) = SEEK_DONE" "\<not> m_streamingStopped (client_of w)"
    using flushed_run_result by (auto elim: yieldsE)
  from w(2) obtain a b where ab: "m_attachedSources (client_of w) = [(1, a), (2, b)]"
    "as_seekingState a = SEEKING" "as_seekingState b = IDLE"
    by (auto simp: Cons_eq_map_conv)
  show thesis
    using that [OF w(1) reached_running [OF w(1) quiet_sinks_caps w(4)] w(3) ab] .
qed

theorem last_source_resumes_witness:
  "\<exists>w. perform_all numbering_pipeline 0 id flushed_run (started 0 0 quiet_sinks) = Inr w \<and>
     yields (\<lambda>(w', _). seek_settled w') (notifySourceStartedSeeking numbering_pipeline 0 2 w)"
proof (rule flushed_runE)
  fix w a b
  assume w: "perform_all numbering_pipeline 0 id flushed_run (started 0 0 quiet_sinks) = Inr w" "run_inv w"
    "m_serverSeekingState (client_of w) = SEEK_DONE" "m_attachedSources (client_of w) = [(1, a), (2, b)]"
    "as_seekingState a = SEEKING" "as_seekingState b = IDLE"
  have "map_of (m_attachedSources (client_of w)) 2 = Some b"
    "list_all (\<lambda>(j, b). j = 2 \<or> as_seekingState b = SEEKING) (m_attachedSources (client_of w))"
    using w by simp_all
  from last_source_resumes [OF w(2,3) this] w(1) show ?thesis by blast
qed

text \<open>
  Removing a source does not resume a seek. When the server's part is done and every source but
  \<open>i\<close> is seeking, so that only \<open>i\<close> is waited for, removing \<open>i\<close> leaves the seek unfinished: the state
  stays SEEK_DONE although every attached source is seeking, and no puller runs.
\<close>

theorem remove_source_strands_seek:
  assumes "run_inv w" and "m_serverSeekingState (client_of w) = SEEK_DONE"
    and "list_all (\<lambda>(j, b). j = i \<or> as_seekingState b = SEEKING) (m_attachedSources (client_of w))"
  shows "yields (\<lambda>(w', _). m_serverSeekingState (client_of w') = SEEK_DONE \<and> all_seeking w' \<and>
      map fst (m_attachedSources (client_of w')) = filter (\<lambda>j. j \<noteq> i) (map fst (m_attachedSources (client_of w))) \<and>
      list_all (\<lambda>(j, b). \<not> sq_running (bp_queue (as_bufferPuller b))) (m_attachedSources (client_of w')))
    (removeSource ora undef i w)"
proof -
  have run: "sq_running (m_backendQueue (client_of w))" and ok: "list_all (\<lambda>(i, a). source_ok a) (sources_of w)"
    using assms(1) by (simp_all add: run_inv_def)
  obtain x where "backend_do ora (Remove_Source i) w = Inr x" "frame w (fst x)" "good (fst x)"
    using backend_do_ok [OF run_inv_good [OF assms(1)], of "Remove_Source i" ora] by (auto elim: ok_fromE)
  then obtain w1 ans where w1: "backend_do ora (Remove_Source i) w = Inr (w1, ans)" "frame w w1" "good w1"
    by (cases x) auto
  have "distinct (map fst (sources_of w1))" using frameD(1) [OF w1(2)] assms(1) by (simp add: run_inv_def)
  from BufferPuller_stop_ok [OF w1(3) this] obtain w2 where w2: "frame w1 w2" "BufferPuller_stop ora undef i w1 =
      Inr (upd_client (\<lambda>cl. cl\<lparr>m_attachedSources := assoc_modify i halt_source (m_attachedSources cl)\<rparr>) w2)" by blast
  have f: "frame w w2" using frame_trans [OF w1(2) w2(1)] .
  let ?w' = "upd_client (\<lambda>cl. cl\<lparr>m_attachedSources := assoc_erase i (m_attachedSources cl)\<rparr>) w2"
  have r: "removeSource ora undef i w = Inr (?w', ())"
    using run w1(1) w2(2) by (simp add: removeSource_def callInEventLoop_def upd_client_def assoc_erase_modify)
  have "all_seeking ?w'" using assms(3) frameD(1) [OF f]
    by (auto simp: all_seeking_def list_all_iff assoc_erase_def)
  moreover from this have "list_all (\<lambda>(j, b). \<not> sq_running (bp_queue (as_bufferPuller b))) (sources_of ?w')"
    using ok frameD(1) [OF f] by (auto simp: all_seeking_def list_all_iff assoc_erase_def source_ok_def)
  ultimately show ?thesis
    using frameD [OF f] assms(2) by (simp add: r keys_assoc_erase)
qed

theorem remove_source_strands_seek_witness:
  "\<exists>w. perform_all numbering_pipeline 0 id flushed_run (started 0 0 quiet_sinks) = Inr w \<and>
     yields (\<lambda>(w', _). m_serverSeekingState (client_of w') = SEEK_DONE \<and> all_seeking w' \<and>
       map fst (m_attachedSources (client_of w')) = [1]) (removeSource numbering_pipeline 0 2 w)"
proof (rule flushed_runE)
  fix w a b
  assume w: "perform_all numbering_pipeline 0 id flushed_run (started 0 0 quiet_sinks) = Inr w" "run_inv w"
    "m_serverSeekingState (client_of w) = SEEK_DONE" "m_attachedSources (client_of w) = [(1, a), (2, b)]"
    "as_seekingState a = SEEKING" "as_seekingState b = IDLE"
  have "list_all (\<lambda>(j, b). j = 2 \<or> as_seekingState b = SEEKING) (m_attachedSources (client_of w))"
    using w by simp
  from remove_source_strands_seek [OF w(2,3) this, of numbering_pipeline 0]
  have "yields (\<lambda>(w', _). m_serverSeekingState (client_of w') = SEEK_DONE \<and> all_seeking w' \<and>
       map fst (m_attachedSources (client_of w')) = [1]) (removeSource numbering_pipeline 0 2 w)"
    by (rule yields_mono) (auto simp: w(4))
  with w(1) show ?thesis by blast
qed

section \<open>Every need-data request is answered\<close>

text \<open>
  A weight for the messages that wait in the backend queue and in the queues of the pullers. With the right
  weights it counts the answers to come for a request, those of them that will be dropped, or the turns that
  the worker and the pullers still have to do.
\<close>

definition load :: "(backend_message \<Rightarrow> nat) \<Rightarrow> (pull_message \<Rightarrow> nat) \<Rightarrow> mse \<Rightarrow> nat" where
  "load f g w = sum_list (map f (sq_items (m_backendQueue (client_of w)))) +
     sum_list (map (\<lambda>(i, a). sum_list (map g (sq_items (bp_queue (as_bufferPuller a))))) (m_attachedSources (client_of w)))"

definition answered :: "u32 \<Rightarrow> mse \<Rightarrow> nat" where
  "answered r w = length (filter (\<lambda>c. case c of Have_Data _ q \<Rightarrow> q = r | _ \<Rightarrow> False) (pipeline_log w))"

text \<open>What a message of the backend queue turns into: a request becomes a pull or, when it is refused, an answer.\<close>

definition backend_spawns :: "(backend_message \<Rightarrow> nat) \<Rightarrow> (pull_message \<Rightarrow> nat) \<Rightarrow> backend_message \<Rightarrow> nat set" where
  "backend_spawns f g m = (case m of
     Need_Data_Message i n q \<Rightarrow> {f (Have_Data_Message STATUS_ERROR i q), g (Pull_Buffer_Message i n q)} | _ \<Rightarrow> {0})"

lemma sum_list_assoc_modify:
  fixes g :: "'v \<Rightarrow> nat"
  assumes "distinct (map fst xs)" "map_of xs i = Some a"
  shows "sum_list (map (\<lambda>(j, b). g b) (assoc_modify i f xs)) + g a = sum_list (map (\<lambda>(j, b). g b) xs) + g (f a)"
  using assms
proof (induction xs)
  case (Cons x xs)
  obtain j b where x: "x = (j, b)" by (cases x)
  show ?case
  proof (cases "j = i")
    case True
    then have "map_of xs i = None" using Cons.prems(1) x by (simp add: map_of_eq_None_iff)
    from assoc_modify_absent [OF this, of f] have "assoc_modify i f xs = xs" .
    then have "assoc_modify i f (x # xs) = (i, f b) # xs" using x True by (simp add: assoc_modify_def)
    with x True Cons.prems(2) show ?thesis by simp
  next
    case False
    have "assoc_modify i f (x # xs) = (j, b) # assoc_modify i f xs" using x False by (simp add: assoc_modify_def)
    with x False Cons show ?thesis by simp
  qed
qed simp

lemma load_post: "sq_running (m_backendQueue (client_of w)) \<Longrightarrow> load f g (post_backend m w) = load f g w + f m"
  by (simp add: load_def post_backend_def sq_post_def)

lemma answered_post [simp]: "answered r (post_backend m w) = answered r w"
  by (simp add: answered_def pipeline_log_def post_backend_def)

lemma load_set_puller_queue:
  assumes "distinct (map fst (sources_of w))" "map_of (sources_of w) i = Some a"
  shows "load f g (set_puller_queue i q w) + sum_list (map g (sq_items (bp_queue (as_bufferPuller a)))) =
    load f g w + sum_list (map g (sq_items q))"
  using sum_list_assoc_modify [OF assms, of "\<lambda>a. sum_list (map g (sq_items (bp_queue (as_bufferPuller a))))"
      "\<lambda>a. a\<lparr>as_bufferPuller := (as_bufferPuller a)\<lparr>bp_queue := q\<rparr>\<rparr>"]
  by (simp add: load_def set_puller_queue_def)

lemma answered_set_puller_queue [simp]: "answered r (set_puller_queue i q w) = answered r w"
  by (simp add: answered_def pipeline_log_def set_puller_queue_def)

lemma need_data_load:
  assumes "run_inv w"
  shows "(\<exists>x \<in> backend_spawns f g (Need_Data_Message i n q). load f g (NeedDataMessage_handle i n q w) = load f g w + x) \<and>
    answered r (NeedDataMessage_handle i n q w) = answered r w"
proof -
  have run: "sq_running (m_backendQueue (client_of w))" and d: "distinct (map fst (sources_of w))"
    using assms by (simp_all add: run_inv_def)
  have refused: "?thesis" if "requestPullBuffer i n q w = (w, False)"
    using that run by (simp add: NeedDataMessage_handle_def load_post backend_spawns_def)
  show ?thesis
  proof (cases "map_of (sources_of w) i")
    case None
    then show ?thesis by (intro refused) (simp add: requestPullBuffer_def)
  next
    case (Some a)
    let ?q = "bp_queue (as_bufferPuller a)"
    show ?thesis
    proof (cases "m_serverSeekingState (client_of w) \<noteq> IDLE")
      case True
      with Some show ?thesis by (intro refused) (simp add: requestPullBuffer_def)
    next
      case False
      have r: "requestPullBuffer i n q w =
          (set_puller_queue i (fst (sq_post ?q (Pull_Buffer_Message i n q))) w, snd (sq_post ?q (Pull_Buffer_Message i n q)))"
        using Some False by (simp add: requestPullBuffer_def BufferPuller_requestPullBuffer_def Let_def split_beta)
      note o = load_set_puller_queue [OF d Some, of f g]
      show ?thesis
      proof (cases "sq_running ?q")
        case True
        then show ?thesis using o [of "fst (sq_post ?q (Pull_Buffer_Message i n q))"]
          by (simp add: NeedDataMessage_handle_def r sq_post_def backend_spawns_def)
      next
        case False
        then have "requestPullBuffer i n q w = (set_puller_queue i ?q w, False)" using r by (simp add: sq_post_def)
        moreover have "sq_running (m_backendQueue (client_of (set_puller_queue i ?q w)))"
          using run by (simp add: set_puller_queue_def)
        ultimately show ?thesis using o [of ?q]
          by (simp add: NeedDataMessage_handle_def load_post backend_spawns_def)
      qed
    qed
  qed
qed

lemma playback_state_load:
  "load f g (handlePlaybackStateChange st w) = load f g w \<and> answered r (handlePlaybackStateChange st w) = answered r w"
proof -
  have fs: "load f g (for_sinks h v) = load f g v" "answered r (for_sinks h v) = answered r v" for h v
    by (simp_all add: load_def answered_def pipeline_log_def)
  have m: "map (\<lambda>(i, a). sum_list (map g (sq_items (bp_queue (as_bufferPuller a)))))
        (assoc_map (\<lambda>a. (start_puller a)\<lparr>as_seekingState := IDLE\<rparr>) xs) =
      map (\<lambda>(i, a). sum_list (map g (sq_items (bp_queue (as_bufferPuller a))))) xs" for xs :: "(i32 \<times> attached_source) list"
    by (induction xs) (auto simp: assoc_map_def start_puller_def BufferPuller_start_def sq_start_def)
  have st: "load f g (upd_client startPullingDataIfSeekFinished v) = load f g v"
    "answered r (upd_client startPullingDataIfSeekFinished v) = answered r v" for v
    by (simp_all add: load_def answered_def pipeline_log_def startPullingDataIfSeekFinished_def m)
  have q: "load f g (upd_client h v) = load f g v" "answered r (upd_client h v) = answered r v"
    if "\<And>cl. m_backendQueue (h cl) = m_backendQueue cl" "\<And>cl. m_attachedSources (h cl) = m_attachedSources cl"
      "\<And>cl. m_clientBackend (h cl) = m_clientBackend cl" for h v
    using that by (simp_all add: load_def answered_def pipeline_log_def)
  show ?thesis
    by (cases st) (simp_all add: handlePlaybackStateChange_def Let_def fs st q)
qed

text \<open>An answer reaches the pipeline if its source is attached; otherwise it is dropped.\<close>

definition delivers :: "u32 \<Rightarrow> i32 set \<Rightarrow> backend_message \<Rightarrow> bool" where
  "delivers r attached m = (case m of Have_Data_Message _ i q \<Rightarrow> q = r \<and> i \<in> attached | _ \<Rightarrow> False)"

abbreviation source_ids :: "mse \<Rightarrow> i32 set" where
  "source_ids w \<equiv> fst ` set (m_attachedSources (client_of w))"

lemma handle_load:
  assumes "run_inv w" "handle_backend_message ora m w = Inr w'"
  shows "(\<exists>x \<in> backend_spawns f g m. load f g w' = load f g w + x) \<and>
    answered r w' = answered r w + of_bool (delivers r (source_ids w) m)"
proof (cases m)
  case (Have_Data_Message st i q)
  obtain log where log: "m_clientBackend (client_of w) = Some \<lparr>m_mediaPlayerBackend = Some log\<rparr>"
    "\<And>c. backend_do ora c w = Inr (upd_client (\<lambda>cl. cl\<lparr>m_clientBackend :=
       Some \<lparr>m_mediaPlayerBackend = Some (log @ [c])\<rparr>\<rparr>) w, ora log c)"
    using backend_do_Inr [OF run_inv_good [OF assms(1)], of ora] by blast
  show ?thesis
  proof (cases "map_of (sources_of w) i")
    case None
    with Have_Data_Message assms(2) show ?thesis
      by (auto simp: HaveDataMessage_handle_def backend_spawns_def delivers_def map_of_eq_None_iff)
  next
    case (Some a)
    then have "i \<in> source_ids w" by (force dest: map_of_SomeD)
    with Some log Have_Data_Message assms(2) show ?thesis
      by (auto simp: HaveDataMessage_handle_def backend_spawns_def delivers_def load_def answered_def pipeline_log_def)
  qed
next
  case (Need_Data_Message i n q)
  with assms need_data_load [OF assms(1), of f g i n q r] show ?thesis by (simp add: delivers_def)
next
  case (Playback_State_Message st)
  with assms playback_state_load [of f g st w r] show ?thesis by (simp add: delivers_def backend_spawns_def)
qed (use assms(2) in \<open>auto simp: delivers_def backend_spawns_def handleQos_def handleBufferUnderflow_def
    load_def answered_def pipeline_log_def split: option.splits\<close>)

lemma pull_load:
  assumes "run_inv w" "PullBufferMessage_handle ora undef k p (Pull_Buffer_Message i n q) w = Inr w'"
  shows "\<exists>st. load f g w' = load f g w + f (Have_Data_Message st i q)" "answered r w' = answered r w"
proof -
  from assms(2) obtain w1 e ad where pl: "pull_loop ora undef p k i q n 0 0 w = Inr (w1, e, ad)"
    "w' = post_backend (Have_Data_Message (pull_status e ad) i q) w1"
    by (auto simp: PullBufferMessage_handle_def bind_result_Inr)
  have "m_backendQueue (client_of w1) = m_backendQueue (client_of w)" "sources_of w1 = sources_of w"
    using arg_cong [OF pull_loop_client [OF pl(1)], of m_backendQueue]
      arg_cong [OF pull_loop_client [OF pl(1)], of m_attachedSources] by simp_all
  moreover from this have "sq_running (m_backendQueue (client_of w1))" using assms(1) by (simp add: run_inv_def)
  ultimately show "\<exists>st. load f g w' = load f g w + f (Have_Data_Message st i q)"
    using load_post [of w1 f g] by (intro exI [of _ "pull_status e ad"]) (simp add: pl(2) load_def)
  obtain c where "pull_frames ora undef p k i q c 0 w = Inr (w1, e, ad)"
    using pull_loop_some_frames [of ora undef p k i q n 0 0 w] pl(1) by auto
  from pull_frames_pulled [OF run_inv_alive [OF assms(1)] this] obtain m rej where
    "pulled ora undef p i q c rej m (pipeline_log w) (m_samples (sinks w k)) (pipeline_log w1) (m_samples (sinks w1 k))" by blast
  then obtain segs where "pipeline_log w1 = pipeline_log w @ map (Add_Segment q) segs"
    by (auto simp: pulled_def split: if_splits) (metis list.simps(8,9) map_append)
  then show "answered r w' = answered r w" by (simp add: pl(2)) (simp add: answered_def filter_map comp_def)
qed

lemma handle_source_ids:
  assumes "handle_backend_message ora m w = Inr w'"
  shows "source_ids w' = source_ids w"
proof (cases m)
  case (Have_Data_Message st i q)
  show ?thesis
  proof (cases "map_of (sources_of w) i")
    case None
    with Have_Data_Message assms show ?thesis by (simp add: HaveDataMessage_handle_def)
  next
    case (Some a)
    with Have_Data_Message assms obtain ans where "backend_do ora (Have_Data st q) w = Inr (w', ans)"
      by (auto simp: HaveDataMessage_handle_def bind_result_Inr)
    from arg_cong [OF backend_do_client [OF this], of m_attachedSources] show ?thesis by simp
  qed
next
  case (Need_Data_Message i n q)
  with assms show ?thesis
    by (auto simp: NeedDataMessage_handle_def requestPullBuffer_def set_puller_queue_def post_backend_def keys_assoc_modify Let_def
        simp flip: set_map split: option.splits prod.splits if_splits)
next
  case (Playback_State_Message st)
  have "fst ` set (m_attachedSources (startPullingDataIfSeekFinished cl)) = fst ` set (m_attachedSources cl)" for cl
    by (auto simp: startPullingDataIfSeekFinished_def assoc_map_def image_image split_beta)
  moreover have w': "w' = handlePlaybackStateChange st w" using Playback_State_Message assms by simp
  ultimately show ?thesis unfolding w' by (cases st) (simp_all add: handlePlaybackStateChange_def Let_def)
qed (use assms in \<open>auto simp: handleQos_def handleBufferUnderflow_def split: option.splits\<close>)

text \<open>A turn of the worker (\<open>None\<close>) or of the puller of a source, if there is something to do, and a run of such turns.\<close>

definition client_turn :: "pipeline \<Rightarrow> i32 \<Rightarrow> i32 option \<Rightarrow> mse \<Rightarrow> mse result option" where
  "client_turn ora undef t w = (case t of None \<Rightarrow> worker_turn ora w | Some i \<Rightarrow> puller_turn ora undef i w)"

fun client_turns :: "pipeline \<Rightarrow> i32 \<Rightarrow> i32 option list \<Rightarrow> mse \<Rightarrow> mse result option" where
  "client_turns ora undef [] w = Some (Inr w)"
| "client_turns ora undef (t # ts) w = (case client_turn ora undef t w of
     None \<Rightarrow> None | Some (Inl e) \<Rightarrow> Some (Inl e) | Some (Inr w') \<Rightarrow> client_turns ora undef ts w')"

definition at_rest :: "pipeline \<Rightarrow> i32 \<Rightarrow> mse \<Rightarrow> bool" where
  "at_rest ora undef w \<longleftrightarrow> (\<forall>t. client_turn ora undef t w = None)"

text \<open>What a turn takes out of a queue and what it puts in.\<close>

definition turn_effect :: "u32 \<Rightarrow> mse \<Rightarrow> mse \<Rightarrow> bool" where
  "turn_effect r w w' \<longleftrightarrow> source_ids w' = source_ids w \<and>
     ((\<exists>m. (\<forall>f g. \<exists>x \<in> backend_spawns f g m. load f g w' + f m = load f g w + x) \<and>
        answered r w' = answered r w + of_bool (delivers r (source_ids w) m)) \<or>
      (\<exists>i n q. (\<forall>f g. \<exists>st. load f g w' + g (Pull_Buffer_Message i n q) = load f g w + f (Have_Data_Message st i q)) \<and>
        answered r w' = answered r w))"

lemma worker_turn_effect:
  assumes "run_inv w" "worker_turn ora w = Some res"
  shows "\<exists>w'. res = Inr w' \<and> run_inv w' \<and> turn_effect r w w'"
proof -
  from assms(2) obtain m ms where ms: "sq_items (m_backendQueue (client_of w)) = m # ms"
    by (cases "sq_items (m_backendQueue (client_of w))") (auto simp: worker_turn_def sq_take_def)
  let ?q = "(m_backendQueue (client_of w))\<lparr>sq_items := ms\<rparr>"
  let ?w = "upd_client (\<lambda>cl. cl\<lparr>m_backendQueue := ?q\<rparr>) w"
  have inv: "run_inv ?w" using assms(1) by (simp add: run_inv_def good_def backend_ok_def)
  obtain w' where w': "handle_backend_message ora m ?w = Inr w'" "run_inv w'"
    using run_inv_handle [OF inv] by (rule yieldsE)
  have "load f g w = load f g ?w + f m" for f g using ms by (simp add: load_def)
  moreover have "answered r ?w = answered r w" by (simp add: answered_def pipeline_log_def)
  ultimately have "(\<forall>f g. \<exists>x \<in> backend_spawns f g m. load f g w' + f m = load f g w + x) \<and>
      answered r w' = answered r w + of_bool (delivers r (source_ids w) m)"
    using handle_load [OF inv w'(1)] by fastforce
  moreover have "source_ids w' = source_ids w" using handle_source_ids [OF w'(1)] by simp
  moreover have "res = Inr w'" using assms(2) w'(1) ms by (simp add: worker_turn_def sq_take_def)
  ultimately show ?thesis using w'(2) unfolding turn_effect_def by blast
qed

lemma puller_turn_effect:
  assumes "run_inv w" "puller_turn ora undef i w = Some res"
  shows "\<exists>w'. res = Inr w' \<and> run_inv w' \<and> turn_effect r w w'"
proof -
  from assms(2) obtain a m ms where a: "map_of (sources_of w) i = Some a" "sq_items (bp_queue (as_bufferPuller a)) = m # ms"
    by (cases "map_of (sources_of w) i"; cases "sq_items (bp_queue (as_bufferPuller (the (map_of (sources_of w) i))))")
      (auto simp: puller_turn_def sq_take_def)
  obtain j n q where m: "m = Pull_Buffer_Message j n q" by (cases m)
  let ?q = "(bp_queue (as_bufferPuller a))\<lparr>sq_items := ms\<rparr>"
  let ?w = "set_puller_queue i ?q w"
  have "source_ok a" using source_okD assms(1) a(1) by blast
  then have inv: "run_inv ?w" using assms(1) a by (intro run_inv_set_puller_queue) (auto simp: source_ok_def)
  note ok = PullBufferMessage_handle_ok [OF run_inv_good [OF inv], of ora undef "bp_sink (as_bufferPuller a)" "bp_parser (as_bufferPuller a)" m]
  from ok obtain w' where w': "PullBufferMessage_handle ora undef (bp_sink (as_bufferPuller a)) (bp_parser (as_bufferPuller a)) m ?w = Inr w'"
    "frame ?w w'" "good w'" by (rule ok_fromE)
  have d: "distinct (map fst (sources_of w))" using assms(1) by (simp add: run_inv_def)
  have q: "load f g ?w + g (Pull_Buffer_Message j n q) = load f g w" for f g
    using load_set_puller_queue [OF d a(1), of f g ?q] a(2) m by simp
  have "\<exists>st. load f g w' + g (Pull_Buffer_Message j n q) = load f g w + f (Have_Data_Message st j q)" for f g
    using pull_load(1) [OF inv w'(1) [unfolded m], of f g] q [of f g] by (auto simp: algebra_simps)
  moreover have "answered r w' = answered r w" using pull_load(2) [OF inv w'(1) [unfolded m]] by simp
  moreover have "source_ids w' = source_ids w"
    using frameD(1) [OF w'(2)] by (simp add: set_puller_queue_def keys_assoc_modify flip: set_map)
  moreover have "res = Inr w'" using assms(2) a w'(1) by (simp add: puller_turn_def sq_take_def)
  ultimately show ?thesis using run_inv_frame [OF inv w'(2,3)] unfolding turn_effect_def by blast
qed

lemma client_turn_effect:
  "run_inv w \<Longrightarrow> client_turn ora undef t w = Some res \<Longrightarrow> \<exists>w'. res = Inr w' \<and> run_inv w' \<and> turn_effect r w w'"
  using worker_turn_effect puller_turn_effect by (auto simp: client_turn_def split: option.splits)

text \<open>
  \<open>due r A w\<close>: the answers for the request id \<open>r\<close> that are still to come, among the requests, pulls and answers on
  their way, for the sources \<open>A\<close>. \<open>work w\<close>: the turns that are left, each request needing three.
\<close>

definition due_message :: "u32 \<Rightarrow> i32 set \<Rightarrow> backend_message \<Rightarrow> nat" where
  "due_message r A m = of_bool (case m of
     Need_Data_Message i _ q \<Rightarrow> q = r \<and> i \<in> A | Have_Data_Message _ i q \<Rightarrow> q = r \<and> i \<in> A | _ \<Rightarrow> False)"

definition due_pull :: "u32 \<Rightarrow> i32 set \<Rightarrow> pull_message \<Rightarrow> nat" where
  "due_pull r A m = of_bool (case m of Pull_Buffer_Message i _ q \<Rightarrow> q = r \<and> i \<in> A)"

definition due :: "u32 \<Rightarrow> mse \<Rightarrow> nat" where
  "due r w = load (due_message r (source_ids w)) (due_pull r (source_ids w)) w"

definition turns_of :: "backend_message \<Rightarrow> nat" where
  "turns_of m = (case m of Need_Data_Message _ _ _ \<Rightarrow> 3 | _ \<Rightarrow> 1)"

definition work :: "mse \<Rightarrow> nat" where
  "work w = load turns_of (\<lambda>_. 2) w"

lemma turn_due: "turn_effect r w w' \<Longrightarrow> due r w' + answered r w' = due r w + answered r w"
  unfolding turn_effect_def
proof (elim conjE disjE exE)
  fix m
  assume ids: "source_ids w' = source_ids w"
    and a: "\<forall>f g. \<exists>x \<in> backend_spawns f g m. load f g w' + f m = load f g w + x"
      "answered r w' = answered r w + of_bool (delivers r (source_ids w) m)"
  let ?f = "due_message r (source_ids w)" and ?g = "due_pull r (source_ids w)"
  from a(1) obtain x where x: "x \<in> backend_spawns ?f ?g m" "load ?f ?g w' + ?f m = load ?f ?g w + x" by blast
  have "?f m = x + of_bool (delivers r (source_ids w) m)"
    using x(1) by (cases m) (auto simp: backend_spawns_def due_message_def due_pull_def delivers_def)
  with x(2) a(2) show ?thesis by (simp add: due_def ids)
next
  fix i n q
  assume ids: "source_ids w' = source_ids w" and a: "answered r w' = answered r w"
    "\<forall>f g. \<exists>st. load f g w' + g (Pull_Buffer_Message i n q) = load f g w + f (Have_Data_Message st i q)"
  let ?f = "due_message r (source_ids w)" and ?g = "due_pull r (source_ids w)"
  from a(2) obtain st where "load ?f ?g w' + ?g (Pull_Buffer_Message i n q) = load ?f ?g w + ?f (Have_Data_Message st i q)" by blast
  with a(1) show ?thesis by (simp add: due_def ids due_message_def due_pull_def)
qed

lemma turn_work: "turn_effect r w w' \<Longrightarrow> work w' < work w"
  unfolding turn_effect_def
proof (elim conjE disjE exE)
  fix m
  assume a: "\<forall>f g. \<exists>x \<in> backend_spawns f g m. load f g w' + f m = load f g w + x"
  let ?f = turns_of and ?g = "\<lambda>_ :: pull_message. 2 :: nat"
  from a obtain x where x: "x \<in> backend_spawns ?f ?g m" "load ?f ?g w' + ?f m = load ?f ?g w + x" by blast
  have "x < ?f m" using x(1) by (cases m) (auto simp: backend_spawns_def turns_of_def)
  with x(2) show ?thesis by (simp add: work_def)
next
  fix i n q
  assume a: "\<forall>f g. \<exists>st. load f g w' + g (Pull_Buffer_Message i n q) = load f g w + f (Have_Data_Message st i q)"
  let ?f = turns_of and ?g = "\<lambda>_ :: pull_message. 2 :: nat"
  from a obtain st where "load ?f ?g w' + ?g (Pull_Buffer_Message i n q) = load ?f ?g w + ?f (Have_Data_Message st i q)" by blast
  then show ?thesis by (simp add: work_def turns_of_def)
qed

lemma client_turns_run:
  assumes "run_inv w" "client_turns ora undef ts w = Some res"
  shows "\<exists>w'. res = Inr w' \<and> run_inv w' \<and> due r w' + answered r w' = due r w + answered r w \<and> length ts + work w' \<le> work w"
  using assms
proof (induction ts arbitrary: w)
  case Nil
  then show ?case by auto
next
  case (Cons t ts)
  then obtain res1 where res1: "client_turn ora undef t w = Some res1" by (cases "client_turn ora undef t w") auto
  from client_turn_effect [OF Cons.prems(1) this, of r] obtain w1 where
    w1: "res1 = Inr w1" "run_inv w1" "turn_effect r w w1" by blast
  with Cons.prems(2) res1 have "client_turns ora undef ts w1 = Some res" by simp
  from Cons.IH [OF w1(2) this] turn_due [OF w1(3)] turn_work [OF w1(3)] show ?case by fastforce
qed

lemma client_turns_append:
  "client_turns ora undef ts w = Some (Inr w1) \<Longrightarrow> client_turns ora undef (ts @ us) w = client_turns ora undef us w1"
  by (induction ts arbitrary: w) (auto split: option.splits sum.splits)

lemma comes_to_rest:
  "run_inv w \<Longrightarrow> \<exists>ts w'. client_turns ora undef ts w = Some (Inr w') \<and> at_rest ora undef w'"
proof (induction "work w" arbitrary: w rule: less_induct)
  case less
  show ?case
  proof (cases "at_rest ora undef w")
    case True
    then show ?thesis by (intro exI [of _ "[]"] exI [of _ w]) simp
  next
    case False
    then obtain t res where t: "client_turn ora undef t w = Some res" by (auto simp: at_rest_def)
    from client_turn_effect [OF less.prems this] obtain w1 where w1: "res = Inr w1" "run_inv w1" "turn_effect 0 w w1" by blast
    from less.hyps [OF turn_work [OF w1(3)] w1(2)] obtain ts w' where
      "client_turns ora undef ts w1 = Some (Inr w')" "at_rest ora undef w'" by blast
    with t w1(1) show ?thesis by (intro exI [of _ "t # ts"] exI [of _ w']) simp
  qed
qed

lemma at_rest_due:
  assumes "run_inv w" "at_rest ora undef w"
  shows "due r w = 0"
proof -
  have "worker_turn ora w = None" using assms(2) [unfolded at_rest_def, rule_format, of None] by (simp add: client_turn_def)
  then have w: "sq_items (m_backendQueue (client_of w)) = []"
    by (cases "sq_items (m_backendQueue (client_of w))") (auto simp: worker_turn_def sq_take_def)
  have "sq_items (bp_queue (as_bufferPuller a)) = []" if "(i, a) \<in> set (sources_of w)" for i a
  proof -
    have "map_of (sources_of w) i = Some a" using that assms(1) by (simp add: run_inv_def map_of_is_SomeI)
    moreover have "puller_turn ora undef i w = None"
      using assms(2) [unfolded at_rest_def, rule_format, of "Some i"] by (simp add: client_turn_def)
    ultimately show ?thesis
      by (cases "sq_items (bp_queue (as_bufferPuller a))") (auto simp: puller_turn_def sq_take_def)
  qed
  with w show ?thesis by (force simp: due_def load_def)
qed

text \<open>
  C39. The need-data requests in a running client are answered. When only the worker and the pullers run, in
  any order, they come to rest, after at most \<open>work w\<close> turns; every run of their turns can be
  continued until they do. By then the pipeline has received, for every request id, exactly one answer
  (\<open>haveData\<close>) for each request, pull or answer with this id that was in a queue of the client for an attached
  source; at any time before, the answers given and those still due add up to that number. What is queued
  for a source that is not attached any more is not answered.
\<close>

theorem need_data_answered:
  assumes "run_inv w" and "client_turns ora undef ts w = Some res"
  shows "\<exists>w'. res = Inr w' \<and> length ts \<le> work w \<and> due r w' + answered r w' = due r w + answered r w \<and>
    (at_rest ora undef w' \<longrightarrow> answered r w' = answered r w + due r w) \<and>
    (\<exists>us w''. client_turns ora undef (ts @ us) w = Some (Inr w'') \<and> at_rest ora undef w'')"
proof -
  from client_turns_run [OF assms, of r] obtain w' where w': "res = Inr w'" "run_inv w'"
    "due r w' + answered r w' = due r w + answered r w" "length ts + work w' \<le> work w" by blast
  moreover obtain us w'' where "client_turns ora undef us w' = Some (Inr w'')" "at_rest ora undef w''"
    using comes_to_rest [OF w'(2)] by blast
  moreover have "at_rest ora undef w' \<Longrightarrow> due r w' = 0" using at_rest_due [OF w'(2)] .
  ultimately show ?thesis using client_turns_append [of ora undef ts w w' us] assms(2) by auto
qed

text \<open>One request on its way through a client: three turns, and nothing is left to do.\<close>

definition request_run :: "client_event list" where
  "request_run = [Attach video_source 0, Notify (Need_Data_Message 1 3 7)]"

theorem need_data_answered_witness:
  "\<exists>w w'. perform_all yes_pipeline 0 id request_run (started 0 0 quiet_sinks) = Inr w \<and> due 7 w = 1 \<and>
     client_turns yes_pipeline 0 [None, Some 1, None] w = Some (Inr w') \<and> answered 7 w' = 1"
proof -
  have "yields (\<lambda>w. \<not> m_streamingStopped (client_of w) \<and> due 7 w = 1 \<and> answered 7 w = 0 \<and>
      (case client_turns yes_pipeline 0 [None, Some 1, None] w of Some (Inr w') \<Rightarrow> due 7 w' = 0 | _ \<Rightarrow> False))
      (perform_all yes_pipeline 0 id request_run (started 0 0 quiet_sinks))" by code_simp
  then obtain w where w: "perform_all yes_pipeline 0 id request_run (started 0 0 quiet_sinks) = Inr w"
    "\<not> m_streamingStopped (client_of w)" "due 7 w = 1" "answered 7 w = 0"
    and c: "case client_turns yes_pipeline 0 [None, Some 1, None] w of Some (Inr w') \<Rightarrow> due 7 w' = 0 | _ \<Rightarrow> False"
    by (rule yieldsE) simp
  from c obtain w' where w': "client_turns yes_pipeline 0 [None, Some 1, None] w = Some (Inr w')" "due 7 w' = 0"
    by (auto split: option.splits sum.splits)
  from need_data_answered [OF reached_running [OF w(1) quiet_sinks_caps w(2)] w'(1), of 7] w w'
  show ?thesis by auto
qed


text \<open>
  The position a running client reports is the pipeline's when the pipeline can tell it, and is
  then remembered; otherwise it is the last one known: that of the last successful query, of the last
  position notification handled, of the last seek, or 0 after a failure. Volume and mute are reported
  in the same way.
\<close>

theorem queries_fall_back:
  assumes "pipeline_alive w" and "sq_running (m_backendQueue (client_of w))"
  shows "\<exists>w1 w2 w3. getPosition ora g w = Inr (w1, m_position (client_of w1)) \<and>
      m_position (client_of w1) = (let a = ora (pipeline_log w) Get_Position in
        if ans_ok a then ans_int a else m_position (client_of w)) \<and>
      getVolume ora w = Inr (w2, m_volume (client_of w2)) \<and>
      m_volume (client_of w2) = (let a = ora (pipeline_log w) Get_Volume in
        if ans_ok a then ans_double a else m_volume (client_of w)) \<and>
      getMute ora w = Inr (w3, m_mute (client_of w3)) \<and>
      m_mute (client_of w3) = (let a = ora (pipeline_log w) Get_Mute in
        if ans_ok a then ans_bool a else m_mute (client_of w)) \<and>
      (\<forall>p. \<exists>w4. seek ora p w = Inr (w4, ()) \<and> m_position (client_of w4) = p) \<and>
      (\<forall>p. yields (\<lambda>w'. m_position (client_of w') = p) (handle_backend_message ora (Set_Position_Message p) w)) \<and>
      m_position (client_of (handlePlaybackStateChange PS_FAILURE w)) = 0"
proof -
  obtain log where log: "m_clientBackend (client_of w) = Some \<lparr>m_mediaPlayerBackend = Some log\<rparr>"
    "pipeline_log w = log" using assms(1) by (simp add: pipeline_alive_def)
  then have "\<exists>w1. getPosition ora g w = Inr (w1, m_position (client_of w1)) \<and>
      m_position (client_of w1) = (let a = ora log Get_Position in
        if ans_ok a then ans_int a else m_position (client_of w))"
    using assms(2) by (simp add: getPosition_def getPositionDo_def callInEventLoop_def backend_do_def forward_def Let_def)
  moreover have "\<exists>w2. getVolume ora w = Inr (w2, m_volume (client_of w2)) \<and>
      m_volume (client_of w2) = (let a = ora log Get_Volume in
        if ans_ok a then ans_double a else m_volume (client_of w))"
    using log assms(2) by (simp add: getVolume_def callInEventLoop_def backend_do_def forward_def Let_def)
  moreover have "\<exists>w3. getMute ora w = Inr (w3, m_mute (client_of w3)) \<and>
      m_mute (client_of w3) = (let a = ora log Get_Mute in
        if ans_ok a then ans_bool a else m_mute (client_of w))"
    using log assms(2) by (simp add: getMute_def callInEventLoop_def backend_do_def forward_def Let_def)
  moreover have "\<exists>w4. seek ora p w = Inr (w4, ()) \<and> m_position (client_of w4) = p" for p
    using log assms(2) by (simp add: seek_def callInEventLoop_def backend_do_def forward_def)
  moreover have "m_position (client_of (handlePlaybackStateChange PS_FAILURE w)) = 0"
    by (simp add: handlePlaybackStateChange_def Let_def)
  ultimately show ?thesis using log(2) by simp
qed

theorem queries_fall_back_witness:
  "\<exists>w1. getPosition yes_pipeline 99 (started 0 0 quiet_sinks) = Inr (w1, 0) \<and> m_position (client_of w1) = 0"
  using queries_fall_back [OF started_facts(1,2), of yes_pipeline 99 0 0 quiet_sinks]
  by (auto simp: yes_pipeline_def Let_def)

text \<open>
  A failure of the server during a seek ends the seek for the client and leaves its sources alone: one
  that is seeking keeps a stopped puller, and no later check for the end of the seek starts it again.
\<close>

lemma failure_strands_seekers:
  "m_serverSeekingState (client_of (handlePlaybackStateChange PS_FAILURE w)) = IDLE \<and>
   m_attachedSources (client_of (handlePlaybackStateChange PS_FAILURE w)) = m_attachedSources (client_of w) \<and>
   startPullingDataIfSeekFinished (client_of (handlePlaybackStateChange PS_FAILURE w)) = client_of (handlePlaybackStateChange PS_FAILURE w)"
  by (simp add: handlePlaybackStateChange_def startPullingDataIfSeekFinished_def)

end
