(* ===== verification/C_Strings.thy ===== *)
theory C_Strings
  imports Rialto_Prelude
begin

text \<open>
  The conversions of the C library that the sources use on numbers in decimal: \<open>sprintf\<close> and \<open>sscanf\<close>
  with \<open>%u\<close>, and \<open>strtoul\<close> with base 10. \<open>%u\<close> skips white space, takes an optional sign and at least
  one digit; the value is taken modulo \<open>2 ^ 32\<close> (the C standard leaves a value out of range undefined).
\<close>

section \<open>Digits\<close>

definition is_digit :: "char \<Rightarrow> bool" where
  "is_digit c \<longleftrightarrow> 48 \<le> (of_char c :: nat) \<and> (of_char c :: nat) \<le> 57"

definition is_space :: "char \<Rightarrow> bool" where
  "is_space c \<longleftrightarrow> (of_char c :: nat) = 32 \<or> 9 \<le> (of_char c :: nat) \<and> (of_char c :: nat) \<le> 13"

definition digit_char :: "nat \<Rightarrow> char" where
  "digit_char d = char_of (48 + d)"

fun decimal :: "nat \<Rightarrow> string" where
  "decimal n = (if n < 10 then [digit_char n] else decimal (n div 10) @ [digit_char (n mod 10)])"


declare decimal.simps [simp del]

definition decimal_value :: "string \<Rightarrow> nat" where
  "decimal_value ds = foldl (\<lambda>a c. 10 * a + (of_char c - 48)) 0 ds"

definition print_u :: "u32 \<Rightarrow> string" where
  "print_u x = decimal (unat x)"

definition skip_sign :: "string \<Rightarrow> bool \<times> string" where
  "skip_sign s = (case s of [] \<Rightarrow> (False, s)
     | c # t \<Rightarrow> if c = CHR ''-'' then (True, t) else if c = CHR ''+'' then (False, t) else (False, s))"

definition scan_u :: "string \<Rightarrow> (u32 \<times> string) option" where
  "scan_u s =
     (let (neg, t) = skip_sign (dropWhile is_space s); ds = takeWhile is_digit t;
          v = word_of_nat (decimal_value ds)
      in if ds = [] then None else Some (if neg then - v else v, dropWhile is_digit t))"

section \<open>strtoul\<close>

text \<open>
  \<open>strtoul(s, &end, 10)\<close>: the value, the text at \<open>end\<close>, and whether \<open>errno\<close> is set to \<open>ERANGE\<close>. Without
  a digit nothing is converted and \<open>end\<close> is the start. A minus sign negates the value as an
  \<open>unsigned long\<close>, of 64 bits.
\<close>

definition strtoul :: "string \<Rightarrow> u64 \<times> string \<times> bool" where
  "strtoul s =
     (let (neg, t) = skip_sign (dropWhile is_space s); ds = takeWhile is_digit t; v = decimal_value ds
      in if ds = [] then (0, s, False)
         else if 2 ^ 64 \<le> v then (- 1, dropWhile is_digit t, True)
         else (if neg then - word_of_nat v else word_of_nat v, dropWhile is_digit t, False))"

section \<open>Lemmas\<close>

lemma of_digit_char: "d < 10 \<Longrightarrow> of_char (digit_char d) = (48 + d :: nat)"
  by (simp add: digit_char_def)

lemma is_digit_digit_char: "d < 10 \<Longrightarrow> is_digit (digit_char d)"
  by (simp add: is_digit_def of_digit_char)

lemma decimal_digits: "list_all is_digit (decimal n)"
proof (induction n rule: decimal.induct)
  case (1 n)
  then show ?case by (subst decimal.simps) (simp add: is_digit_digit_char)
qed

lemma decimal_nonempty: "decimal n \<noteq> []"
  by (subst decimal.simps) simp

lemma decimal_value_decimal: "decimal_value (decimal n) = n"
proof (induction n rule: decimal.induct)
  case (1 n)
  show ?case
  proof (cases "n < 10")
    case True
    then show ?thesis by (subst decimal.simps) (simp add: decimal_value_def of_digit_char)
  next
    case False
    with 1 show ?thesis by (subst decimal.simps) (simp add: decimal_value_def of_digit_char)
  qed
qed

lemma length_decimal: "n < 10 ^ Suc k \<Longrightarrow> length (decimal n) \<le> Suc k"
proof (induction k arbitrary: n)
  case 0
  then show ?case by (subst decimal.simps) simp
next
  case (Suc k)
  show ?case
  proof (cases "n < 10")
    case True
    then show ?thesis by (subst decimal.simps) simp
  next
    case False
    have "n div 10 < 10 ^ Suc k" using Suc.prems by (simp add: less_mult_imp_div_less mult.commute)
    from Suc.IH [OF this] False show ?thesis by (subst decimal.simps) simp
  qed
qed

lemma length_print_u: "length (print_u x) \<le> 10"
proof -
  have "unat x < 2 ^ 32" using unsigned_less [of x, where ?'a = nat] by simp
  then have "unat x < 10 ^ Suc 9" by simp
  from length_decimal [OF this] show ?thesis by (simp add: print_u_def)
qed

lemma digit_no_space: "is_digit c \<Longrightarrow> \<not> is_space c \<and> c \<noteq> CHR ''-'' \<and> c \<noteq> CHR ''+''"
  by (auto simp: is_digit_def is_space_def)

lemma scan_print:
  assumes "rest = [] \<or> \<not> is_digit (hd rest)"
  shows "scan_u (print_u x @ rest) = Some (x, rest)"
proof -
  let ?d = "decimal (unat x)"
  obtain c cs where d: "?d = c # cs" by (cases ?d) (simp_all add: decimal_nonempty)
  have all: "list_all is_digit ?d" by (rule decimal_digits)
  with d have c: "is_digit c" by simp
  have "skip_sign (dropWhile is_space (?d @ rest)) = (False, ?d @ rest)"
    using digit_no_space [OF c] by (simp add: d skip_sign_def)
  moreover have "takeWhile is_digit (?d @ rest) = ?d" "dropWhile is_digit (?d @ rest) = rest"
    using all assms by (cases rest; simp add: list_all_iff takeWhile_append2)+
  ultimately show ?thesis
    by (simp add: scan_u_def print_u_def decimal_nonempty decimal_value_decimal)
qed

lemma decimal_value_less: "list_all is_digit ds \<Longrightarrow> decimal_value ds < 10 ^ length ds"
proof (induction ds rule: rev_induct)
  case (snoc d ds)
  then have "decimal_value ds + 1 \<le> 10 ^ length ds" "of_char d - 48 \<le> (9::nat)" by (auto simp: is_digit_def)
  then show ?case by (simp add: decimal_value_def)
qed (simp add: decimal_value_def)

lemma digits_no_sign: "c \<noteq> [] \<Longrightarrow> list_all is_digit c \<Longrightarrow> skip_sign (dropWhile is_space c) = (False, c)"
  using digit_no_space by (cases c) (auto simp: skip_sign_def)

text \<open>A text of digits is converted whole.\<close>

lemma strtoul_digits:
  assumes "ds \<noteq> []" "list_all is_digit ds"
  shows "strtoul ds = (if 2 ^ 64 \<le> decimal_value ds then (- 1, [], True) else (word_of_nat (decimal_value ds), [], False))"
proof -
  have all: "takeWhile is_digit ds = ds" "dropWhile is_digit ds = []"
    using assms(2) by (auto simp: list_all_iff)
  show ?thesis unfolding strtoul_def digits_no_sign [OF assms] using assms(1) by (simp add: Let_def all)
qed

end
