(* ===== verification/Video_Rectangle.thy ===== *)
theory Video_Rectangle
  imports Mse_Client C_Strings
begin

text \<open>
  The video rectangle of the media player client: \<open>setVideoRectangle\<close> reads it with \<open>sscanf\<close> and
  \<open>getVideoRectangle\<close> prints it with \<open>sprintf\<close>, both with the format \<open>%u,%u,%u,%u\<close>
  (\<open>GStreamerMSEMediaPlayerClient.cpp\<close>). The conversions of the C library are in \<open>C_Strings\<close>.
\<close>

section \<open>The rectangle as text\<close>

definition scan_comma :: "string \<Rightarrow> string option" where
  "scan_comma s = (case s of [] \<Rightarrow> None | c # t \<Rightarrow> if c = CHR '','' then Some t else None)"

text \<open>\<open>Some r\<close> when \<open>sscanf\<close> converts all four fields; trailing text is ignored.\<close>

definition sscanf_rectangle :: "string \<Rightarrow> rectangle option" where
  "sscanf_rectangle s =
     Option.bind (scan_u s) (\<lambda>(x, s). Option.bind (scan_comma s) (\<lambda>s.
     Option.bind (scan_u s) (\<lambda>(y, s). Option.bind (scan_comma s) (\<lambda>s.
     Option.bind (scan_u s) (\<lambda>(w, s). Option.bind (scan_comma s) (\<lambda>s.
     Option.bind (scan_u s) (\<lambda>(h, s).
       Some \<lparr>rect_x = x, rect_y = y, rect_width = w, rect_height = h\<rparr>)))))))"

definition sprintf_rectangle :: "rectangle \<Rightarrow> string" where
  "sprintf_rectangle r = print_u (rect_x r) @ '','' @ print_u (rect_y r) @ '','' @
     print_u (rect_width r) @ '','' @ print_u (rect_height r)"

section \<open>The two operations\<close>

definition setVideoRectangle :: "pipeline \<Rightarrow> string \<Rightarrow> mse \<Rightarrow> (mse \<times> unit) result" where
  "setVideoRectangle ora rectangleString = callInEventLoop () (\<lambda>w.
     case m_clientBackend (client_of w) of
       None \<Rightarrow> Inr (w, ())
     | Some cb \<Rightarrow>
        (if \<not> isMediaPlayerBackendCreated cb then Inr (w, ())
         else if rectangleString = [] then Inr (w, ())
         else (case sscanf_rectangle rectangleString of
                 None \<Rightarrow> Inr (w, ())
               | Some rect \<Rightarrow>
                   bind_result (backend_do ora (Set_Video_Window (rect_x rect) (rect_y rect)
                     (rect_width rect) (rect_height rect)) w) (\<lambda>(w, _).
                   Inr (upd_client (\<lambda>cl. cl\<lparr>m_videoRectangle := rect\<rparr>) w, ())))))"

text \<open>The buffer that is returned is a local array, not initialised if the body is not run.\<close>

definition getVideoRectangle :: "string \<Rightarrow> mse \<Rightarrow> (mse \<times> string) result" where
  "getVideoRectangle garbage = callInEventLoop garbage (\<lambda>w.
     Inr (w, sprintf_rectangle (m_videoRectangle (client_of w))))"

section \<open>Lemmas\<close>

lemma comma_no_digit: "\<not> is_digit CHR '',''"
  by (simp add: is_digit_def)

lemma sscanf_sprintf: "sscanf_rectangle (sprintf_rectangle r) = Some r"
  using scan_print [of "[]"]
  by (simp add: sscanf_rectangle_def sprintf_rectangle_def scan_print comma_no_digit scan_comma_def)

section \<open>Guarantees\<close>

text \<open>
  Round trip of the video rectangle. Setting the printed form of any rectangle on a running client
  with a pipeline sends exactly that window to the pipeline, and the rectangle read back afterwards is
  the same text. The text fits the 64 bytes of the buffer it is printed to, with its terminator.
\<close>

theorem video_rectangle_roundtrip:
  assumes "pipeline_alive w" and "sq_running (m_backendQueue (client_of w))"
  shows "\<exists>w'. setVideoRectangle ora (sprintf_rectangle r) w = Inr (w', ()) \<and>
    pipeline_log w' = pipeline_log w @ [Set_Video_Window (rect_x r) (rect_y r) (rect_width r) (rect_height r)] \<and>
    getVideoRectangle garbage w' = Inr (w', sprintf_rectangle r) \<and>
    length (sprintf_rectangle r) + 1 \<le> 64"
proof -
  obtain log where log: "m_clientBackend (client_of w) = Some \<lparr>m_mediaPlayerBackend = Some log\<rparr>"
    "pipeline_log w = log" using assms(1) by (simp add: pipeline_alive_def)
  have "sprintf_rectangle r \<noteq> []"
    by (simp add: sprintf_rectangle_def)
  moreover have "length (sprintf_rectangle r) + 1 \<le> 64"
    using length_print_u [of "rect_x r"] length_print_u [of "rect_y r"]
      length_print_u [of "rect_width r"] length_print_u [of "rect_height r"]
    by (simp add: sprintf_rectangle_def)
  ultimately show ?thesis using log assms(2)
    by (simp add: setVideoRectangle_def getVideoRectangle_def callInEventLoop_def sscanf_sprintf
        isMediaPlayerBackendCreated_def backend_do_def forward_def pipeline_log_def)
qed

theorem video_rectangle_roundtrip_witness:
  "\<exists>w'. setVideoRectangle yes_pipeline (sprintf_rectangle \<lparr>rect_x = 1, rect_y = 20, rect_width = 1280, rect_height = 720\<rparr>)
      (started 0 0 quiet_sinks) = Inr (w', ()) \<and>
     getVideoRectangle '''' w' = Inr (w', ''1,20,1280,720'')"
proof -
  have "sprintf_rectangle \<lparr>rect_x = 1, rect_y = 20, rect_width = 1280, rect_height = 720\<rparr> = ''1,20,1280,720''"
    by code_simp
  with video_rectangle_roundtrip [OF started_facts(1,2),
      of yes_pipeline "\<lparr>rect_x = 1, rect_y = 20, rect_width = 1280, rect_height = 720\<rparr>" 0 0 quiet_sinks "''''"]
  show ?thesis by auto
qed

text \<open>
  A text that \<open>sscanf\<close> cannot convert to four numbers changes nothing: no window is sent, and the
  rectangle stays; so does every call on a client without a pipeline.
\<close>

theorem bad_rectangle_ignored:
  assumes "sscanf_rectangle s = None \<or> \<not> pipeline_alive w"
  shows "setVideoRectangle ora s w = Inr (w, ())"
proof (cases "pipeline_alive w")
  case True
  with assms show ?thesis by (simp add: setVideoRectangle_def callInEventLoop_def split: option.splits)
next
  case False
  have "\<not> isMediaPlayerBackendCreated cb" if "m_clientBackend (client_of w) = Some cb" for cb
    using False that by (cases cb) (auto simp: pipeline_alive_def pipeline_log_def isMediaPlayerBackendCreated_def split: option.splits)
  then show ?thesis by (simp add: setVideoRectangle_def callInEventLoop_def split: option.splits)
qed

theorem bad_rectangle_ignored_witness:
  "setVideoRectangle yes_pipeline ''1,2,3'' (started 0 0 quiet_sinks) = Inr (started 0 0 quiet_sinks, ())"
proof -
  have "sscanf_rectangle ''1,2,3'' = None" by code_simp
  then show ?thesis using bad_rectangle_ignored by blast
qed

end
