(* ===== verification/Player_Manager.thy ===== *)
theory Player_Manager
  imports Mse_Client
begin

text \<open>
  \<open>MediaPlayerManager.h\<close> and \<open>.cpp\<close>: every sink owns a manager, and all managers share the map from
  GStreamer bins to media player clients. The map owns the clients (\<open>shared_ptr\<close>), a manager holds a
  \<open>weak_ptr\<close> to one: locking it succeeds as long as the map owns the client. Managers, clients and
  bins are numbers. The state is the world: the map, the managers (one per sink, with the sink's
  number), the client objects and the sinks. An operation is one atomic step; in the code it runs
  under \<open>m_mediaPlayerClientsMutex\<close>.
\<close>

section \<open>State\<close>

record client_info =
  inf_client :: nat
  inf_controller :: "nat option"
  inf_refCount :: u32

record manager =
  m_client :: "nat option"
  m_currentGstBinParent :: "nat option"

record world =
  m_mediaPlayerClientsInfo :: "(nat \<times> client_info) list"
  managers :: "nat \<Rightarrow> manager"
  clients :: "nat \<Rightarrow> client"
  next_client :: nat
  w_sinks :: "nat \<Rightarrow> base_sink"

definition new_manager :: manager where
  "new_manager = \<lparr>m_client = None, m_currentGstBinParent = None\<rparr>"

definition set_manager :: "nat \<Rightarrow> manager \<Rightarrow> world \<Rightarrow> world" where
  "set_manager k m w = w\<lparr>managers := (managers w)(k := m)\<rparr>"

text \<open>\<open>m_client.lock()\<close>.\<close>

definition owned :: "world \<Rightarrow> nat \<Rightarrow> bool" where
  "owned w c \<longleftrightarrow> list_ex (\<lambda>(p, i). inf_client i = c) (m_mediaPlayerClientsInfo w)"

definition lock_client :: "nat \<Rightarrow> world \<Rightarrow> nat option" where
  "lock_client k w = (case m_client (managers w k) of
     None \<Rightarrow> None | Some c \<Rightarrow> if owned w c then Some c else None)"

text \<open>An operation of client \<open>c\<close>, run in the world.\<close>

definition mse_of :: "nat \<Rightarrow> world \<Rightarrow> mse" where
  "mse_of c w = \<lparr>client_of = clients w c, sinks = w_sinks w\<rparr>"

definition put_mse :: "nat \<Rightarrow> mse \<Rightarrow> world \<Rightarrow> world" where
  "put_mse c v w = w\<lparr>clients := (clients w)(c := client_of v), w_sinks := sinks v\<rparr>"

definition on_client :: "nat \<Rightarrow> (mse \<Rightarrow> mse result) \<Rightarrow> world \<Rightarrow> world result" where
  "on_client c f w = bind_result (f (mse_of c w)) (\<lambda>v. Inr (put_mse c v w))"

section \<open>Operations\<close>

definition getMediaPlayerClient :: "nat \<Rightarrow> world \<Rightarrow> nat option" where
  "getMediaPlayerClient k w = lock_client k w"

text \<open>
  A client whose backend cannot be created is a local object of this function and is gone when it
  returns. \<open>created\<close>: the pipeline factory returns a pipeline.
\<close>

definition createMediaPlayerClient ::
  "pipeline \<Rightarrow> bool \<Rightarrow> nat \<Rightarrow> nat \<Rightarrow> u32 \<Rightarrow> u32 \<Rightarrow> world \<Rightarrow> world result" where
  "createMediaPlayerClient ora created k parent maxW maxH w =
     (case map_of (m_mediaPlayerClientsInfo w) parent of
        Some info \<Rightarrow>
          Inr (set_manager k \<lparr>m_client = Some (inf_client info), m_currentGstBinParent = Some parent\<rparr>
            (w\<lparr>m_mediaPlayerClientsInfo := assoc_modify parent
               (\<lambda>i. i\<lparr>inf_refCount := inf_refCount i + 1\<rparr>) (m_mediaPlayerClientsInfo w)\<rparr>))
      | None \<Rightarrow>
          (let c = next_client w;
               v = \<lparr>client_of = new_client (Some new_client_backend) maxW maxH, sinks = w_sinks w\<rparr>
           in bind_result (createBackend ora created v) (\<lambda>(v, ok).
                if ok
                then Inr (set_manager k \<lparr>m_client = Some c, m_currentGstBinParent = Some parent\<rparr>
                  ((put_mse c v w)\<lparr>next_client := Suc c,
                     m_mediaPlayerClientsInfo := m_mediaPlayerClientsInfo w @
                       [(parent, \<lparr>inf_client = c, inf_controller = Some k, inf_refCount = 1\<rparr>)]\<rparr>))
                else Inr w)))"

text \<open>The reference count is unsigned and wraps.\<close>

definition releaseMediaPlayerClient :: "pipeline \<Rightarrow> i32 \<Rightarrow> nat \<Rightarrow> world \<Rightarrow> world result" where
  "releaseMediaPlayerClient ora undef k w =
     (case lock_client k w of
        None \<Rightarrow> Inr w
      | Some _ \<Rightarrow>
         (case m_currentGstBinParent (managers w k) of
            None \<Rightarrow> Inr w
          | Some parent \<Rightarrow>
             (case map_of (m_mediaPlayerClientsInfo w) parent of
                None \<Rightarrow> Inr w
              | Some info \<Rightarrow>
                 (let refCount = inf_refCount info - 1 in
                  bind_result
                    (if refCount = 0
                     then bind_result (on_client (inf_client info) (stopStreaming ora undef) w) (\<lambda>w.
                          bind_result (on_client (inf_client info) (\<lambda>v. Inr (destroyClientBackend v)) w) (\<lambda>w.
                          Inr (w\<lparr>m_mediaPlayerClientsInfo := assoc_erase parent (m_mediaPlayerClientsInfo w)\<rparr>)))
                     else Inr (w\<lparr>m_mediaPlayerClientsInfo := assoc_modify parent
                            (\<lambda>i. i\<lparr>inf_refCount := refCount,
                               inf_controller := (if inf_controller i = Some k then None else inf_controller i)\<rparr>)
                            (m_mediaPlayerClientsInfo w)\<rparr>))
                    (\<lambda>w. Inr (set_manager k new_manager w))))))"

definition attachMediaPlayerClient ::
  "pipeline \<Rightarrow> i32 \<Rightarrow> bool \<Rightarrow> nat \<Rightarrow> nat \<Rightarrow> u32 \<Rightarrow> u32 \<Rightarrow> world \<Rightarrow> (world \<times> bool) result" where
  "attachMediaPlayerClient ora undef created k parent maxW maxH w =
     bind_result
       (case lock_client k w of
          None \<Rightarrow> createMediaPlayerClient ora created k parent maxW maxH w
        | Some _ \<Rightarrow>
           (if Some parent \<noteq> m_currentGstBinParent (managers w k)
            then bind_result (releaseMediaPlayerClient ora undef k w)
                   (createMediaPlayerClient ora created k parent maxW maxH)
            else Inr w))
       (\<lambda>w. Inr (w, lock_client k w \<noteq> None))"

definition acquireControl :: "nat \<Rightarrow> client_info \<Rightarrow> client_info \<times> bool" where
  "acquireControl k info =
     (if inf_controller info = None then (info\<lparr>inf_controller := Some k\<rparr>, True) else (info, False))"

definition hasControl :: "nat \<Rightarrow> world \<Rightarrow> world \<times> bool" where
  "hasControl k w =
     (case lock_client k w of
        None \<Rightarrow> (w, False)
      | Some _ \<Rightarrow>
         (case m_currentGstBinParent (managers w k) of
            None \<Rightarrow> (w, False)
          | Some parent \<Rightarrow>
             (case map_of (m_mediaPlayerClientsInfo w) parent of
                None \<Rightarrow> (w, False)
              | Some info \<Rightarrow>
                 (if inf_controller info = Some k then (w, True)
                  else (let (info', b) = acquireControl k info
                        in (w\<lparr>m_mediaPlayerClientsInfo :=
                              assoc_modify parent (\<lambda>_. info') (m_mediaPlayerClientsInfo w)\<rparr>, b))))))"

section \<open>The managers as a system\<close>

text \<open>
  Besides the operations of the managers, anything may happen to a client that is in the map; only a
  manager stops a client and destroys its backend.
\<close>

datatype manager_event =
  Attach_Client nat nat u32 u32 bool
| Release_Client nat
| Has_Control nat
| Client_Runs nat client_event

fun manager_of :: "manager_event \<Rightarrow> nat" where
  "manager_of (Attach_Client k _ _ _ _) = k"
| "manager_of (Release_Client k) = k"
| "manager_of (Has_Control k) = k"
| "manager_of (Client_Runs _ _) = 0"

fun teardown :: "client_event \<Rightarrow> bool" where
  "teardown Stop_Streaming = True"
| "teardown Destroy_Backend = True"
| "teardown _ = False"

fun manage :: "pipeline \<Rightarrow> i32 \<Rightarrow> (gst_element \<Rightarrow> gst_element) \<Rightarrow> manager_event \<Rightarrow> world \<Rightarrow> world result" where
  "manage ora undef lost (Attach_Client k p mw mh created) w =
     bind_result (attachMediaPlayerClient ora undef created k p mw mh w) (\<lambda>(w, _). Inr w)"
| "manage ora undef lost (Release_Client k) w = releaseMediaPlayerClient ora undef k w"
| "manage ora undef lost (Has_Control k) w = Inr (fst (hasControl k w))"
| "manage ora undef lost (Client_Runs c ev) w =
     (if owned w c \<and> \<not> teardown ev
      then on_client c (perform ora undef lost ev) w else Inr w)"

fun manage_all :: "pipeline \<Rightarrow> i32 \<Rightarrow> (gst_element \<Rightarrow> gst_element) \<Rightarrow> manager_event list \<Rightarrow> world \<Rightarrow> world result" where
  "manage_all ora undef lost [] w = Inr w"
| "manage_all ora undef lost (ev # evs) w = bind_result (manage ora undef lost ev w) (manage_all ora undef lost evs)"

definition start_world :: "(nat \<Rightarrow> base_sink) \<Rightarrow> world" where
  "start_world ss = \<lparr>m_mediaPlayerClientsInfo = [], managers = (\<lambda>_. new_manager),
     clients = (\<lambda>_. new_client None 0 0), next_client = 0, w_sinks = ss\<rparr>"

section \<open>Invariant\<close>

text \<open>The managers attached to the bin \<open>p\<close>.\<close>

definition attached_to :: "nat \<Rightarrow> world \<Rightarrow> nat set" where
  "attached_to p w = {k. m_currentGstBinParent (managers w k) = Some p}"

abbreviation info_of :: "world \<Rightarrow> nat \<Rightarrow> client_info option" where
  "info_of w \<equiv> map_of (m_mediaPlayerClientsInfo w)"

definition info_ok :: "world \<Rightarrow> nat \<Rightarrow> client_info \<Rightarrow> bool" where
  "info_ok w p i \<longleftrightarrow> unat (inf_refCount i) = card (attached_to p w) \<and> attached_to p w \<noteq> {} \<and>
     inf_client i < next_client w \<and> run_inv (mse_of (inf_client i) w) \<and>
     (\<forall>k. inf_controller i = Some k \<longrightarrow> k \<in> attached_to p w)"

definition infos_ok :: "world \<Rightarrow> bool" where
  "infos_ok w \<longleftrightarrow> distinct (map fst (m_mediaPlayerClientsInfo w)) \<and>
     (\<forall>p i. info_of w p = Some i \<longrightarrow> info_ok w p i) \<and>
     (\<forall>p q i j. info_of w p = Some i \<longrightarrow> info_of w q = Some j \<longrightarrow> inf_client i = inf_client j \<longrightarrow> p = q)"

definition managers_ok :: "nat \<Rightarrow> world \<Rightarrow> bool" where
  "managers_ok N w \<longleftrightarrow> (\<forall>k. managers w k = new_manager \<or> (k < N \<and> (\<exists>p i. info_of w p = Some i \<and>
     managers w k = \<lparr>m_client = Some (inf_client i), m_currentGstBinParent = Some p\<rparr>)))"

definition world_inv :: "nat \<Rightarrow> world \<Rightarrow> bool" where
  "world_inv N w \<longleftrightarrow> infos_ok w \<and> managers_ok N w \<and> (\<forall>k. sink_ok (w_sinks w k))"

lemma world_inv_start: "\<forall>k. sink_ok (ss k) \<Longrightarrow> world_inv N (start_world ss)"
  by (simp add: world_inv_def infos_ok_def managers_ok_def start_world_def)

lemma owned_info: "infos_ok w \<Longrightarrow> owned w c \<longleftrightarrow> (\<exists>p i. info_of w p = Some i \<and> inf_client i = c)"
  by (auto simp: owned_def infos_ok_def list_ex_iff intro: map_of_is_SomeI dest: map_of_SomeD)

lemma manager_cases:
  assumes "world_inv N w"
  obtains "managers w k = new_manager" "lock_client k w = None"
  | p i where "k < N" "info_of w p = Some i" "managers w k = \<lparr>m_client = Some (inf_client i), m_currentGstBinParent = Some p\<rparr>"
      "lock_client k w = Some (inf_client i)" "k \<in> attached_to p w"
proof -
  from assms have "managers w k = new_manager \<or> (k < N \<and> (\<exists>p i. info_of w p = Some i \<and>
     managers w k = \<lparr>m_client = Some (inf_client i), m_currentGstBinParent = Some p\<rparr>))"
    by (simp add: world_inv_def managers_ok_def)
  then show thesis
  proof (elim disjE exE conjE)
    assume "managers w k = new_manager"
    then show thesis using that(1) by (simp add: lock_client_def new_manager_def)
  next
    fix p i
    assume a: "k < N" "info_of w p = Some i" "managers w k = \<lparr>m_client = Some (inf_client i), m_currentGstBinParent = Some p\<rparr>"
    have "owned w (inf_client i)" using assms a(2) owned_info by (auto simp: world_inv_def)
    with a show thesis using that(2) [of p i] by (simp add: lock_client_def attached_to_def)
  qed
qed

lemma attached_bound:
  assumes "world_inv N w"
  shows "attached_to p w \<subseteq> {k. k < N}" "finite (attached_to p w)"
proof -
  show "attached_to p w \<subseteq> {k. k < N}"
  proof
    fix k assume "k \<in> attached_to p w"
    then show "k \<in> {k. k < N}"
      by (cases rule: manager_cases [OF assms, of k]) (simp_all add: attached_to_def new_manager_def)
  qed
  then show "finite (attached_to p w)" by (rule finite_subset) simp
qed

lemma attached_other: "k \<notin> attached_to p w \<Longrightarrow> m = new_manager \<Longrightarrow> attached_to p (set_manager k m w) = attached_to p w"
  by (auto simp: attached_to_def set_manager_def new_manager_def)

lemma attached_set:
  "attached_to p (set_manager k m w) =
     (if m_currentGstBinParent m = Some p then insert k (attached_to p w) else attached_to p w - {k})"
  by (auto simp: attached_to_def set_manager_def)

lemma attached_simps [simp]:
  "attached_to p (w\<lparr>m_mediaPlayerClientsInfo := x\<rparr>) = attached_to p w"
  "attached_to p (w\<lparr>next_client := y\<rparr>) = attached_to p w"
  "attached_to p (put_mse c v w) = attached_to p w"
  by (simp_all add: attached_to_def put_mse_def)

lemma set_manager_simps [simp]:
  "m_mediaPlayerClientsInfo (set_manager k m w) = m_mediaPlayerClientsInfo w"
  "next_client (set_manager k m w) = next_client w"
  "mse_of c (set_manager k m w) = mse_of c w"
  "w_sinks (set_manager k m w) = w_sinks w"
  "managers (set_manager k m w) = (managers w)(k := m)"
  "clients (set_manager k m w) = clients w"
  by (simp_all add: set_manager_def mse_of_def)

lemma put_mse_simps [simp]:
  "m_mediaPlayerClientsInfo (put_mse c v w) = m_mediaPlayerClientsInfo w"
  "next_client (put_mse c v w) = next_client w"
  "managers (put_mse c v w) = managers w"
  "w_sinks (put_mse c v w) = sinks v"
  "clients (put_mse c v w) = (clients w)(c := client_of v)"
  "mse_of c (put_mse c v w) = v"
  by (simp_all add: put_mse_def mse_of_def)

lemma mse_of_put_other: "d \<noteq> c \<Longrightarrow> mse_of d (put_mse c v w) = (mse_of d w)\<lparr>sinks := sinks v\<rparr>"
  by (simp add: put_mse_def mse_of_def)

lemma mse_of_simps [simp]:
  "mse_of c (w\<lparr>m_mediaPlayerClientsInfo := x\<rparr>) = mse_of c w"
  "mse_of c (w\<lparr>next_client := y\<rparr>) = mse_of c w"
  "client_of (mse_of c w) = clients w c" "sinks (mse_of c w) = w_sinks w"
  by (simp_all add: mse_of_def)

lemma run_inv_other_sinks: "run_inv v \<Longrightarrow> \<forall>k. sink_ok (ss k) \<Longrightarrow> run_inv (v\<lparr>sinks := ss\<rparr>)"
  by (rule run_inv_frame [OF _ frame_client_eq]) (simp_all add: run_inv_def good_def capped_def)

section \<open>Every operation keeps the invariant\<close>

lemma createBackend_new:
  assumes "\<forall>k. sink_ok (ss k)"
  shows "yields (\<lambda>(v, ok). sinks v = ss \<and> (ok \<longrightarrow> run_inv v))
    (createBackend ora created \<lparr>client_of = new_client (Some new_client_backend) mw mh, sinks = ss\<rparr>)"
  using assms
  by (simp add: createBackend_def callInEventLoop_def new_client_def createMediaPlayerBackend_def
      isMediaPlayerBackendCreated_def backend_do_def forward_def sq_start_def sq_new_def run_inv_def
      good_def backend_ok_def capped_def Let_def new_client_backend_def)

lemma refCount_up:
  assumes "unat (r :: u32) = n" "n < 2 ^ 32 - 1"
  shows "unat (r + 1) = Suc n"
  using assms by (simp add: unat_word_ariths)

lemma refCount_down:
  assumes "unat (r :: u32) = n" "0 < n"
  shows "unat (r - 1) = n - 1"
  using assms by (simp add: unat_sub_if_size word_size)

lemma world_inv_create:
  assumes inv: "world_inv N w" and k: "k < N" and N: "N < 2 ^ 32" and free: "managers w k = new_manager"
  shows "yields (world_inv N) (createMediaPlayerClient ora created k parent mw mh w)"
proof (cases "info_of w parent")
  case (Some info)
  let ?m = "\<lparr>m_client = Some (inf_client info), m_currentGstBinParent = Some parent\<rparr>"
  let ?w = "set_manager k ?m (w\<lparr>m_mediaPlayerClientsInfo := assoc_modify parent
               (\<lambda>i. i\<lparr>inf_refCount := inf_refCount i + 1\<rparr>) (m_mediaPlayerClientsInfo w)\<rparr>)"
  have nk: "k \<notin> attached_to p w" for p using free by (simp add: attached_to_def new_manager_def)
  have "card (attached_to parent w) \<le> card ({j. j < N} - {k})"
    using attached_bound(1) [OF inv] nk by (intro card_mono) auto
  then have "card (attached_to parent w) < 2 ^ 32 - 1" using k N by simp
  moreover have "unat (inf_refCount info) = card (attached_to parent w)"
    using inv Some by (simp add: world_inv_def infos_ok_def info_ok_def)
  ultimately have rc: "unat (inf_refCount info + 1) = card (insert k (attached_to parent w))"
    using refCount_up attached_bound(2) [OF inv] nk by simp
  have "infos_ok ?w"
    using inv Some rc nk by (auto simp: world_inv_def infos_ok_def info_ok_def attached_set map_of_assoc_modify split: if_splits)
  moreover have "managers_ok N ?w"
    using inv Some k unfolding world_inv_def managers_ok_def
    by (auto simp: map_of_assoc_modify) (metis (no_types) client_info.simps(1) option.map(2))
  ultimately show ?thesis using inv Some by (simp add: createMediaPlayerClient_def world_inv_def)
next
  case None
  let ?c = "next_client w" and ?m = "\<lparr>m_client = Some (next_client w), m_currentGstBinParent = Some parent\<rparr>"
  let ?i = "\<lparr>inf_client = next_client w, inf_controller = Some k, inf_refCount = 1\<rparr>"
  have caps: "\<forall>k. sink_ok (w_sinks w k)" and io: "infos_ok w" and mo: "managers_ok N w"
    using inv by (simp_all add: world_inv_def)
  have nk: "k \<notin> attached_to p w" for p using free by (simp add: attached_to_def new_manager_def)
  have at: "attached_to parent w = {}"
  proof (rule ccontr)
    assume "attached_to parent w \<noteq> {}"
    then obtain j where "j \<in> attached_to parent w" by blast
    with None show False by (cases rule: manager_cases [OF inv, of j]) (auto simp: attached_to_def new_manager_def)
  qed
  obtain x where x: "createBackend ora created
      \<lparr>client_of = new_client (Some new_client_backend) mw mh, sinks = w_sinks w\<rparr> = Inr x"
    "case x of (v, ok) \<Rightarrow> sinks v = w_sinks w \<and> (ok \<longrightarrow> run_inv v)"
    using createBackend_new [OF caps] by (rule yieldsE)
  obtain v ok where v: "x = (v, ok)" by (cases x)
  show ?thesis
  proof (cases ok)
    case False
    with None x v inv show ?thesis by (simp add: createMediaPlayerClient_def Let_def)
  next
    case True
    with x v have rv: "run_inv v" and sv: "sinks v = w_sinks w" by simp_all
    let ?w = "set_manager k ?m ((put_mse ?c v w)\<lparr>next_client := Suc ?c,
       m_mediaPlayerClientsInfo := m_mediaPlayerClientsInfo w @ [(parent, ?i)]\<rparr>)"
    have look: "info_of ?w p = (if p = parent then Some ?i else info_of w p)" for p
      using None by (auto simp: map_add_def split: option.splits)
    have others: "run_inv (mse_of (inf_client j) ?w)" "inf_client j < next_client w" if "info_of w p = Some j" for p j
    proof -
      show lt: "inf_client j < next_client w" using io that by (simp add: infos_ok_def info_ok_def)
      have "run_inv (mse_of (inf_client j) w)" using io that by (simp add: infos_ok_def info_ok_def)
      with lt show "run_inv (mse_of (inf_client j) ?w)"
        using run_inv_other_sinks caps sv by (simp add: mse_of_def put_mse_def)
    qed
    have "distinct (map fst (m_mediaPlayerClientsInfo ?w))"
      using io None by (simp add: infos_ok_def map_of_eq_None_iff)
    moreover have "info_ok ?w p i" if "info_of ?w p = Some i" for p i
    proof (cases "p = parent")
      case True
      with that look have "i = ?i" by simp
      with True at rv show ?thesis by (simp add: attached_set info_ok_def)
    next
      case False
      with that look have pi: "info_of w p = Some i" by simp
      then have "unat (inf_refCount i) = card (attached_to p w) \<and> attached_to p w \<noteq> {} \<and>
        (\<forall>k. inf_controller i = Some k \<longrightarrow> k \<in> attached_to p w)"
        using io by (simp add: infos_ok_def info_ok_def)
      with others [OF pi] False nk show ?thesis by (simp add: attached_set info_ok_def)
    qed
    moreover have "p = q" if "info_of ?w p = Some i" "info_of ?w q = Some j" "inf_client i = inf_client j" for p q i j
    proof (cases "p = parent \<or> q = parent")
      case True
      with that look show ?thesis by (auto split: if_splits dest!: others(2))
    next
      case False
      with that look io show ?thesis by (auto simp: infos_ok_def)
    qed
    ultimately have "infos_ok ?w" unfolding infos_ok_def by blast
    moreover have "managers_ok N ?w"
      unfolding managers_ok_def
    proof
      fix j
      show "managers ?w j = new_manager \<or> (j < N \<and> (\<exists>p i. info_of ?w p = Some i \<and>
          managers ?w j = \<lparr>m_client = Some (inf_client i), m_currentGstBinParent = Some p\<rparr>))"
      proof (cases "j = k")
        case True
        then show ?thesis using k look [of parent] by auto
      next
        case False
        then have "managers ?w j = managers w j" by simp
        moreover have "managers w j = new_manager \<or> (j < N \<and> (\<exists>p i. info_of w p = Some i \<and>
          managers w j = \<lparr>m_client = Some (inf_client i), m_currentGstBinParent = Some p\<rparr>))"
          using mo by (simp add: managers_ok_def)
        ultimately show ?thesis using look None by (metis option.distinct(1))
      qed
    qed
    moreover have "\<forall>k. sink_ok (w_sinks ?w k)" using caps sv by simp
    ultimately have "world_inv N ?w" by (simp add: world_inv_def)
    with None x v True show ?thesis by (simp add: createMediaPlayerClient_def Let_def)
  qed
qed


text \<open>Stopping a client and destroying its backend touches nothing but that client.\<close>

lemma stop_and_destroy:
  assumes "run_inv (mse_of c w)"
  shows "yields (\<lambda>w'. \<exists>v. w' = put_mse c v w \<and> stopped_inv v \<and> m_clientBackend (client_of v) = None)
    (bind_result (on_client c (stopStreaming ora undef) w) (on_client c (\<lambda>v. Inr (destroyClientBackend v))))"
proof -
  obtain v where v: "stopStreaming ora undef (mse_of c w) = Inr v" "stopped_inv v"
    using run_inv_stopStreaming [OF assms] by (rule yieldsE)
  have "put_mse c (destroyClientBackend v) (put_mse c v w) = put_mse c (destroyClientBackend v) w"
    by (simp add: put_mse_def)
  moreover have "stopped_inv (destroyClientBackend v)" using v(2)
    by (simp add: destroyClientBackend_def stopped_inv_def)
  moreover have "m_clientBackend (client_of (destroyClientBackend v)) = None"
    by (simp add: destroyClientBackend_def)
  moreover have "bind_result (on_client c (stopStreaming ora undef) w) (on_client c (\<lambda>v. Inr (destroyClientBackend v))) =
      Inr (put_mse c (destroyClientBackend v) (put_mse c v w))"
    using v(1) by (simp add: on_client_def)
  ultimately show ?thesis by (simp only: yields_simps) blast
qed

lemma release_cases:
  assumes inv: "world_inv N w"
  shows "yields (\<lambda>w'. world_inv N w' \<and> managers w' = (managers w)(k := new_manager)) (releaseMediaPlayerClient ora undef k w)"
proof (cases rule: manager_cases [OF inv, of k])
  case 1
  with inv show ?thesis by (auto simp: releaseMediaPlayerClient_def)
next
  case (2 parent info)
  have io: "infos_ok w" and mo: "managers_ok N w" and caps: "\<forall>k. sink_ok (w_sinks w k)"
    using inv by (simp_all add: world_inv_def)
  have rc: "unat (inf_refCount info) = card (attached_to parent w)" and run: "run_inv (mse_of (inf_client info) w)"
    using io 2 by (simp_all add: infos_ok_def info_ok_def)
  have pos: "0 < card (attached_to parent w)"
    using attached_bound(2) [OF inv] 2(5) by (auto simp: card_gt_0_iff)
  have down: "unat (inf_refCount info - 1) = card (attached_to parent w - {k})"
    using refCount_down [OF rc pos] 2(5) attached_bound(2) [OF inv] by simp
  have rel: "releaseMediaPlayerClient ora undef k w = bind_result
      (if inf_refCount info - 1 = 0
       then bind_result (on_client (inf_client info) (stopStreaming ora undef) w) (\<lambda>w.
            bind_result (on_client (inf_client info) (\<lambda>v. Inr (destroyClientBackend v)) w) (\<lambda>w.
            Inr (w\<lparr>m_mediaPlayerClientsInfo := assoc_erase parent (m_mediaPlayerClientsInfo w)\<rparr>)))
       else Inr (w\<lparr>m_mediaPlayerClientsInfo := assoc_modify parent
              (\<lambda>i. i\<lparr>inf_refCount := inf_refCount info - 1,
                 inf_controller := (if inf_controller i = Some k then None else inf_controller i)\<rparr>)
              (m_mediaPlayerClientsInfo w)\<rparr>))
      (\<lambda>w. Inr (set_manager k new_manager w))"
    using 2 by (simp add: releaseMediaPlayerClient_def Let_def)
  have elsewhere: "k \<notin> attached_to p w" if "p \<noteq> parent" for p using 2(3) that by (simp add: attached_to_def)
  show ?thesis
  proof (cases "inf_refCount info - 1 = 0")
    case True
    then have none: "attached_to parent w - {k} = {}"
      using down attached_bound(2) [OF inv] by (metis card_0_eq finite_Diff unat_0)
    obtain w1 v where w1: "bind_result (on_client (inf_client info) (stopStreaming ora undef) w)
        (on_client (inf_client info) (\<lambda>v. Inr (destroyClientBackend v))) = Inr w1"
      "w1 = put_mse (inf_client info) v w" "stopped_inv v"
      using stop_and_destroy [OF run] by (rule yieldsE) blast
    have cv: "\<forall>k. sink_ok (sinks v k)" using w1(3) by (simp add: stopped_inv_def capped_def)
    let ?w = "set_manager k new_manager (w1\<lparr>m_mediaPlayerClientsInfo := assoc_erase parent (m_mediaPlayerClientsInfo w)\<rparr>)"
    have r: "releaseMediaPlayerClient ora undef k w = Inr ?w"
      using w1(1,2) True unfolding rel by (auto simp: bind_result_Inr)
    have look: "info_of ?w p = (if p = parent then None else info_of w p)" for p
      by (simp add: map_of_assoc_erase)
    have kept: "run_inv (mse_of (inf_client j) ?w)" if "info_of w p = Some j" "p \<noteq> parent" for p j
    proof -
      have "inf_client j \<noteq> inf_client info" "run_inv (mse_of (inf_client j) w)"
        using io that 2(2) by (auto simp: infos_ok_def info_ok_def)
      with run_inv_other_sinks [OF this(2) cv] show ?thesis by (simp add: w1(2) mse_of_def put_mse_def)
    qed
    have "info_ok ?w p i" if "info_of ?w p = Some i" for p i
    proof -
      from that look have pi: "p \<noteq> parent" "info_of w p = Some i" by (simp_all split: if_splits)
      then have "info_ok w p i" using io by (simp add: infos_ok_def)
      with kept [OF pi(2,1)] elsewhere [OF pi(1)] show ?thesis
        by (simp add: info_ok_def attached_set new_manager_def w1(2))
    qed
    moreover have "distinct (map fst (m_mediaPlayerClientsInfo ?w))"
      using io by (simp add: infos_ok_def keys_assoc_erase)
    moreover have "p = q" if "info_of ?w p = Some i" "info_of ?w q = Some j" "inf_client i = inf_client j" for p q i j
      using that look io by (auto simp: infos_ok_def split: if_splits)
    ultimately have "infos_ok ?w" unfolding infos_ok_def by blast
    moreover have "managers_ok N ?w"
      unfolding managers_ok_def
    proof
      fix j
      show "managers ?w j = new_manager \<or> (j < N \<and> (\<exists>p i. info_of ?w p = Some i \<and>
          managers ?w j = \<lparr>m_client = Some (inf_client i), m_currentGstBinParent = Some p\<rparr>))"
      proof (cases rule: manager_cases [OF inv, of j])
        case 1
        then show ?thesis by (simp add: w1(2))
      next
        case (2 p i)
        show ?thesis
        proof (cases "j = k")
          case False
          with 2(5) none have "p \<noteq> parent" by auto
          with 2 False look show ?thesis by (simp add: w1(2))
        qed simp
      qed
    qed
    ultimately show ?thesis using r cv w1(2) by (simp add: world_inv_def)
  next
    case False
    let ?f = "\<lambda>i. i\<lparr>inf_refCount := inf_refCount info - 1,
       inf_controller := (if inf_controller i = Some k then None else inf_controller i)\<rparr>"
    let ?w = "set_manager k new_manager (w\<lparr>m_mediaPlayerClientsInfo := assoc_modify parent ?f (m_mediaPlayerClientsInfo w)\<rparr>)"
    have r: "releaseMediaPlayerClient ora undef k w = Inr ?w" unfolding rel using False by simp
    have look: "info_of ?w p = (if p = parent then Some (?f info) else info_of w p)" for p
      using 2(2) by (simp add: map_of_assoc_modify)
    have ne: "attached_to parent w - {k} \<noteq> {}"
      using False down by (metis card.empty unat_eq_zero)
    have "info_ok ?w p i" if "info_of ?w p = Some i" for p i
    proof (cases "p = parent")
      case True
      with that look have i: "i = ?f info" by simp
      have "info_ok w parent info" using io 2(2) by (simp add: infos_ok_def)
      then have "inf_client info < next_client w" "run_inv (mse_of (inf_client info) w)"
        "\<forall>j. inf_controller info = Some j \<longrightarrow> j \<in> attached_to parent w" by (simp_all add: info_ok_def)
      with down ne show ?thesis unfolding i True
        by (auto simp: info_ok_def attached_set new_manager_def)
    next
      case False
      with that look have "info_ok w p i" using io by (simp add: infos_ok_def)
      with elsewhere [OF False] show ?thesis by (simp add: info_ok_def attached_set new_manager_def)
    qed
    moreover have "distinct (map fst (m_mediaPlayerClientsInfo ?w))"
      using io by (simp add: infos_ok_def)
    moreover have "p = q" if "info_of ?w p = Some i" "info_of ?w q = Some j" "inf_client i = inf_client j" for p q i j
    proof -
      have "\<exists>j. info_of w q = Some j \<and> inf_client j = inf_client i" if "info_of ?w q = Some i" for q i
        using that look 2(2) by (cases "q = parent") auto
      from this [OF that(1)] this [OF that(2)] that(3) io show ?thesis by (auto simp: infos_ok_def)
    qed
    ultimately have "infos_ok ?w" unfolding infos_ok_def by blast
    moreover have "managers_ok N ?w"
      unfolding managers_ok_def
    proof
      fix j
      show "managers ?w j = new_manager \<or> (j < N \<and> (\<exists>p i. info_of ?w p = Some i \<and>
          managers ?w j = \<lparr>m_client = Some (inf_client i), m_currentGstBinParent = Some p\<rparr>))"
      proof (cases rule: manager_cases [OF inv, of j])
        case (2 p i)
        then show ?thesis using look \<open>info_of w parent = Some info\<close>
          by (cases "p = parent") (auto intro!: exI [of _ p])
      qed simp
    qed
    ultimately show ?thesis using r caps by (simp add: world_inv_def)
  qed
qed


lemma world_inv_attach:
  assumes inv: "world_inv N w" and k: "k < N" and N: "N < 2 ^ 32"
  shows "yields (\<lambda>(w', ok). world_inv N w' \<and> ok = (lock_client k w' \<noteq> None))
    (attachMediaPlayerClient ora undef created k parent mw mh w)"
proof -
  have c: "yields (world_inv N) (createMediaPlayerClient ora created k parent mw mh v)"
    if "world_inv N v" "managers v k = new_manager" for v
    using world_inv_create [OF that(1) k N that(2)] .
  have step: "yields (world_inv N) (case lock_client k w of
          None \<Rightarrow> createMediaPlayerClient ora created k parent mw mh w
        | Some _ \<Rightarrow>
           (if Some parent \<noteq> m_currentGstBinParent (managers w k)
            then bind_result (releaseMediaPlayerClient ora undef k w)
                   (createMediaPlayerClient ora created k parent mw mh)
            else Inr w))"
  proof (cases rule: manager_cases [OF inv, of k])
    case 1
    with c inv show ?thesis by simp
  next
    case (2 p i)
    with inv show ?thesis
      by (auto intro!: yields_bind [OF release_cases [OF inv]] c)
  qed
  show ?thesis unfolding attachMediaPlayerClient_def by (rule yields_bind [OF step]) simp
qed

lemma assoc_modify_same: "assoc_modify p (\<lambda>i. i) xs = xs"
  by (induction xs) (auto simp: assoc_modify_def)

lemma hasControl_cases:
  assumes "world_inv N w"
  shows "hasControl k w = (case m_currentGstBinParent (managers w k) of
      None \<Rightarrow> (w, False)
    | Some p \<Rightarrow> (case inf_controller (the (info_of w p)) of
        None \<Rightarrow> (w\<lparr>m_mediaPlayerClientsInfo := assoc_modify p (\<lambda>i. i\<lparr>inf_controller := Some k\<rparr>) (m_mediaPlayerClientsInfo w)\<rparr>, True)
      | Some j \<Rightarrow> (w, j = k)))"
proof (cases rule: manager_cases [OF assms, of k])
  case 1
  then show ?thesis by (simp add: hasControl_def new_manager_def)
next
  case (2 p i)
  have d: "distinct (map fst (m_mediaPlayerClientsInfo w))" using assms by (simp add: world_inv_def infos_ok_def)
  let ?f = "\<lambda>i. i\<lparr>inf_controller := Some k\<rparr>"
  have set: "assoc_modify p (\<lambda>_. i\<lparr>inf_controller := Some k\<rparr>) (m_mediaPlayerClientsInfo w) =
      assoc_modify p ?f (m_mediaPlayerClientsInfo w)"
    using assoc_modify_cong [OF d 2(2), of "\<lambda>_. ?f i" ?f] by simp
  have same: "assoc_modify p (\<lambda>_. i) (m_mediaPlayerClientsInfo w) = m_mediaPlayerClientsInfo w"
    using assoc_modify_cong [OF d 2(2), of "\<lambda>_. i" "\<lambda>i. i"] by (simp add: assoc_modify_same)
  have l: "hasControl k w = (if inf_controller i = Some k then (w, True)
      else (let (info', b) = acquireControl k i
            in (w\<lparr>m_mediaPlayerClientsInfo := assoc_modify p (\<lambda>_. info') (m_mediaPlayerClientsInfo w)\<rparr>, b)))"
    using 2(2,3,4) by (simp add: hasControl_def)
  show ?thesis
  proof (cases "inf_controller i")
    case None
    then show ?thesis using l set 2(2,3) by (simp add: acquireControl_def)
  next
    case (Some j)
    then show ?thesis using l same 2(2,3) by (simp add: acquireControl_def)
  qed
qed

lemma world_inv_hasControl:
  assumes inv: "world_inv N w"
  shows "world_inv N (fst (hasControl k w))"
proof (cases rule: manager_cases [OF inv, of k])
  case 1
  with inv show ?thesis by (simp add: hasControl_def)
next
  case (2 parent info)
  let ?f = "\<lambda>i. i\<lparr>inf_controller := Some k\<rparr>"
  let ?w = "w\<lparr>m_mediaPlayerClientsInfo := assoc_modify parent ?f (m_mediaPlayerClientsInfo w)\<rparr>"
  have io: "infos_ok w" and mo: "managers_ok N w" using inv by (simp_all add: world_inv_def)
  have look: "info_of ?w p = (if p = parent then Some (?f info) else info_of w p)" for p
    using 2(2) by (simp add: map_of_assoc_modify)
  have prior: "\<exists>j. info_of w q = Some j \<and> inf_client j = inf_client i" if "info_of ?w q = Some i" for q i
    using that look 2(2) by (cases "q = parent") auto
  have "info_ok ?w p i" if "info_of ?w p = Some i" for p i
  proof (cases "p = parent")
    case True
    moreover have "info_ok w parent info" using io 2(2) by (simp add: infos_ok_def)
    ultimately show ?thesis using that look 2(5) by (auto simp: info_ok_def)
  next
    case False
    with that look have "info_ok w p i" using io by (simp add: infos_ok_def)
    then show ?thesis by (simp add: info_ok_def)
  qed
  moreover have "distinct (map fst (m_mediaPlayerClientsInfo ?w))" using io by (simp add: infos_ok_def)
  moreover have "p = q" if "info_of ?w p = Some i" "info_of ?w q = Some j" "inf_client i = inf_client j" for p q i j
    using prior [OF that(1)] prior [OF that(2)] that(3) io by (auto simp: infos_ok_def)
  ultimately have "infos_ok ?w" unfolding infos_ok_def by blast
  moreover have "managers_ok N ?w"
    unfolding managers_ok_def
  proof
    fix j
    show "managers ?w j = new_manager \<or> (j < N \<and> (\<exists>p i. info_of ?w p = Some i \<and>
        managers ?w j = \<lparr>m_client = Some (inf_client i), m_currentGstBinParent = Some p\<rparr>))"
    proof (cases rule: manager_cases [OF inv, of j])
      case (2 p i)
      then show ?thesis using look \<open>info_of w parent = Some info\<close>
        by (cases "p = parent") (auto intro!: exI [of _ p])
    qed simp
  qed
  ultimately have "world_inv N ?w" using inv by (simp add: world_inv_def)
  moreover have "hasControl k w = (case inf_controller info of None \<Rightarrow> (?w, True) | Some j \<Rightarrow> (w, j = k))"
    using 2(2,3) by (simp add: hasControl_cases [OF inv])
  ultimately show ?thesis using inv by (cases "inf_controller info") simp_all
qed

lemma world_inv_client_runs:
  assumes inv: "world_inv N w" and ev: "ev \<noteq> Stop_Streaming" and own: "owned w c"
  shows "yields (world_inv N) (on_client c (perform ora undef lost ev) w)"
proof -
  have io: "infos_ok w" and mo: "managers_ok N w" using inv by (simp_all add: world_inv_def)
  from own io obtain p i where pi: "info_of w p = Some i" "inf_client i = c" by (auto simp: owned_info)
  then have "run_inv (mse_of c w)" using io by (auto simp: infos_ok_def info_ok_def)
  from running_stays_running [OF this ev, of ora undef lost] obtain v where
    v: "perform ora undef lost ev (mse_of c w) = Inr v" "run_inv v" by (rule yieldsE)
  have caps: "\<forall>k. sink_ok (sinks v k)" using v(2) by (simp add: run_inv_def good_def capped_def)
  have run: "run_inv (mse_of d (put_mse c v w))" if "run_inv (mse_of d w)" for d
    using run_inv_other_sinks [OF that caps] v(2) by (cases "d = c") (simp_all add: mse_of_put_other)
  have "info_ok (put_mse c v w) q j" if "info_of w q = Some j" for q j
    using io that run by (simp add: infos_ok_def info_ok_def)
  then have "infos_ok (put_mse c v w)" using io by (simp add: infos_ok_def)
  moreover have "managers_ok N (put_mse c v w)" using mo by (simp add: managers_ok_def)
  ultimately show ?thesis using v caps by (simp add: on_client_def world_inv_def)
qed

lemma world_inv_manage:
  assumes "world_inv N w" "manager_of ev < N" "N < 2 ^ 32"
  shows "yields (world_inv N) (manage ora undef lost ev w)"
proof (cases ev)
  case (Attach_Client k p mw mh created)
  then show ?thesis using assms
    by (auto intro!: yields_bind [OF world_inv_attach])
next
  case (Release_Client k)
  then show ?thesis using release_cases [OF assms(1), of k ora undef] by (auto elim: yields_mono)
next
  case (Has_Control k)
  then show ?thesis using world_inv_hasControl [OF assms(1)] by simp
next
  case (Client_Runs c cev)
  moreover have "cev \<noteq> Stop_Streaming" if "\<not> teardown cev" using that by auto
  ultimately show ?thesis using assms(1) world_inv_client_runs [OF assms(1)] by simp
qed

interpretation manager_system: safe_system "manage ora undef lost" "manage_all ora undef lost"
  "\<lambda>ev. manager_of ev < N \<and> N < 2 ^ 32" "world_inv N"
  for ora undef lost N
  by unfold_locales (auto intro: world_inv_manage)

lemma world_inv_manage_all:
  "world_inv N w \<Longrightarrow> list_all (\<lambda>ev. manager_of ev < N) evs \<Longrightarrow> N < 2 ^ 32 \<Longrightarrow>
   yields (world_inv N) (manage_all ora undef lost evs w)"
  by (rule manager_system.run_safe) (simp_all add: list_all_iff)

section \<open>What the managers guarantee\<close>

text \<open>
  The worlds that \<open>N\<close> managers can reach. The reference count has 32 bits, so \<open>N\<close> is below its bound.
\<close>

definition managed :: "nat \<Rightarrow> pipeline \<Rightarrow> i32 \<Rightarrow> (gst_element \<Rightarrow> gst_element) \<Rightarrow> manager_event list \<Rightarrow>
    (nat \<Rightarrow> base_sink) \<Rightarrow> bool" where
  "managed N ora undef lost evs ss \<longleftrightarrow>
     N < 2 ^ 32 \<and> list_all (\<lambda>ev. manager_of ev < N) evs \<and> (\<forall>k. sink_ok (ss k))"

lemma managed_inv: "managed N ora undef lost evs ss \<Longrightarrow> yields (world_inv N) (manage_all ora undef lost evs (start_world ss))"
  unfolding managed_def by (intro world_inv_manage_all world_inv_start) simp_all

lemma managed_reached:
  "managed N ora undef lost evs ss \<Longrightarrow> manage_all ora undef lost evs (start_world ss) = Inr w \<Longrightarrow> world_inv N w"
  using managed_inv [of N ora undef lost evs ss] by simp

lemma attached_info:
  assumes "world_inv N w" "m_currentGstBinParent (managers w k) = Some p"
  obtains i where "info_of w p = Some i" "m_client (managers w k) = Some (inf_client i)"
    "lock_client k w = Some (inf_client i)" "info_ok w p i" "k < N"
proof (cases rule: manager_cases [OF assms(1), of k])
  case 1
  with assms(2) show thesis by (simp add: new_manager_def)
next
  case (2 q i)
  moreover have "q = p" using 2(3) assms(2) by simp
  moreover have "info_ok w q i" using assms(1) 2(2) by (simp add: world_inv_def infos_ok_def)
  ultimately show thesis using that by simp
qed

text \<open>
  C27. Sinks in one bin share one client. No sequence of attach, release, control requests and
  client activity by \<open>N\<close> managers faults, and afterwards the reference count of every entry is the
  number of managers attached to its bin and not zero; every attached manager reaches the client of its
  bin's entry, whose pipeline is there and whose event loop has not been stopped; and different bins have
  different clients.
\<close>

theorem managers_share_one_client:
  assumes "managed N ora undef lost evs ss"
  shows "yields (\<lambda>w.
      (\<forall>p i. info_of w p = Some i \<longrightarrow>
         unat (inf_refCount i) = card {k. m_currentGstBinParent (managers w k) = Some p} \<and> 0 < inf_refCount i) \<and>
      (\<forall>k p. m_currentGstBinParent (managers w k) = Some p \<longrightarrow> (\<exists>i. info_of w p = Some i \<and>
         getMediaPlayerClient k w = Some (inf_client i) \<and> pipeline_alive (mse_of (inf_client i) w) \<and>
         \<not> m_streamingStopped (clients w (inf_client i)))) \<and>
      (\<forall>p q i j. info_of w p = Some i \<longrightarrow> info_of w q = Some j \<longrightarrow> inf_client i = inf_client j \<longrightarrow> p = q))
    (manage_all ora undef lost evs (start_world ss))"
proof (rule yields_mono [OF managed_inv [OF assms]])
  fix w assume inv: "world_inv N w"
  have ok: "info_ok w p i" if "info_of w p = Some i" for p i
    using inv that by (simp add: world_inv_def infos_ok_def)
  have "unat (inf_refCount i) = card {k. m_currentGstBinParent (managers w k) = Some p} \<and> 0 < inf_refCount i"
    if "info_of w p = Some i" for p i
    using ok [OF that] attached_bound(2) [OF inv, of p]
    by (auto simp: info_ok_def attached_to_def word_neq_0_conv [symmetric])
  moreover have "\<exists>i. info_of w p = Some i \<and> getMediaPlayerClient k w = Some (inf_client i) \<and>
      pipeline_alive (mse_of (inf_client i) w) \<and> \<not> m_streamingStopped (clients w (inf_client i))"
    if "m_currentGstBinParent (managers w k) = Some p" for k p
    by (rule attached_info [OF inv that])
       (auto simp: getMediaPlayerClient_def info_ok_def run_inv_alive, simp add: run_inv_def)
  ultimately show "(\<forall>p i. info_of w p = Some i \<longrightarrow>
         unat (inf_refCount i) = card {k. m_currentGstBinParent (managers w k) = Some p} \<and> 0 < inf_refCount i) \<and>
      (\<forall>k p. m_currentGstBinParent (managers w k) = Some p \<longrightarrow> (\<exists>i. info_of w p = Some i \<and>
         getMediaPlayerClient k w = Some (inf_client i) \<and> pipeline_alive (mse_of (inf_client i) w) \<and>
         \<not> m_streamingStopped (clients w (inf_client i)))) \<and>
      (\<forall>p q i j. info_of w p = Some i \<longrightarrow> info_of w q = Some j \<longrightarrow> inf_client i = inf_client j \<longrightarrow> p = q)"
    using inv by (auto simp: world_inv_def infos_ok_def)
qed

definition two_sinks_run :: "manager_event list" where
  "two_sinks_run = [Attach_Client 0 7 0 0 True, Attach_Client 1 7 0 0 True, Attach_Client 2 8 0 0 True, Has_Control 1]"

lemma two_sinks_managed: "managed 3 yes_pipeline 0 id two_sinks_run quiet_sinks"
  by (simp add: managed_def two_sinks_run_def quiet_sinks_caps)

definition two_sinks :: "world \<Rightarrow> bool" where
  "two_sinks w \<longleftrightarrow> m_mediaPlayerClientsInfo w =
       [(7, \<lparr>inf_client = 0, inf_controller = Some 0, inf_refCount = 2\<rparr>),
        (8, \<lparr>inf_client = 1, inf_controller = Some 2, inf_refCount = 1\<rparr>)] \<and>
     map (\<lambda>k. m_currentGstBinParent (managers w k)) [0, 1, 2] = [Some 7, Some 7, Some 8]"

lemma two_sinks_result: "yields two_sinks (manage_all yes_pipeline 0 id two_sinks_run (start_world quiet_sinks))"
  by code_simp

theorem managers_share_one_client_witness:
  "\<exists>w. manage_all yes_pipeline 0 id two_sinks_run (start_world quiet_sinks) = Inr w \<and>
     card {k. m_currentGstBinParent (managers w k) = Some 7} = 2 \<and>
     getMediaPlayerClient 0 w = getMediaPlayerClient 1 w \<and> getMediaPlayerClient 2 w \<noteq> getMediaPlayerClient 0 w"
proof -
  obtain w where w: "manage_all yes_pipeline 0 id two_sinks_run (start_world quiet_sinks) = Inr w"
    and two: "two_sinks w" by (rule yieldsE [OF two_sinks_result])
  from managers_share_one_client [OF two_sinks_managed, unfolded w]
  have count: "\<And>p i. info_of w p = Some i \<Longrightarrow>
      unat (inf_refCount i) = card {k. m_currentGstBinParent (managers w k) = Some p}"
    and reach: "\<And>k p. m_currentGstBinParent (managers w k) = Some p \<Longrightarrow>
      (\<exists>i. info_of w p = Some i \<and> getMediaPlayerClient k w = Some (inf_client i))"
    unfolding yields_simps by (blast, blast)
  have "card {k. m_currentGstBinParent (managers w k) = Some 7} = 2" using count [of 7] two by (simp add: two_sinks_def)
  moreover have "getMediaPlayerClient 0 w = Some 0" "getMediaPlayerClient 1 w = Some 0" "getMediaPlayerClient 2 w = Some 1"
    using reach [of 0 7] reach [of 1 7] reach [of 2 8] two by (simp_all add: two_sinks_def)
  ultimately show ?thesis by (intro exI [of _ w] conjI w) simp_all
qed

text \<open>What a release comes to.\<close>

lemma release_result:
  assumes "world_inv N w" "m_currentGstBinParent (managers w k) = Some p" "info_of w p = Some i"
  shows "if inf_refCount i - 1 = 0
    then \<exists>v. stopped_inv v \<and> m_clientBackend (client_of v) = None \<and>
      releaseMediaPlayerClient ora undef k w = Inr (set_manager k new_manager
        ((put_mse (inf_client i) v w)\<lparr>m_mediaPlayerClientsInfo := assoc_erase p (m_mediaPlayerClientsInfo w)\<rparr>))
    else releaseMediaPlayerClient ora undef k w = Inr (set_manager k new_manager
        (w\<lparr>m_mediaPlayerClientsInfo := assoc_modify p (\<lambda>j. j\<lparr>inf_refCount := inf_refCount i - 1,
           inf_controller := (if inf_controller j = Some k then None else inf_controller j)\<rparr>)
           (m_mediaPlayerClientsInfo w)\<rparr>))"
proof -
  have run: "run_inv (mse_of (inf_client i) w)" using assms(1,3) by (simp add: world_inv_def infos_ok_def info_ok_def)
  have lock: "lock_client k w = Some (inf_client i)" using attached_info [OF assms(1,2)] assms(3) by auto
  obtain w1 v where w1: "bind_result (on_client (inf_client i) (stopStreaming ora undef) w)
      (on_client (inf_client i) (\<lambda>v. Inr (destroyClientBackend v))) = Inr w1"
    "w1 = put_mse (inf_client i) v w" "stopped_inv v" "m_clientBackend (client_of v) = None"
    using stop_and_destroy [OF run] by (rule yieldsE) blast
  show ?thesis
  proof (cases "inf_refCount i - 1 = 0")
    case True
    have "releaseMediaPlayerClient ora undef k w = Inr (set_manager k new_manager
        (w1\<lparr>m_mediaPlayerClientsInfo := assoc_erase p (m_mediaPlayerClientsInfo w)\<rparr>))"
      using lock assms(2,3) True w1(1,2) by (auto simp: releaseMediaPlayerClient_def bind_result_Inr)
    with True w1(2-4) show ?thesis by (auto intro!: exI [of _ v])
  next
    case False
    with lock assms(2,3) show ?thesis by (simp add: releaseMediaPlayerClient_def Let_def)
  qed
qed

text \<open>The manager \<open>k\<close> is attached to the bin \<open>p\<close> and has its control.\<close>

definition in_control :: "nat \<Rightarrow> nat \<Rightarrow> world \<Rightarrow> bool" where
  "in_control k p w \<longleftrightarrow> m_currentGstBinParent (managers w k) = Some p \<and>
     map_option inf_controller (info_of w p) = Some (Some k)"

lemma control_create:
  assumes "in_control k p w" "j \<noteq> k"
  shows "yields (in_control k p) (createMediaPlayerClient ora created j q mw mh w)"
proof (cases "info_of w q")
  case (Some i)
  with assms show ?thesis by (auto simp: createMediaPlayerClient_def in_control_def map_of_assoc_modify)
next
  case None
  have "yields (\<lambda>_. True) (createBackend ora created \<lparr>client_of = new_client (Some new_client_backend) mw mh, sinks = w_sinks w\<rparr>)"
    by (simp add: createBackend_def callInEventLoop_def new_client_def createMediaPlayerBackend_def
      isMediaPlayerBackendCreated_def backend_do_def forward_def sq_start_def sq_new_def Let_def new_client_backend_def)
  then obtain x where x: "createBackend ora created
      \<lparr>client_of = new_client (Some new_client_backend) mw mh, sinks = w_sinks w\<rparr> = Inr x" by (rule yieldsE)
  obtain v ok where "x = (v, ok)" by (cases x)
  with None assms x show ?thesis
    by (auto simp: createMediaPlayerClient_def in_control_def map_add_def Let_def split: option.splits)
qed

lemma control_release:
  assumes inv: "world_inv N w" and c: "in_control k p w" and "j \<noteq> k"
  shows "yields (in_control k p) (releaseMediaPlayerClient ora undef j w)"
proof (cases rule: manager_cases [OF inv, of j])
  case 1
  with c show ?thesis by (simp add: releaseMediaPlayerClient_def)
next
  case (2 q i)
  have at: "m_currentGstBinParent (managers w j) = Some q" using 2(3) by simp
  have rc: "unat (inf_refCount i) = card (attached_to q w)" "attached_to q w \<noteq> {}"
    using inv 2(2) by (simp_all add: world_inv_def infos_ok_def info_ok_def)
  note r = release_result [OF inv at 2(2), of ora undef]
  show ?thesis
  proof (cases "inf_refCount i - 1 = 0")
    case True
    have "unat (inf_refCount i - 1) = card (attached_to q w - {j})"
      using refCount_down [OF rc(1)] rc(2) 2(5) attached_bound(2) [OF inv] by (simp add: card_gt_0_iff)
    with True have "attached_to q w - {j} = {}" using attached_bound(2) [OF inv]
      by (metis card_0_eq finite_Diff unat_0)
    with c assms(3) have "q \<noteq> p" by (auto simp: in_control_def attached_to_def)
    with r True c assms(3) show ?thesis by (auto simp: in_control_def map_of_assoc_erase)
  next
    case False
    with r c assms(3) 2(2) show ?thesis by (auto simp: in_control_def map_of_assoc_modify)
  qed
qed

lemma control_hasControl:
  assumes inv: "world_inv N w" and c: "in_control k p w"
  shows "in_control k p (fst (hasControl j w))"
  using c by (auto simp: hasControl_cases [OF inv] in_control_def map_of_assoc_modify split: option.split)

text \<open>The events that leave manager \<open>k\<close> attached to its bin \<open>p\<close>: it is not released and not attached elsewhere.\<close>

fun stays_attached :: "nat \<Rightarrow> nat \<Rightarrow> manager_event \<Rightarrow> bool" where
  "stays_attached k p (Attach_Client j q _ _ _) \<longleftrightarrow> j = k \<longrightarrow> q = p"
| "stays_attached k p (Release_Client j) \<longleftrightarrow> j \<noteq> k"
| "stays_attached k p _ \<longleftrightarrow> True"

lemma control_manage:
  assumes inv: "world_inv N w" and N: "manager_of ev < N" "N < 2 ^ 32" and c: "in_control k p w" and ev: "stays_attached k p ev"
  shows "yields (in_control k p) (manage ora undef lost ev w)"
proof (cases ev)
  case (Attach_Client j q mw mh created)
  have "yields (in_control k p) (case lock_client j w of
          None \<Rightarrow> createMediaPlayerClient ora created j q mw mh w
        | Some _ \<Rightarrow>
           (if Some q \<noteq> m_currentGstBinParent (managers w j)
            then bind_result (releaseMediaPlayerClient ora undef j w)
                   (createMediaPlayerClient ora created j q mw mh)
            else Inr w))"
  proof (cases "j = k")
    case True
    with c ev Attach_Client have q: "m_currentGstBinParent (managers w j) = Some q" by (simp add: in_control_def)
    have "\<exists>d. lock_client j w = Some d" by (rule attached_info [OF inv q]) simp
    then obtain d where "lock_client j w = Some d" by blast
    with c q show ?thesis by (simp split: option.split)
  next
    case False
    have "yields (in_control k p) (bind_result (releaseMediaPlayerClient ora undef j w)
                   (createMediaPlayerClient ora created j q mw mh))"
      by (rule yields_bind [OF control_release [OF inv c False]]) (rule control_create [OF _ False])
    with c control_create [OF c False] show ?thesis by (simp split: option.split)
  qed
  then have "yields (\<lambda>(w', _). in_control k p w') (attachMediaPlayerClient ora undef created j q mw mh w)"
    unfolding attachMediaPlayerClient_def by (rule yields_bind) simp
  then show ?thesis unfolding Attach_Client manage.simps by (rule yields_bind) auto
next
  case (Release_Client j)
  with control_release [OF inv c] ev show ?thesis by simp
next
  case (Has_Control j)
  with control_hasControl [OF inv c] show ?thesis by simp
next
  case (Client_Runs d cev)
  have "yields (world_inv N) (manage ora undef lost ev w)" using world_inv_manage [OF inv N] .
  then obtain w' where "manage ora undef lost ev w = Inr w'" by (rule yieldsE)
  with Client_Runs c show ?thesis
    by (auto simp: on_client_def in_control_def bind_result_Inr split: if_splits)
qed

lemma control_run:
  assumes "world_inv N w" "N < 2 ^ 32" "list_all (\<lambda>ev. manager_of ev < N \<and> stays_attached k p ev) evs" "in_control k p w"
    and "manage_all ora undef lost evs w = Inr w'"
  shows "world_inv N w' \<and> in_control k p w'"
  using assms
proof (induction evs arbitrary: w)
  case (Cons ev evs)
  then obtain w1 where w1: "manage ora undef lost ev w = Inr w1" "manage_all ora undef lost evs w1 = Inr w'"
    by (auto simp: bind_result_Inr)
  have "world_inv N w1" using world_inv_manage [of N w ev ora undef lost] Cons.prems w1(1) by simp
  moreover have "in_control k p w1" using control_manage [of N w ev k p ora undef lost] Cons.prems w1(1) by simp
  ultimately show ?case using Cons w1(2) by simp
qed simp

text \<open>
  C29. One controller per bin. A manager that has been told that it has control keeps it: after any
  further run of the managers and the clients, in which any manager may attach, be released or ask for
  control, as long as this one is neither released nor attached to another bin, it is told again that it
  has control, and every other manager that is then attached to the bin is refused.
\<close>

theorem one_controller_per_bin:
  assumes "managed N ora undef lost evs ss" "manage_all ora undef lost evs (start_world ss) = Inr w"
    and "hasControl k w = (w1, True)"
    and "m_currentGstBinParent (managers w k) = Some p" "list_all (\<lambda>ev. manager_of ev < N \<and> stays_attached k p ev) evs2"
    and "manage_all ora undef lost evs2 w1 = Inr w2"
  shows "m_currentGstBinParent (managers w2 k) = Some p \<and> hasControl k w2 = (w2, True) \<and>
    (\<forall>j. j \<noteq> k \<longrightarrow> m_currentGstBinParent (managers w2 j) = Some p \<longrightarrow> hasControl j w2 = (w2, False))"
proof -
  have inv: "world_inv N w" using managed_reached [OF assms(1,2)] .
  obtain i where i: "info_of w p = Some i" using attached_info [OF inv assms(4)] by blast
  have inv1: "world_inv N w1" using world_inv_hasControl [OF inv, of k] assms(3) by simp
  have "in_control k p w1"
    using assms(3,4) i by (auto simp: in_control_def hasControl_cases [OF inv] map_of_assoc_modify split: option.splits)
  with control_run [OF inv1 _ assms(5) _ assms(6)] assms(1) have w2: "world_inv N w2" "in_control k p w2"
    by (simp_all add: managed_def)
  then show ?thesis by (auto simp: hasControl_cases [OF w2(1)] in_control_def)
qed

theorem one_controller_per_bin_witness:
  "\<exists>w w2. manage_all yes_pipeline 0 id two_sinks_run (start_world quiet_sinks) = Inr w \<and>
     manage_all yes_pipeline 0 id [Attach_Client 3 7 0 0 True, Has_Control 3, Release_Client 1] w = Inr w2 \<and>
     m_currentGstBinParent (managers w2 3) = Some 7 \<and> hasControl 3 w2 = (w2, False)"
proof -
  let ?e = "[Attach_Client 3 7 0 0 True, Has_Control 3, Release_Client 1]"
  have m: "managed 4 yes_pipeline 0 id two_sinks_run quiet_sinks"
    by (simp add: managed_def two_sinks_run_def quiet_sinks_caps)
  obtain w where w: "manage_all yes_pipeline 0 id two_sinks_run (start_world quiet_sinks) = Inr w"
    and two: "two_sinks w" by (rule yieldsE [OF two_sinks_result])
  have inv: "world_inv 4 w" using managed_reached [OF m w] .
  then have c: "hasControl 0 w = (w, True)" using two by (simp add: hasControl_cases two_sinks_def)
  have p: "m_currentGstBinParent (managers w 0) = Some 7" using two by (simp add: two_sinks_def)
  have "yields (\<lambda>w. m_currentGstBinParent (managers w 3) = Some 7)
      (manage_all yes_pipeline 0 id (two_sinks_run @ ?e) (start_world quiet_sinks))" by code_simp
  with w obtain w2 where w2: "manage_all yes_pipeline 0 id ?e w = Inr w2" "m_currentGstBinParent (managers w2 3) = Some 7"
    by (auto simp: manager_system.run_append elim: yieldsE)
  from one_controller_per_bin [OF m w c p _ w2(1)] w2(2) have "hasControl 3 w2 = (w2, False)" by simp
  with w w2 show ?thesis by blast
qed

text \<open>
  Releasing. An attached manager that releases its client is attached to nothing afterwards. If
  another manager is attached to the bin, the client and the other clients are untouched and the entry
  loses one reference and, when the manager had control, its controller. If it was the last one, the
  entry is gone, the client has stopped streaming (its event loop and its pullers do not run and hold
  nothing) and has no backend; no other client is touched.
\<close>

theorem release_spec:
  assumes "managed N ora undef lost evs ss" "manage_all ora undef lost evs (start_world ss) = Inr w"
    and "m_currentGstBinParent (managers w k) = Some p" "info_of w p = Some i"
  shows "yields (\<lambda>w'. managers w' = (managers w)(k := new_manager) \<and>
      (if \<exists>j. j \<noteq> k \<and> m_currentGstBinParent (managers w j) = Some p
       then clients w' = clients w \<and> info_of w' p = Some (i\<lparr>inf_refCount := inf_refCount i - 1,
              inf_controller := (if inf_controller i = Some k then None else inf_controller i)\<rparr>)
       else info_of w' p = None \<and> stopped_inv (mse_of (inf_client i) w') \<and>
         m_clientBackend (clients w' (inf_client i)) = None \<and>
         (\<forall>d. d \<noteq> inf_client i \<longrightarrow> clients w' d = clients w d)))
    (releaseMediaPlayerClient ora undef k w)"
proof -
  have inv: "world_inv N w" using managed_reached [OF assms(1,2)] .
  have ok: "info_ok w p i" using inv assms(4) by (simp add: world_inv_def infos_ok_def)
  then have rc: "unat (inf_refCount i) = card (attached_to p w)" and ne: "0 < card (attached_to p w)"
    using attached_bound(2) [OF inv] by (simp_all add: info_ok_def card_gt_0_iff)
  have k: "k \<in> attached_to p w" using assms(3) by (simp add: attached_to_def)
  have "unat (inf_refCount i - 1) = card (attached_to p w - {k})"
    using refCount_down [OF rc ne] k attached_bound(2) [OF inv] by simp
  then have last: "inf_refCount i - 1 = 0 \<longleftrightarrow> \<not> (\<exists>j. j \<noteq> k \<and> m_currentGstBinParent (managers w j) = Some p)"
    using attached_bound(2) [OF inv, of p] by (auto simp: unat_eq_zero [symmetric] attached_to_def)
  note result = release_result [OF inv assms(3,4), of ora undef]
  show ?thesis
  proof (cases "inf_refCount i - 1 = 0")
    case True
    with result last show ?thesis by (auto simp: map_of_assoc_erase)
  next
    case False
    moreover have "\<exists>j. j \<noteq> k \<and> m_currentGstBinParent (managers w j) = Some p" using False last by blast
    ultimately show ?thesis using result assms(4) by (simp add: map_of_assoc_modify)
  qed
qed

theorem release_spec_witness:
  "\<exists>w. manage_all yes_pipeline 0 id two_sinks_run (start_world quiet_sinks) = Inr w \<and>
     yields (\<lambda>w'. info_of w' 8 = None \<and> m_clientBackend (clients w' 1) = None) (releaseMediaPlayerClient yes_pipeline 0 2 w) \<and>
     yields (\<lambda>w'. clients w' = clients w) (releaseMediaPlayerClient yes_pipeline 0 1 w)"
proof -
  obtain w where w: "manage_all yes_pipeline 0 id two_sinks_run (start_world quiet_sinks) = Inr w"
    and two: "two_sinks w" by (rule yieldsE [OF two_sinks_result])
  note at = attached_bound(1) [OF managed_reached [OF two_sinks_managed w]]
  have alone1: "\<not> (\<exists>j. j \<noteq> 2 \<and> m_currentGstBinParent (managers w j) = Some 8)"
  proof (intro notI, elim exE conjE)
    fix j assume j: "j \<noteq> 2" "m_currentGstBinParent (managers w j) = Some 8"
    then have "j < 3" using at [of 8] by (auto simp: attached_to_def)
    with j two show False by (auto simp: two_sinks_def less_Suc_eq numeral_3_eq_3 numeral_2_eq_2)
  qed
  have alone2: "m_currentGstBinParent (managers w 2) = Some 8" "info_of w 8 = Some \<lparr>inf_client = 1, inf_controller = Some 2, inf_refCount = 1\<rparr>"
    using two by (simp_all add: two_sinks_def)
  have a: "yields (\<lambda>w'. info_of w' 8 = None \<and> m_clientBackend (clients w' 1) = None) (releaseMediaPlayerClient yes_pipeline 0 2 w)"
    by (rule yields_mono [OF release_spec [OF two_sinks_managed w alone2]]) (use alone1 in simp)
  have b: "m_currentGstBinParent (managers w 1) = Some 7" "info_of w 7 = Some \<lparr>inf_client = 0, inf_controller = Some 0, inf_refCount = 2\<rparr>"
    "\<exists>j. j \<noteq> 1 \<and> m_currentGstBinParent (managers w j) = Some 7"
    using two by (auto simp: two_sinks_def intro!: exI [of _ 0])
  have "yields (\<lambda>w'. clients w' = clients w) (releaseMediaPlayerClient yes_pipeline 0 1 w)"
    by (rule yields_mono [OF release_spec [OF two_sinks_managed w b(1,2)]]) (use b(3) in simp)
  with a show ?thesis by (intro exI [of _ w] conjI w)
qed

end
