(* ===== verification/Sink_Element.thy ===== *)
theory Sink_Element
  imports Player_Manager Video_Rectangle
begin

text \<open>
  The operations of \<open>RialtoGStreamerMSEBaseSink.cpp\<close> that GStreamer calls on a sink element and that
  use the sink's media player client: the state changes, the seek, the events on the pad and on the
  element, and the queries. They run over the world of \<open>Player_Manager\<close>: the sink with number \<open>k\<close> owns
  the manager with number \<open>k\<close>.
\<close>

section \<open>What GStreamer hands to a sink\<close>

text \<open>
  Seek flags are given by the two flags the code tests. \<open>EVENT_CUSTOM_DOWNSTREAM\<close> also stands for
  \<open>GST_EVENT_CUSTOM_DOWNSTREAM_OOB\<close>, which the code treats alike; \<open>EVENT_OTHER\<close> for the types of
  the \<open>default\<close> branch, upstream or not.
\<close>

datatype gst_format = GST_FORMAT_TIME | GST_FORMAT_OTHER

datatype gst_seek_type = SEEK_TYPE_NONE | SEEK_TYPE_SET | SEEK_TYPE_END

record seek_event =
  sk_rate :: double_bits
  sk_format :: gst_format
  sk_flush :: bool
  sk_instant_rate :: bool
  sk_startType :: gst_seek_type
  sk_start :: i64

datatype gst_event =
  EVENT_SEEK seek_event
| EVENT_SEGMENT gst_segment
| EVENT_EOS
| EVENT_CAPS gst_structure
| EVENT_SINK_MESSAGE "bus_message option"
| EVENT_CUSTOM_DOWNSTREAM gst_structure
| EVENT_FLUSH_START
| EVENT_FLUSH_STOP bool
| EVENT_OTHER bool

text \<open>\<open>GST_EVENT_IS_UPSTREAM\<close>; the flush events travel both ways.\<close>

fun is_upstream :: "gst_event \<Rightarrow> bool" where
  "is_upstream (EVENT_SEEK _) = True"
| "is_upstream EVENT_FLUSH_START = True"
| "is_upstream (EVENT_FLUSH_STOP _) = True"
| "is_upstream (EVENT_OTHER up) = up"
| "is_upstream _ = False"

datatype gst_query = QUERY_SEEKING gst_format | QUERY_POSITION gst_format | QUERY_OTHER

datatype query_answer = Seeking_Answer gst_format bool i64 i64 | Position_Answer gst_format i64

text \<open>
  What a sink gives to its pad: an instant rate change with the flags and sequence number of a seek
  event (\<open>gst_pad_send_event\<close>), or an event pushed upstream (\<open>gst_pad_push_event\<close>).
\<close>

datatype pad_event = Rate_Change_Sent double_bits seek_event | Pushed_Upstream gst_event

text \<open>
  Everything outside the repository that the operations below use: the Rialto pipeline and whether its
  factory returns one; the values of uninitialised variables; \<open>gst_element_lost_state\<close>; the state
  change and query functions of the parent class \<open>GstElement\<close>; whether the pad takes an event;
  \<open>gst_caps_is_equal\<close>; \<open>gst_sample_new\<close>; the flags of \<open>GstPlayFlags\<close>; the division of doubles.
\<close>

record environment =
  env_pipeline :: pipeline
  env_created :: bool
  env_undef :: i32
  env_position :: i64
  env_lost :: "gst_element \<Rightarrow> gst_element"
  env_parent_change :: "gst_state_change \<Rightarrow> gst_element \<Rightarrow> gst_element \<times> gst_state_change_return"
  env_parent_query :: "gst_query \<Rightarrow> bool \<times> query_answer option"
  env_pad_accepts :: "pad_event \<Rightarrow> bool"
  env_caps_is_equal :: "gst_structure \<Rightarrow> gst_structure \<Rightarrow> bool"
  env_sample_new :: "gst_buffer \<Rightarrow> gst_structure option \<Rightarrow> gst_segment \<Rightarrow> gst_sample option"
  env_play_flags :: "string \<rightharpoonup> u32"
  env_divide :: "double_bits \<Rightarrow> double_bits \<Rightarrow> double_bits"

section \<open>Access to the world\<close>

definition on_sink :: "nat \<Rightarrow> (base_sink \<Rightarrow> base_sink) \<Rightarrow> world \<Rightarrow> world" where
  "on_sink k f w = w\<lparr>w_sinks := (w_sinks w)(k := f (w_sinks w k))\<rparr>"

text \<open>A call on a client, with its result.\<close>

definition call_client :: "nat \<Rightarrow> (mse \<Rightarrow> (mse \<times> 'a) result) \<Rightarrow> world \<Rightarrow> (world \<times> 'a) result" where
  "call_client c f w = bind_result (f (mse_of c w)) (\<lambda>(v, x). Inr (put_mse c v w, x))"

text \<open>A call without a result through a \<open>shared_ptr\<close> that may be empty.\<close>

definition through :: "nat option \<Rightarrow> (mse \<Rightarrow> (mse \<times> unit) result) \<Rightarrow> world \<Rightarrow> world result" where
  "through client f w = (case client of
     None \<Rightarrow> Inl Null_Deref
   | Some c \<Rightarrow> bind_result (call_client c f w) (\<lambda>(w, _). Inr w))"

section \<open>Queries\<close>

definition rialto_mse_base_sink_query ::
  "environment \<Rightarrow> nat \<Rightarrow> gst_query \<Rightarrow> world \<Rightarrow> (world \<times> bool \<times> query_answer option) result" where
  "rialto_mse_base_sink_query env k query w =
     (case query of
        QUERY_SEEKING fmt \<Rightarrow> Inr (w, True, Some (Seeking_Answer fmt False 0 (-1)))
      | QUERY_POSITION fmt \<Rightarrow>
         (case getMediaPlayerClient k w of
            None \<Rightarrow> Inr (w, False, None)
          | Some c \<Rightarrow>
             (let (w, has) = hasControl k w in
              if \<not> has then Inr (w, False, None)
              else (case fmt of
                 GST_FORMAT_TIME \<Rightarrow>
                   bind_result (call_client c (getPosition (env_pipeline env) (env_position env)) w) (\<lambda>(w, position).
                     if sint position < 0 then Inr (w, False, None)
                     else Inr (w, True, Some (Position_Answer fmt position)))
               | GST_FORMAT_OTHER \<Rightarrow> Inr (w, True, None))))
      | QUERY_OTHER \<Rightarrow> (let (ok, answer) = env_parent_query env query in Inr (w, ok, answer)))"

section \<open>Playback rate\<close>

text \<open>\<open>client && hasControl()\<close>, and then the rate is set.\<close>

definition set_rate_if_control :: "environment \<Rightarrow> nat \<Rightarrow> double_bits \<Rightarrow> world \<Rightarrow> world result" where
  "set_rate_if_control env k rate w =
     (case getMediaPlayerClient k w of
        None \<Rightarrow> Inr w
      | Some c \<Rightarrow>
         (let (w, has) = hasControl k w in
          if has then through (Some c) (setPlaybackRate (env_pipeline env) rate) w else Inr w))"

definition rialto_mse_base_sink_change_playback_rate ::
  "environment \<Rightarrow> nat \<Rightarrow> gst_structure \<Rightarrow> world \<Rightarrow> world result" where
  "rialto_mse_base_sink_change_playback_rate env k structure w =
     (case gst_double structure ''rate'' of
        None \<Rightarrow> Inr w
      | Some playbackRate \<Rightarrow> set_rate_if_control env k playbackRate w)"

section \<open>Seeking\<close>

text \<open>
  The boolean says that the calling thread now waits on \<open>m_seekCondVariable\<close>. It holds \<open>m_seekMutex\<close>
  from before \<open>seek\<close> until it waits, and the completion handler takes the same mutex, so no completion
  can come between the two: setting the position and starting to wait are one step. \<open>Seek_Wait\<close> takes
  them apart and shows when that one step is never finished.
\<close>

definition rialto_mse_base_sink_seek :: "environment \<Rightarrow> nat \<Rightarrow> world \<Rightarrow> (world \<times> bool) result" where
  "rialto_mse_base_sink_seek env k w =
     (case getMediaPlayerClient k w of
        None \<Rightarrow> Inr (w, False)
      | Some c \<Rightarrow>
          bind_result (through (Some c)
            (notifySourceStartedSeeking (env_pipeline env) (env_undef env) (m_sourceId (w_sinks w k))) w) (\<lambda>w.
          let (w, has) = hasControl k w in
          if \<not> has then Inr (w, False)
          else
            (let current = el_state (element (w_sinks w k));
                 w = on_sink k (rialto_mse_base_sink_lost_state (env_lost env)) w in
             bind_result
               (if current = GST_STATE_PLAYING then through (Some c) (pause (env_pipeline env)) w else Inr w) (\<lambda>w.
             bind_result (through (Some c) (seek (env_pipeline env) (sgm_start (m_lastSegment (w_sinks w k)))) w) (\<lambda>w.
             if m_sourceAttached (w_sinks w k)
             then Inr (on_sink k (\<lambda>s. s\<lparr>m_seekWaiting := True\<rparr>) w, True)
             else Inr (w, False))))))"

section \<open>Events on the element\<close>

text \<open>The result of \<open>send_event\<close> and what went out through the pad.\<close>

definition forward_upstream :: "environment \<Rightarrow> gst_event \<Rightarrow> world \<Rightarrow> world \<times> bool \<times> pad_event list" where
  "forward_upstream env event w =
     (if is_upstream event
      then (let e = Pushed_Upstream event in (w, env_pad_accepts env e, [e]))
      else (w, True, []))"

definition set_seek_position :: "i64 \<Rightarrow> base_sink \<Rightarrow> base_sink" where
  "set_seek_position seekPosition s =
     (if seekPosition \<noteq> -1 then s\<lparr>m_lastSegment := segment_init\<lparr>sgm_start := seekPosition\<rparr>\<rparr> else s)"

definition rialto_mse_base_sink_send_event ::
  "environment \<Rightarrow> nat \<Rightarrow> gst_event \<Rightarrow> world \<Rightarrow> (world \<times> bool \<times> pad_event list) result" where
  "rialto_mse_base_sink_send_event env k event w =
     (case event of
        EVENT_SEEK sk \<Rightarrow>
          (if sk_flush sk
           then (let w = on_sink k rialto_mse_base_sink_flush_start w in
                 if sk_format sk = GST_FORMAT_TIME
                 then (case sk_startType sk of
                         SEEK_TYPE_SET \<Rightarrow> Inr (forward_upstream env event (on_sink k (set_seek_position (sk_start sk)) w))
                       | SEEK_TYPE_END \<Rightarrow> Inr (w, False, [])
                       | SEEK_TYPE_NONE \<Rightarrow> Inr (forward_upstream env event w))
                 else Inr (forward_upstream env event w))
           else if sk_instant_rate sk
           then bind_result (set_rate_if_control env k (sk_rate sk) w) (\<lambda>w.
                  let rateMultiplier = env_divide env (sk_rate sk) (sgm_rate (m_lastSegment (w_sinks w k)));
                      e = Rate_Change_Sent rateMultiplier sk
                  in Inr (w, env_pad_accepts env e, [e]))
           else Inr (w, False, []))
      | _ \<Rightarrow> Inr (forward_upstream env event w))"

section \<open>Events on the pad\<close>

definition set_caps :: "environment \<Rightarrow> gst_structure \<Rightarrow> base_sink \<Rightarrow> base_sink" where
  "set_caps env caps s =
     (case m_caps s of
        Some old \<Rightarrow> if \<not> env_caps_is_equal env caps old then s\<lparr>m_caps := Some caps\<rparr> else s
      | None \<Rightarrow> s\<lparr>m_caps := Some caps\<rparr>)"

text \<open>
  \<open>None\<close> instead of a result: the thread waits for the end of a seek. It goes on with
  \<open>flush_stop_resume\<close> when the seek has been completed.
\<close>

definition flush_stop_finish :: "nat \<Rightarrow> bool \<Rightarrow> world \<Rightarrow> world \<times> bool option" where
  "flush_stop_finish k reset_time w = (on_sink k (rialto_mse_base_sink_flush_stop reset_time) w, Some True)"

definition flush_stop_resume :: "nat \<Rightarrow> bool \<Rightarrow> world \<Rightarrow> world \<times> bool option" where
  "flush_stop_resume k reset_time w =
     (if m_seekWaiting (w_sinks w k) then (w, None) else flush_stop_finish k reset_time w)"

definition rialto_mse_base_sink_event ::
  "environment \<Rightarrow> nat \<Rightarrow> gst_event \<Rightarrow> world \<Rightarrow> (world \<times> bool option) result" where
  "rialto_mse_base_sink_event env k event w =
     (case event of
        EVENT_SEGMENT seg \<Rightarrow> Inr (on_sink k (\<lambda>s. s\<lparr>m_lastSegment := seg\<rparr>) w, Some True)
      | EVENT_EOS \<Rightarrow> Inr (on_sink k (\<lambda>s. s\<lparr>m_isEos := True\<rparr>) w, Some True)
      | EVENT_CAPS caps \<Rightarrow> Inr (on_sink k (set_caps env caps) w, Some True)
      | EVENT_SINK_MESSAGE message \<Rightarrow>
          Inr (case message of None \<Rightarrow> w | Some m \<Rightarrow> on_sink k (post_message m) w, Some True)
      | EVENT_CUSTOM_DOWNSTREAM structure \<Rightarrow>
          bind_result
            (if gst_name structure = Some ''custom-instant-rate-change''
             then rialto_mse_base_sink_change_playback_rate env k structure w else Inr w)
            (\<lambda>w. Inr (w, Some True))
      | EVENT_FLUSH_START \<Rightarrow> Inr (on_sink k rialto_mse_base_sink_flush_start w, Some True)
      | EVENT_FLUSH_STOP reset_time \<Rightarrow>
          bind_result (rialto_mse_base_sink_seek env k w) (\<lambda>(w, waits).
            Inr (if waits then (w, None) else flush_stop_finish k reset_time w))
      | _ \<Rightarrow> Inr (w, Some True))"

section \<open>State changes\<close>

text \<open>\<open>hasControl()\<close>, and then the start of an asynchronous change with a call on the client.\<close>

definition start_async ::
  "nat \<Rightarrow> nat option \<Rightarrow> (mse \<Rightarrow> (mse \<times> unit) result) \<Rightarrow> world \<Rightarrow> (world \<times> gst_state_change_return) result" where
  "start_async k client f w =
     (let (w, has) = hasControl k w in
      if has
      then bind_result (through client f (on_sink k rialto_mse_base_async_start w)) (\<lambda>w. Inr (w, GST_STATE_CHANGE_ASYNC))
      else Inr (w, GST_STATE_CHANGE_SUCCESS))"

text \<open>
  The \<open>switch\<close> of \<open>change_state\<close>: the status to return if the parent class agrees, or \<open>None\<close> where the
  code returns \<open>GST_STATE_CHANGE_FAILURE\<close> at once. \<open>arriving\<close>: the application states that arrive while
  \<open>waitForRunning\<close> waits.
\<close>

definition change_state_switch ::
  "environment \<Rightarrow> application_state list \<Rightarrow> nat \<Rightarrow> gst_state_change \<Rightarrow> world \<Rightarrow>
   (world \<times> gst_state_change_return option) result" where
  "change_state_switch env arriving k transition w =
     (let client = getMediaPlayerClient k w; s = w_sinks w k;
          goes_on = (\<lambda>r. bind_result r (\<lambda>(w, status). Inr (w, Some status)))
      in case transition of
        NULL_TO_READY \<Rightarrow>
          (if \<not> m_sinkPad s then Inr (w, None)
           else (case m_controlClient s of
              None \<Rightarrow> Inl Null_Deref
            | Some ctl \<Rightarrow>
               (let (running, ctl) = waitForRunning arriving ctl;
                    w = on_sink k (\<lambda>s. s\<lparr>m_controlClient := Some ctl\<rparr>) w
                in Inr (w, if running then Some GST_STATE_CHANGE_SUCCESS else None))))
      | READY_TO_PAUSED \<Rightarrow>
          (if client = None then Inr (w, None)
           else goes_on (start_async k client (pause (env_pipeline env)) (on_sink k (\<lambda>s. s\<lparr>m_isFlushOngoing := False\<rparr>) w)))
      | PAUSED_TO_PLAYING \<Rightarrow>
          (if client = None then Inr (w, None) else goes_on (start_async k client (play (env_pipeline env)) w))
      | PLAYING_TO_PAUSED \<Rightarrow>
          (if client = None then Inr (w, None) else goes_on (start_async k client (pause (env_pipeline env)) w))
      | PAUSED_TO_READY \<Rightarrow>
          (if client = None then Inr (w, None)
           else (let w = (if m_isStateCommitNeeded s then on_sink k rialto_mse_base_async_done w else w) in
                 bind_result (through client (removeSource (env_pipeline env) (env_undef env) (m_sourceId s)) w) (\<lambda>w.
                   Inr (on_sink k (\<lambda>s. (clearBuffersUnlocked s)\<lparr>m_sourceAttached := False\<rparr>) w,
                     Some GST_STATE_CHANGE_SUCCESS))))
      | READY_TO_NULL \<Rightarrow>
          (let (w, has) = hasControl k w in
           bind_result (if has then through client (stop (env_pipeline env)) w else Inr w) (\<lambda>w.
           bind_result (releaseMediaPlayerClient (env_pipeline env) (env_undef env) k w) (\<lambda>w.
           (case m_controlClient (w_sinks w k) of
              None \<Rightarrow> Inl Null_Deref
            | Some ctl \<Rightarrow>
                Inr (on_sink k (\<lambda>s. s\<lparr>m_controlClient := Some (removeControlBackend ctl)\<rparr>) w,
                  Some GST_STATE_CHANGE_SUCCESS)))))
      | OTHER_STATE_CHANGE \<Rightarrow> Inr (w, Some GST_STATE_CHANGE_SUCCESS))"

definition rialto_mse_base_sink_change_state ::
  "environment \<Rightarrow> application_state list \<Rightarrow> nat \<Rightarrow> gst_state_change \<Rightarrow> world \<Rightarrow>
   (world \<times> gst_state_change_return) result" where
  "rialto_mse_base_sink_change_state env arriving k transition w =
     bind_result (change_state_switch env arriving k transition w) (\<lambda>(w, r).
       case r of
         None \<Rightarrow> Inr (w, GST_STATE_CHANGE_FAILURE)
       | Some status \<Rightarrow>
          (let (el, result) = env_parent_change env transition (element (w_sinks w k));
               w = on_sink k (\<lambda>s. s\<lparr>element := el\<rparr>) w
           in Inr (w, if result = GST_STATE_CHANGE_FAILURE then result
                      else if result = GST_STATE_CHANGE_ASYNC then GST_STATE_CHANGE_ASYNC
                      else status)))"

section \<open>Effects on the world\<close>

lemma on_sink_simps [simp]:
  "m_mediaPlayerClientsInfo (on_sink k f w) = m_mediaPlayerClientsInfo w"
  "managers (on_sink k f w) = managers w"
  "next_client (on_sink k f w) = next_client w"
  "clients (on_sink k f w) = clients w"
  "w_sinks (on_sink k f w) = (w_sinks w)(k := f (w_sinks w k))"
  "owned (on_sink k f w) = owned w"
  "mse_of c (on_sink k f w) = (mse_of c w)\<lparr>sinks := (w_sinks w)(k := f (w_sinks w k))\<rparr>"
  "attached_to p (on_sink k f w) = attached_to p w"
  by (simp_all add: on_sink_def owned_def [abs_def] mse_of_def attached_to_def)

lemma lock_client_on_sink [simp]: "lock_client j (on_sink k f w) = lock_client j w"
  by (cases "m_client (managers w j)") (simp_all add: lock_client_def)

lemma world_inv_on_sink:
  assumes "world_inv N w" "sink_ok (w_sinks w k) \<Longrightarrow> sink_ok (f (w_sinks w k))"
  shows "world_inv N (on_sink k f w)"
proof -
  have ok: "\<forall>j. sink_ok (((w_sinks w)(k := f (w_sinks w k))) j)"
    using assms by (simp add: world_inv_def)
  then have run: "run_inv (mse_of d (on_sink k f w))" if "run_inv (mse_of d w)" for d
    using run_inv_other_sinks [OF that] by simp
  have "infos_ok (on_sink k f w)"
    using assms(1) run by (simp add: world_inv_def infos_ok_def info_ok_def)
  moreover have "managers_ok N (on_sink k f w)" using assms(1) by (simp add: world_inv_def managers_ok_def)
  ultimately show ?thesis using ok by (simp add: world_inv_def)
qed

text \<open>\<open>kept N w w'\<close>: the invariant holds and neither a manager nor the map has lost or gained a client.\<close>

definition kept :: "nat \<Rightarrow> world \<Rightarrow> world \<Rightarrow> bool" where
  "kept N w w' \<longleftrightarrow> world_inv N w' \<and> managers w' = managers w \<and> owned w' = owned w"

lemma kept_trans: "kept N w w' \<Longrightarrow> kept N w' w'' \<Longrightarrow> kept N w w''"
  by (simp add: kept_def)

lemma kept_refl: "world_inv N w \<Longrightarrow> kept N w w"
  by (simp add: kept_def)

lemma kept_inv: "kept N w w' \<Longrightarrow> world_inv N w'"
  by (simp add: kept_def)

lemma kept_owned: "kept N w w' \<Longrightarrow> owned w c \<Longrightarrow> owned w' c"
  by (simp add: kept_def)

lemma kept_on_sink: "kept N w w' \<Longrightarrow> (sink_ok (w_sinks w' k) \<Longrightarrow> sink_ok (f (w_sinks w' k))) \<Longrightarrow> kept N w (on_sink k f w')"
  by (simp add: kept_def world_inv_on_sink)

lemma owned_modify:
  "(\<And>i. inf_client (g i) = inf_client i) \<Longrightarrow>
   owned (w\<lparr>m_mediaPlayerClientsInfo := assoc_modify p g (m_mediaPlayerClientsInfo w)\<rparr>) = owned w"
  by (simp add: owned_def [abs_def] assoc_modify_def list_ex_iff split_beta fun_eq_iff)

lemma kept_hasControl: "kept N w w' \<Longrightarrow> hasControl k w' = (w'', b) \<Longrightarrow> kept N w w''"
proof -
  assume a: "kept N w w'" "hasControl k w' = (w'', b)"
  then have "world_inv N w''" using world_inv_hasControl [of N w' k] by (simp add: kept_def)
  moreover have "managers w'' = managers w'" "owned w'' = owned w'"
    using a hasControl_cases [of N w' k] by (auto simp: kept_def owned_modify split: option.splits)
  ultimately show "kept N w w''" using a(1) by (simp add: kept_def)
qed

lemma owned_run: "world_inv N w \<Longrightarrow> owned w c \<Longrightarrow> run_inv (mse_of c w)"
  by (auto simp: world_inv_def owned_info infos_ok_def info_ok_def)

lemma kept_put:
  assumes "kept N w w'" "run_inv v"
  shows "kept N w (put_mse c v w')"
proof -
  have caps: "\<forall>k. sink_ok (sinks v k)" using assms(2) by (simp add: run_inv_def good_def capped_def)
  have run: "run_inv (mse_of d (put_mse c v w'))" if "run_inv (mse_of d w')" for d
    using run_inv_other_sinks [OF that caps] assms(2) by (cases "d = c") (simp_all add: mse_of_put_other)
  have inv: "infos_ok w'" "managers_ok N w'" using assms(1) by (simp_all add: kept_def world_inv_def)
  have "infos_ok (put_mse c v w')" using inv(1) run by (simp add: infos_ok_def info_ok_def)
  moreover have "managers_ok N (put_mse c v w')" using inv(2) by (simp add: managers_ok_def)
  ultimately show ?thesis using assms(1) caps by (simp add: kept_def world_inv_def owned_def fun_eq_iff)
qed

section \<open>Calls on a client\<close>

definition keeps_running :: "(mse \<Rightarrow> (mse \<times> 'a) result) \<Rightarrow> bool" where
  "keeps_running f \<longleftrightarrow> (\<forall>v. run_inv v \<longrightarrow> yields (\<lambda>x. run_inv (fst x)) (f v))"

lemma keeps_running_perform:
  assumes "\<And>v. drop_value (f v) = perform ora undef lost ev v" "ev \<noteq> Stop_Streaming"
  shows "keeps_running f"
  unfolding keeps_running_def
proof (intro allI impI)
  fix v assume "run_inv v"
  from running_stays_running [OF this assms(2), of ora undef lost] assms(1)
  have "yields run_inv (drop_value (f v))" by simp
  then show "yields (\<lambda>x. run_inv (fst x)) (f v)" by (cases "f v") (auto simp: drop_value_def)
qed

lemma keeps_running_calls:
  "keeps_running (play ora)"
  "keeps_running (pause ora)"
  "keeps_running (stop ora)"
  "keeps_running (setPlaybackRate ora r)"
  "keeps_running (setVolume ora vol)"
  "keeps_running (setMute ora b)"
  "keeps_running (seek ora p)"
  "keeps_running (notifySourceStartedSeeking ora undef i)"
  "keeps_running (attachSource ora src k)"
  "keeps_running (removeSource ora undef i)"
  "keeps_running (setAudioStreamsInfo n b)"
  "keeps_running (setVideoStreamsInfo n b)"
  "keeps_running (renderFrame ora lost k)"
  "keeps_running (getPosition ora g)"
  "keeps_running (getVolume ora)"
  "keeps_running (getMute ora)"
proof -
  show "keeps_running (play ora)"
    by (rule keeps_running_perform [where ora = ora and undef = undef and lost = lost and ev = "Simple Play_Call"]) (simp_all add: play_def)
  show "keeps_running (pause ora)"
    by (rule keeps_running_perform [where ora = ora and undef = undef and lost = lost and ev = "Simple Pause_Call"]) (simp_all add: pause_def)
  show "keeps_running (stop ora)"
    by (rule keeps_running_perform [where ora = ora and undef = undef and lost = lost and ev = "Simple Stop_Call"]) (simp_all add: stop_def)
  show "keeps_running (setPlaybackRate ora r)"
    by (rule keeps_running_perform [where ora = ora and undef = undef and lost = lost and ev = "Simple (Set_Playback_Rate r)"]) (simp_all add: setPlaybackRate_def)
  show "keeps_running (setVolume ora vol)"
    by (rule keeps_running_perform [where ora = ora and undef = undef and lost = lost and ev = "Simple (Set_Volume vol)"]) (simp_all add: setVolume_def)
  show "keeps_running (setMute ora b)"
    by (rule keeps_running_perform [where ora = ora and undef = undef and lost = lost and ev = "Simple (Set_Mute b)"]) (simp_all add: setMute_def)
  show "keeps_running (seek ora p)"
    by (rule keeps_running_perform [where ora = ora and undef = undef and lost = lost and ev = "Seek_To p"]) (simp_all)
  show "keeps_running (notifySourceStartedSeeking ora undef i)"
    by (rule keeps_running_perform [where ora = ora and undef = undef and lost = lost and ev = "Started_Seeking i"]) (simp_all)
  show "keeps_running (attachSource ora src k)"
    by (rule keeps_running_perform [where ora = ora and undef = undef and lost = lost and ev = "Attach src k"]) (simp_all)
  show "keeps_running (removeSource ora undef i)"
    by (rule keeps_running_perform [where ora = ora and undef = undef and lost = lost and ev = "Remove i"]) (simp_all)
  show "keeps_running (setAudioStreamsInfo n b)"
    by (rule keeps_running_perform [where ora = ora and undef = undef and lost = lost and ev = "Audio_Info n b"]) (simp_all)
  show "keeps_running (setVideoStreamsInfo n b)"
    by (rule keeps_running_perform [where ora = ora and undef = undef and lost = lost and ev = "Video_Info n b"]) (simp_all)
  show "keeps_running (renderFrame ora lost k)"
    by (rule keeps_running_perform [where ora = ora and undef = undef and lost = lost and ev = "Render k"]) (simp_all)
  show "keeps_running (getPosition ora g)"
    by (rule keeps_running_perform [where ora = ora and undef = undef and lost = lost and ev = "Query_Position g"]) (simp_all)
  show "keeps_running (getVolume ora)"
    by (rule keeps_running_perform [where ora = ora and undef = undef and lost = lost and ev = "Query_Volume"]) (simp_all)
  show "keeps_running (getMute ora)"
    by (rule keeps_running_perform [where ora = ora and undef = undef and lost = lost and ev = "Query_Mute"]) (simp_all)
qed


lemma keeps_running_rectangle:
  "keeps_running (setVideoRectangle ora str)" "keeps_running (getVideoRectangle g)"
proof -
  have body: "yields (\<lambda>x. run_inv (fst x)) (backend_do ora (Set_Video_Window x y wd h) v)" if "run_inv v" for v x y wd h
    using run_inv_ok_from [OF that backend_do_ok] that by (simp add: run_inv_def)
  have upd: "run_inv (upd_client (\<lambda>cl. cl\<lparr>m_videoRectangle := r\<rparr>) v)" if "run_inv v" for v r
    using that by (simp add: run_inv_def good_def backend_ok_def)
  show "keeps_running (setVideoRectangle ora str)"
    unfolding keeps_running_def setVideoRectangle_def callInEventLoop_def
    by (auto simp: upd split: option.splits intro!: yields_bind [OF body])
  show "keeps_running (getVideoRectangle g)"
    by (simp add: keeps_running_def getVideoRectangle_def callInEventLoop_def)
qed

text \<open>A call on a client in the map neither faults nor breaks the invariant.\<close>

lemma kept_call:
  assumes "kept N w0 w" "owned w c" "keeps_running f"
  shows "yields (\<lambda>x. kept N w0 (fst x)) (call_client c f w)"
proof -
  have "run_inv (mse_of c w)" using owned_run kept_inv assms(1,2) by blast
  then have "yields (\<lambda>x. run_inv (fst x)) (f (mse_of c w))" using assms(3) by (simp add: keeps_running_def)
  then show ?thesis unfolding call_client_def
    by (rule yields_bind) (auto intro: kept_put [OF assms(1)])
qed

lemma kept_through:
  assumes "kept N w0 w" "owned w c" "keeps_running f"
  shows "yields (kept N w0) (through (Some c) f w)"
  unfolding through_def by (auto intro!: yields_bind [OF kept_call [OF assms]])

lemma client_owned: "getMediaPlayerClient k w = Some c \<Longrightarrow> owned w c"
  by (auto simp: getMediaPlayerClient_def lock_client_def split: option.splits if_splits)

lemma hasControl_client: "hasControl k w = (w', True) \<Longrightarrow> getMediaPlayerClient k w \<noteq> None"
  by (auto simp: hasControl_def getMediaPlayerClient_def split: option.splits)

section \<open>What a sink relies on\<close>

text \<open>
  The contract between the sinks and the pool of media player clients that the managers share. \<open>safe\<close> is
  the invariant, \<open>current\<close> the client of the sink (\<open>getMediaPlayerClient\<close>), \<open>control\<close> asks for control
  (\<open>hasControl\<close>) and \<open>call\<close> calls an operation of a client; \<open>fine\<close> are the operations a sink may call.
  A client stays the sink's client until the sink releases it, control is never had without a client,
  and asking again gives the same answer and changes nothing.
\<close>

locale client_pool =
  fixes safe :: "'w \<Rightarrow> bool" and current :: "'w \<Rightarrow> 'c option" and control :: "'w \<Rightarrow> 'w \<times> bool"
    and call :: "'c \<Rightarrow> 'f \<Rightarrow> 'w \<Rightarrow> ('w \<times> 'r) result" and fine :: "'f \<Rightarrow> bool"
  assumes control_safe: "safe w \<Longrightarrow> control w = (w', has) \<Longrightarrow> safe w'"
    and control_current: "safe w \<Longrightarrow> control w = (w', has) \<Longrightarrow> current w' = current w"
    and control_client: "control w = (w', True) \<Longrightarrow> current w \<noteq> None"
    and control_again: "safe w \<Longrightarrow> control w = (w', has) \<Longrightarrow> control w' = (w', has)"
    and call_safe: "safe w \<Longrightarrow> current w = Some c \<Longrightarrow> fine f \<Longrightarrow>
      yields (\<lambda>(w', _). safe w' \<and> current w' = current w) (call c f w)"
begin

text \<open>The pattern of the sinks: get the client, ask for control, call.\<close>

lemma call_after_control:
  assumes "safe w" "current w = Some c" "control w = (w', has)" "fine f"
  shows "yields (\<lambda>(w'', _). safe w'' \<and> current w'' = Some c) (call c f w')"
  using call_safe [OF control_safe [OF assms(1,3)] _ assms(4)] control_current [OF assms(1,3)] assms(2) by simp

text \<open>With control, there is a client to call, which is the one from before.\<close>

lemma controlled_call:
  assumes "safe w" "control w = (w', True)" "fine f"
  obtains c where "current w = Some c" "current w' = Some c"
    "yields (\<lambda>(w'', _). safe w'' \<and> current w'' = Some c) (call c f w')"
  using call_after_control [OF assms(1) _ assms(2,3)] control_client [OF assms(2)] control_current [OF assms(1,2)]
  by auto

text \<open>Any number of calls, one after the other, finds the same client.\<close>

lemma calls_safe:
  "safe w \<Longrightarrow> current w = Some c \<Longrightarrow> list_all fine fs \<Longrightarrow>
   yields (\<lambda>w'. safe w' \<and> current w' = Some c)
     (fold (\<lambda>f r. bind_result r (\<lambda>w. bind_result (call c f w) (\<lambda>(w, _). Inr w))) fs (Inr w))"
proof (induction fs arbitrary: w)
  case (Cons f fs)
  then obtain w1 r where "call c f w = Inr (w1, r)" "safe w1" "current w1 = Some c"
    using call_safe [OF Cons.prems(1,2), of f] by (auto elim!: yieldsE)
  with Cons show ?case by simp
qed simp

end

lemma kept_current: "kept N w w' \<Longrightarrow> getMediaPlayerClient k w' = getMediaPlayerClient k w"
  by (simp add: kept_def getMediaPlayerClient_def lock_client_def split: option.split)

lemma hasControl_again: "world_inv N w \<Longrightarrow> hasControl k w = (w', has) \<Longrightarrow> hasControl k w' = (w', has)"
proof -
  assume inv: "world_inv N w" and h: "hasControl k w = (w', has)"
  have inv': "world_inv N w'" using world_inv_hasControl [OF inv, of k] h by simp
  show ?thesis
  proof (cases rule: manager_cases [OF inv, of k])
    case 1
    with h show ?thesis by (auto simp: hasControl_def)
  next
    case (2 p i)
    with h show ?thesis
      by (cases "inf_controller i")
        (auto simp: hasControl_cases [OF inv] hasControl_cases [OF inv'] map_of_assoc_modify assoc_modify_assoc_modify)
  qed
qed

text \<open>The managers of \<open>N\<close> sinks provide it to the sink \<open>k\<close>.\<close>

interpretation pool: client_pool "kept N w0" "getMediaPlayerClient k" "hasControl k" call_client keeps_running
  for N w0 k
proof unfold_locales
  fix w w' has assume k: "kept N w0 w" and h: "hasControl k w = (w', has)"
  show "kept N w0 w'" by (rule kept_hasControl [OF k h])
  show "getMediaPlayerClient k w' = getMediaPlayerClient k w"
    by (rule kept_current [OF kept_hasControl [OF kept_refl [OF kept_inv [OF k]] h]])
  show "hasControl k w' = (w', has)" by (rule hasControl_again [OF kept_inv [OF k] h])
next
  fix w c and f :: "mse \<Rightarrow> (mse \<times> 'a) result"
  assume k: "kept N w0 w" and c: "getMediaPlayerClient k w = Some c" and f: "keeps_running f"
  have "kept N w0 w' \<and> getMediaPlayerClient k w' = getMediaPlayerClient k w"
    if "kept N w w'" for w'
    using kept_trans [OF k that] kept_current [OF that] by simp
  with kept_call [OF kept_refl [OF kept_inv [OF k]] client_owned [OF c] f]
  show "yields (\<lambda>(w', _). kept N w0 w' \<and> getMediaPlayerClient k w' = getMediaPlayerClient k w) (call_client c f w)"
    by (auto elim!: yields_mono)
qed (rule hasControl_client)

section \<open>Operations on the sink keep it in order\<close>

lemma sink_ok_fields [simp]:
  "sink_ok (s\<lparr>m_seekWaiting := b\<rparr>) = sink_ok s"
  "sink_ok (s\<lparr>m_lastSegment := seg\<rparr>) = sink_ok s"
  "sink_ok (s\<lparr>m_isEos := b\<rparr>) = sink_ok s"
  "sink_ok (s\<lparr>m_sourceAttached := b\<rparr>) = sink_ok s"
  "sink_ok (s\<lparr>element := el\<rparr>) = sink_ok s"
  "sink_ok (set_seek_position p s) = sink_ok s"
  by (rule sink_ok_same_sink, simp add: same_sink_def same_queue_def set_seek_position_def)+

lemma sink_ok_control [simp]: "sink_ok s \<Longrightarrow> sink_ok (s\<lparr>m_controlClient := Some ctl\<rparr>)"
  using queue_inv_quiet [of s "s\<lparr>m_controlClient := Some ctl\<rparr>"] by (simp add: sink_ok_def same_queue_def)

lemma sink_ok_queue:
  "sink_ok s \<Longrightarrow> sink_ok (rialto_mse_base_sink_flush_start s)"
  "sink_ok s \<Longrightarrow> sink_ok (rialto_mse_base_sink_flush_stop r s)"
  "sink_ok s \<Longrightarrow> sink_ok (clearBuffersUnlocked s)"
  "sink_ok s \<Longrightarrow> sink_ok (s\<lparr>m_isFlushOngoing := False\<rparr>)"
  using queue_inv_flush_start [of s] queue_inv_flush_stop [of s r] queue_inv_clear [of s] queue_inv_unflush [of s]
  by (auto simp: sink_ok_def queue_op_defs Let_def post_message_def)

lemma sink_ok_set_caps: "sink_ok s \<Longrightarrow> gst_name caps \<noteq> None \<Longrightarrow> sink_ok (set_caps env caps s)"
  using queue_inv_quiet [of s "s\<lparr>m_caps := Some caps\<rparr>"]
  by (auto simp: sink_ok_def set_caps_def same_queue_def split: option.splits)

section \<open>Every operation of the element keeps the world in order\<close>

lemma through_call: "through (Some c) f w = bind_result (call_client c f w) (\<lambda>(w, _). Inr w)"
  by (simp add: through_def)

lemma kept_controlled_through:
  assumes "kept N w0 w" "hasControl k w = (w', True)" "keeps_running f"
  obtains c where "getMediaPlayerClient k w = Some c" "yields (kept N w0) (through (Some c) f w')"
proof -
  obtain c where c: "getMediaPlayerClient k w = Some c"
    "yields (\<lambda>(w'', _). kept N w0 w'' \<and> getMediaPlayerClient k w'' = Some c) (call_client c f w')"
    by (rule pool.controlled_call [OF assms])
  from yields_bind [OF c(2), of "kept N w0" "\<lambda>(w, _). Inr w"] have "yields (kept N w0) (through (Some c) f w')"
    by (auto simp: through_call)
  with c(1) show thesis by (rule that)
qed

lemma kept_query: "world_inv N w \<Longrightarrow> yields (\<lambda>x. kept N w (fst x)) (rialto_mse_base_sink_query env k q w)"
proof (cases q)
  case (QUERY_POSITION fmt)
  assume inv: "world_inv N w"
  show ?thesis
  proof (cases "getMediaPlayerClient k w")
    case None
    with QUERY_POSITION inv show ?thesis by (simp add: rialto_mse_base_sink_query_def kept_refl)
  next
    case (Some c)
    obtain w' has where h: "hasControl k w = (w', has)" by (cases "hasControl k w") simp
    note r = kept_refl [OF inv]
    have "yields (\<lambda>x. kept N w (fst x)) (call_client c (getPosition (env_pipeline env) (env_position env)) w')"
      by (rule yields_mono [OF pool.call_after_control [OF r Some h keeps_running_calls(14)]]) auto
    with QUERY_POSITION Some h pool.control_safe [OF r h] show ?thesis
      by (cases fmt) (auto simp: rialto_mse_base_sink_query_def elim!: yields_bind)
  qed
qed (simp_all add: rialto_mse_base_sink_query_def kept_refl split: prod.split)

lemma kept_set_rate:
  assumes "kept N w0 w"
  shows "yields (kept N w0) (set_rate_if_control env k rate w)"
proof -
  obtain w' has where h: "hasControl k w = (w', has)" by (cases "hasControl k w") simp
  show ?thesis
  proof (cases has)
    case True
    with h have "hasControl k w = (w', True)" by simp
    from kept_controlled_through [OF assms this keeps_running_calls(4)] obtain c where
      "getMediaPlayerClient k w = Some c" "yields (kept N w0) (through (Some c) (setPlaybackRate (env_pipeline env) rate) w')" .
    with h show ?thesis by (auto simp: set_rate_if_control_def pool.control_safe [OF assms h])
  qed (use assms h pool.control_safe [OF assms h] in \<open>simp add: set_rate_if_control_def split: option.split\<close>)
qed

lemma kept_seek:
  assumes "world_inv N w"
  shows "yields (\<lambda>x. kept N w (fst x)) (rialto_mse_base_sink_seek env k w)"
proof (cases "getMediaPlayerClient k w")
  case None
  with assms show ?thesis by (simp add: rialto_mse_base_sink_seek_def kept_refl)
next
  case (Some c)
  have call: "yields (kept N w) (through (Some c) f v)" if "kept N w v" "keeps_running f" for f v
    using kept_through [OF that(1) kept_owned [OF that(1) client_owned [OF Some]] that(2)] .
  have rest: "yields (\<lambda>x. kept N w (fst x)) (let (w, has) = hasControl k v in
          if \<not> has then Inr (w, False)
          else
            (let current = el_state (element (w_sinks w k));
                 w = on_sink k (rialto_mse_base_sink_lost_state (env_lost env)) w in
             bind_result
               (if current = GST_STATE_PLAYING then through (Some c) (pause (env_pipeline env)) w else Inr w) (\<lambda>w.
             bind_result (through (Some c) (seek (env_pipeline env) (sgm_start (m_lastSegment (w_sinks w k)))) w) (\<lambda>w.
             if m_sourceAttached (w_sinks w k)
             then Inr (on_sink k (\<lambda>s. s\<lparr>m_seekWaiting := True\<rparr>) w, True)
             else Inr (w, False)))))" if v: "kept N w v" for v
  proof -
    obtain v' has where h: "hasControl k v = (v', has)" by (cases "hasControl k v") simp
    have v': "kept N w v'" using kept_hasControl [OF v h] .
    let ?v = "on_sink k (rialto_mse_base_sink_lost_state (env_lost env)) v'"
    have lost: "kept N w ?v" using kept_on_sink [OF v'] by (simp add: sink_ok_handlers)
    have "yields (kept N w) (if el_state (element (w_sinks v' k)) = GST_STATE_PLAYING
        then through (Some c) (pause (env_pipeline env)) ?v else Inr ?v)"
      using call [OF lost keeps_running_calls(2)] lost by simp
    then show ?thesis
      unfolding h Let_def
      by (auto simp: v' sink_ok_handlers intro!: yields_bind [OF call [OF _ keeps_running_calls(7)]] kept_on_sink elim!: yields_bind)
  qed
  show ?thesis
    using yields_bind [OF call [OF kept_refl [OF assms] keeps_running_calls(8)] rest] Some
    by (simp add: rialto_mse_base_sink_seek_def)
qed


lemma kept_forward [simp]: "fst (forward_upstream env ev w) = w"
  by (simp add: forward_upstream_def Let_def)

lemma kept_send_event:
  assumes "world_inv N w"
  shows "yields (\<lambda>x. kept N w (fst x)) (rialto_mse_base_sink_send_event env k ev w)"
proof (cases ev)
  case (EVENT_SEEK sk)
  have f: "kept N w (on_sink k rialto_mse_base_sink_flush_start w)"
    by (rule kept_on_sink [OF kept_refl [OF assms] sink_ok_queue(1)])
  show ?thesis
  proof (cases "sk_flush sk")
    case True
    with EVENT_SEEK f show ?thesis
      by (cases "sk_startType sk")
        (auto simp: rialto_mse_base_sink_send_event_def Let_def intro!: kept_on_sink sink_ok_queue(1) kept_refl assms)
  next
    case False
    with EVENT_SEEK assms kept_refl [OF assms] show ?thesis
      by (auto simp: rialto_mse_base_sink_send_event_def Let_def intro!: yields_bind [OF kept_set_rate [OF kept_refl [OF assms]]])
  qed
qed (simp_all add: rialto_mse_base_sink_send_event_def kept_refl [OF assms])

fun event_ok :: "gst_event \<Rightarrow> bool" where
  "event_ok (EVENT_CAPS caps) = (gst_name caps \<noteq> None)"
| "event_ok _ = True"

lemma kept_flush_stop_finish:
  "kept N w0 w \<Longrightarrow> kept N w0 (fst (flush_stop_finish k r w))"
  "kept N w0 w \<Longrightarrow> kept N w0 (fst (flush_stop_resume k r w))"
  by (auto simp: flush_stop_finish_def flush_stop_resume_def intro: kept_on_sink sink_ok_queue)

lemma kept_event:
  assumes "world_inv N w" "event_ok ev"
  shows "yields (\<lambda>x. kept N w (fst x)) (rialto_mse_base_sink_event env k ev w)"
proof -
  note r = kept_refl [OF assms(1)]
  show ?thesis
  proof (cases ev)
    case (EVENT_SINK_MESSAGE m)
    with r show ?thesis
      by (cases m) (auto simp: rialto_mse_base_sink_event_def sink_ok_handlers intro!: kept_on_sink)
  next
    case (EVENT_CUSTOM_DOWNSTREAM st)
    with r show ?thesis
      by (auto simp: rialto_mse_base_sink_event_def rialto_mse_base_sink_change_playback_rate_def
          intro!: yields_bind [of "kept N w"] kept_set_rate split: option.split)
  next
    case (EVENT_FLUSH_STOP rt)
    then show ?thesis
      by (auto simp: rialto_mse_base_sink_event_def intro!: yields_bind [OF kept_seek [OF assms(1)]] kept_flush_stop_finish)
  next
    case EVENT_FLUSH_START
    then show ?thesis
      by (simp add: rialto_mse_base_sink_event_def kept_on_sink [OF r sink_ok_queue(1)])
  next
    case (EVENT_CAPS caps)
    with assms(2) show ?thesis
      by (auto simp: rialto_mse_base_sink_event_def intro!: kept_on_sink r sink_ok_set_caps)
  qed (auto simp: rialto_mse_base_sink_event_def r intro!: kept_on_sink)
qed

text \<open>The start of an asynchronous state change.\<close>

lemma start_async_cases:
  assumes "world_inv N w" "keeps_running f" "client = getMediaPlayerClient k w"
  shows "yields (\<lambda>(w', st). kept N w w' \<and> (st = GST_STATE_CHANGE_ASYNC \<longleftrightarrow> snd (hasControl k w)) \<and> 
      (st = GST_STATE_CHANGE_ASYNC \<or> st = GST_STATE_CHANGE_SUCCESS)) (start_async k client f w)"
proof -
  obtain w' has where h: "hasControl k w = (w', has)" by (cases "hasControl k w") simp
  have k': "kept N w w'" using kept_hasControl [OF kept_refl [OF assms(1)] h] .
  show ?thesis
  proof (cases has)
    case False
    with h k' show ?thesis by (simp add: start_async_def)
  next
    case True
    then have h': "hasControl k w = (w', True)" using h by simp
    from pool.control_client [OF h'] obtain c where c: "client = Some c" using assms(3) by auto
    have "getMediaPlayerClient k w' = Some c" using pool.control_current [OF kept_refl [OF assms(1)] h'] c assms(3) by simp
    from client_owned [OF this] have o: "owned w' c" .
    have "kept N w (on_sink k rialto_mse_base_async_start w')"
      by (rule kept_on_sink [OF k']) (simp add: sink_ok_handlers)
    from kept_through [OF this _ assms(2), of c] o h True c show ?thesis
      by (auto simp: start_async_def elim!: yields_bind)
  qed
qed

lemma hasControl_false: "getMediaPlayerClient k w = None \<Longrightarrow> hasControl k w = (w, False)"
  by (simp add: getMediaPlayerClient_def hasControl_def)

lemma inv_switch:
  assumes "world_inv N w"
  shows "yields (\<lambda>x. world_inv N (fst x)) (change_state_switch env arriving k transition w)"
proof -
  note r = kept_refl [OF assms]
  have ok: "sink_ok (w_sinks w j)" for j using assms by (simp add: world_inv_def)
  have ctl: "m_controlClient (w_sinks v j) \<noteq> None" if "world_inv N v" for v j
    using that by (simp add: world_inv_def sink_ok_def)
  have async: "yields (\<lambda>x. world_inv N (fst x)) (bind_result (start_async k (getMediaPlayerClient k v) f v) (\<lambda>(w, status). Inr (w, Some status)))"
    if "world_inv N v" "keeps_running f" for v f
    by (rule yields_bind [OF start_async_cases [OF that refl]]) (auto dest: kept_inv)
  show ?thesis
  proof (cases transition)
    case NULL_TO_READY
    then show ?thesis using ctl [OF assms, of k] assms
      by (auto simp: change_state_switch_def Let_def split: prod.split intro!: world_inv_on_sink)
  next
    case READY_TO_PAUSED
    have "world_inv N (on_sink k (\<lambda>s. s\<lparr>m_isFlushOngoing := False\<rparr>) w)"
      by (rule world_inv_on_sink [OF assms sink_ok_queue(4)])
    from async [OF this keeps_running_calls(2)] READY_TO_PAUSED assms show ?thesis
      by (simp add: change_state_switch_def getMediaPlayerClient_def Let_def)
  next
    case PAUSED_TO_PLAYING
    with async [OF assms keeps_running_calls(1)] assms show ?thesis by (simp add: change_state_switch_def Let_def)
  next
    case PLAYING_TO_PAUSED
    with async [OF assms keeps_running_calls(2)] assms show ?thesis by (simp add: change_state_switch_def Let_def)
  next
    case PAUSED_TO_READY
    show ?thesis
    proof (cases "getMediaPlayerClient k w")
      case None
      with PAUSED_TO_READY assms show ?thesis by (simp add: change_state_switch_def Let_def)
    next
      case (Some c)
      let ?w = "if m_isStateCommitNeeded (w_sinks w k) then on_sink k rialto_mse_base_async_done w else w"
      have "kept N w ?w" using r kept_on_sink [OF r, of k] by (simp add: sink_ok_handlers)
      from kept_through [OF this _ keeps_running_calls(10), of c] kept_owned [OF this client_owned [OF Some]]
      have "yields (kept N w) (through (Some c) (removeSource (env_pipeline env) (env_undef env) (m_sourceId (w_sinks w k))) ?w)"
        by blast
      then show ?thesis unfolding change_state_switch_def PAUSED_TO_READY Some Let_def
        by (auto intro!: kept_inv [of N w] kept_on_sink sink_ok_queue(3) elim!: yields_bind)
    qed
  next
    case READY_TO_NULL
    obtain w' has where h: "hasControl k w = (w', has)" by (cases "hasControl k w") simp
    have k': "kept N w w'" using kept_hasControl [OF r h] .
    have "yields (kept N w) (if has then through (getMediaPlayerClient k w) (stop (env_pipeline env)) w' else Inr w')"
    proof (cases has)
      case True
      with h have "hasControl k w = (w', True)" by simp
      from kept_controlled_through [OF r this keeps_running_calls(3)] obtain c where
        "getMediaPlayerClient k w = Some c" "yields (kept N w) (through (Some c) (stop (env_pipeline env)) w')" .
      with True show ?thesis by simp
    qed (simp add: k')
    moreover have "yields (\<lambda>x. world_inv N (fst x)) (case m_controlClient (w_sinks v k) of None \<Rightarrow> Inl Null_Deref
        | Some ctl \<Rightarrow> Inr (on_sink k (\<lambda>s. s\<lparr>m_controlClient := Some (removeControlBackend ctl)\<rparr>) v,
            Some GST_STATE_CHANGE_SUCCESS))" if "world_inv N v" for v
      using ctl [OF that, of k] world_inv_on_sink [OF that sink_ok_control] by auto
    ultimately show ?thesis
      by (auto simp: change_state_switch_def READY_TO_NULL h dest!: kept_inv elim!: yields_bind
          intro!: yields_bind [OF release_cases])
  next
    case OTHER_STATE_CHANGE
    with assms show ?thesis by (simp add: change_state_switch_def Let_def)
  qed
qed

lemma inv_change_state:
  assumes "world_inv N w"
  shows "yields (\<lambda>x. world_inv N (fst x)) (rialto_mse_base_sink_change_state env arriving k transition w)"
  unfolding rialto_mse_base_sink_change_state_def
  by (rule yields_bind [OF inv_switch [OF assms]])
    (auto simp: Let_def split: option.split prod.split intro!: world_inv_on_sink)

end
