(* ===== verification/Audio_Sink.thy ===== *)
theory Audio_Sink
  imports Sink_Element Mse_Utils
begin

text \<open>
  \<open>RialtoGStreamerMSEAudioSink.cpp\<close>: what the audio sink adds to the base sink. It attaches the media
  player client of its bin when it goes to PAUSED, makes an audio source of the first caps it
  receives, and offers volume and mute.
\<close>

section \<open>Where a sink is\<close>

text \<open>
  The place of a sink in the pipeline: its own object, its ancestors as in
  \<open>rialto_mse_base_get_oldest_gst_bin_parent\<close>, and what the sinks read of an object.
\<close>

record place =
  pl_element :: nat
  pl_ancestors :: "(nat \<times> bool) list"
  pl_object :: "nat \<Rightarrow> parent_object"

definition parent_of :: "place \<Rightarrow> nat" where
  "parent_of pl = rialto_mse_base_get_oldest_gst_bin_parent (pl_element pl) (pl_ancestors pl)"

section \<open>State changes\<close>

text \<open>The boolean: whether the state change goes on to the base class.\<close>

definition audio_ready_to_paused :: "environment \<Rightarrow> place \<Rightarrow> nat \<Rightarrow> world \<Rightarrow> (world \<times> bool) result" where
  "audio_ready_to_paused env pl k w =
     (let parentObject = parent_of pl in
      bind_result (attachMediaPlayerClient (env_pipeline env) (env_undef env) (env_created env) k parentObject 0 0 w)
        (\<lambda>(w, attached).
          if \<not> attached then Inr (w, False)
          else
            (let (audioStreams, isAudioOnly) =
               (case rialto_mse_base_sink_get_n_streams_from_parent (env_play_flags env) (pl_object pl parentObject) of
                  Some (n_video, n_audio) \<Rightarrow> (n_audio, n_video = 0)
                | None \<Rightarrow> (m_numOfStreams (w_sinks w k), m_isSinglePathStream (w_sinks w k)))
             in case getMediaPlayerClient k w of
                  None \<Rightarrow> Inr (w, False)
                | Some c \<Rightarrow> bind_result (through (Some c) (setAudioStreamsInfo audioStreams isAudioOnly) w)
                    (\<lambda>w. Inr (w, True)))))"

definition rialto_mse_audio_sink_change_state ::
  "environment \<Rightarrow> place \<Rightarrow> application_state list \<Rightarrow> nat \<Rightarrow> gst_state_change \<Rightarrow> world \<Rightarrow>
   (world \<times> gst_state_change_return) result" where
  "rialto_mse_audio_sink_change_state env pl arriving k transition w =
     bind_result (if transition = READY_TO_PAUSED then audio_ready_to_paused env pl k w else Inr (w, True))
       (\<lambda>(w, goes_on).
         if goes_on then rialto_mse_base_sink_change_state env arriving k transition w
         else Inr (w, GST_STATE_CHANGE_FAILURE))"

section \<open>The audio source\<close>

text \<open>
  The Opus helpers of GStreamer are parameters: what \<open>gst_codec_utils_opus_parse_caps\<close> stores when
  it succeeds, and the buffer \<open>gst_codec_utils_opus_create_header\<close> makes of it with pre-skip and gain.
\<close>

record opus_caps =
  op_sample_rate :: u32
  op_channels :: u8
  op_family :: u8
  op_streams :: u8
  op_stereo_streams :: u8
  op_channel_mapping :: "u8 list"

record opus_utils =
  opus_parse_caps :: "gst_structure \<Rightarrow> opus_caps option"
  opus_create_header :: "opus_caps \<Rightarrow> u16 \<Rightarrow> u16 \<Rightarrow> gst_memory"

definition get_int_or_zero :: "gst_structure \<Rightarrow> string \<Rightarrow> i32" where
  "get_int_or_zero st field = (case gst_int st field of None \<Rightarrow> 0 | Some v \<Rightarrow> v)"

text \<open>\<open>default_config\<close>: the value of an \<open>AudioConfig\<close> that is declared without initialiser.\<close>

definition rialto_mse_audio_sink_create_media_source ::
  "opus_utils \<Rightarrow> audio_config \<Rightarrow> base_sink \<Rightarrow> gst_structure \<Rightarrow> media_source option" where
  "rialto_mse_audio_sink_create_media_source opus default_config sink structure =
     (let alignment = rialto_mse_base_sink_get_segment_alignment structure;
          codecData = rialto_mse_base_sink_get_codec_data structure;
          format = rialto_mse_base_sink_get_stream_format structure;
          source = (\<lambda>mimeType audioConfig.
            MediaSourceAudio mimeType (m_hasDrm sink) audioConfig alignment format codecData)
      in case gst_name structure of
           None \<Rightarrow> None
         | Some strct_name \<Rightarrow>
            (if g_str_has_prefix strct_name ''audio/mpeg'' \<or> g_str_has_prefix strct_name ''audio/x-eac3'' \<or>
                g_str_has_prefix strct_name ''audio/x-ac3''
             then (let audioConfig = \<lparr>ac_channels = get_int_or_zero structure ''channels'',
                          ac_sampleRate = get_int_or_zero structure ''rate'', ac_codecSpecificConfig = []\<rparr>
                   in Some (source (if g_str_has_prefix strct_name ''audio/mpeg'' then ''audio/mp4'' else ''audio/x-eac3'')
                        audioConfig))
             else if g_str_has_prefix strct_name ''audio/x-opus''
             then (case opus_parse_caps opus structure of
                     None \<Rightarrow> None
                   | Some oc \<Rightarrow>
                      (let lsMap = map_buffer (opus_create_header opus oc 0 0);
                           codec_specific_config = (if mb_ok lsMap then mb_vector lsMap else [])
                       in Some (source ''audio/x-opus'' \<lparr>ac_channels = ucast (op_channels oc),
                            ac_sampleRate = op_sample_rate oc, ac_codecSpecificConfig = codec_specific_config\<rparr>)))
             else Some (source strct_name default_config)))"

section \<open>Events\<close>

text \<open>The caps branch of the pad's event function; the audio and the video sink do the same.\<close>

definition attach_on_caps :: "environment \<Rightarrow> nat \<Rightarrow> (base_sink \<Rightarrow> media_source option) \<Rightarrow> world \<Rightarrow> world result" where
  "attach_on_caps env k create_media_source w =
     (if m_sourceAttached (w_sinks w k) then Inr w
      else (case create_media_source (w_sinks w k) of
              None \<Rightarrow> Inr w
            | Some source \<Rightarrow>
               (case getMediaPlayerClient k w of
                  None \<Rightarrow> Inr w
                | Some c \<Rightarrow>
                    bind_result (call_client c (attachSource (env_pipeline env) source k) w) (\<lambda>(w, ok).
                      Inr (if ok then on_sink k (\<lambda>s. s\<lparr>m_sourceAttached := True\<rparr>) w else w)))))"

definition rialto_mse_audio_sink_event ::
  "environment \<Rightarrow> opus_utils \<Rightarrow> audio_config \<Rightarrow> nat \<Rightarrow> gst_event \<Rightarrow> world \<Rightarrow> (world \<times> bool option) result" where
  "rialto_mse_audio_sink_event env opus default_config k event w =
     bind_result
       (case event of
          EVENT_CAPS caps \<Rightarrow>
            attach_on_caps env k (\<lambda>s. rialto_mse_audio_sink_create_media_source opus default_config s caps) w
        | _ \<Rightarrow> Inr w)
       (rialto_mse_base_sink_event env k event)"

section \<open>Properties of the object\<close>

datatype audio_prop = PROP_VOLUME | PROP_MUTE | AUDIO_PROP_INVALID

definition rialto_mse_audio_sink_get_property ::
  "environment \<Rightarrow> nat \<Rightarrow> audio_prop \<Rightarrow> world \<Rightarrow> (world \<times> prop_value option) result" where
  "rialto_mse_audio_sink_get_property env k propId w =
     (let client = getMediaPlayerClient k w in
      case propId of
        PROP_VOLUME \<Rightarrow>
          (case client of
             None \<Rightarrow> Inr (w, None)
           | Some c \<Rightarrow> bind_result (call_client c (getVolume (env_pipeline env)) w) (\<lambda>(w, v). Inr (w, Some (V_Double v))))
      | PROP_MUTE \<Rightarrow>
          (case client of
             None \<Rightarrow> Inr (w, None)
           | Some c \<Rightarrow> bind_result (call_client c (getMute (env_pipeline env)) w) (\<lambda>(w, b). Inr (w, Some (V_Bool b))))
      | AUDIO_PROP_INVALID \<Rightarrow> Inr (w, None))"

definition rialto_mse_audio_sink_set_property ::
  "environment \<Rightarrow> nat \<Rightarrow> audio_prop \<Rightarrow> prop_value \<Rightarrow> world \<Rightarrow> world result" where
  "rialto_mse_audio_sink_set_property env k propId v w =
     (case getMediaPlayerClient k w of
        None \<Rightarrow> Inr w
      | Some c \<Rightarrow>
         (case (propId, v) of
            (PROP_VOLUME, V_Double vol) \<Rightarrow> through (Some c) (setVolume (env_pipeline env) vol) w
          | (PROP_MUTE, V_Bool b) \<Rightarrow> through (Some c) (setMute (env_pipeline env) b) w
          | _ \<Rightarrow> Inr w))"

section \<open>Construction\<close>

definition rialto_mse_audio_sink_init :: "bool \<Rightarrow> bool \<Rightarrow> base_sink \<Rightarrow> base_sink" where
  "rialto_mse_audio_sink_init has_template pad_created s =
     (let (s, ok) = rialto_mse_base_sink_initialise_sinkpad has_template pad_created s
      in if ok then s\<lparr>cb_qos := Some FORMAT_DEFAULT\<rparr> else s)"

text \<open>
  The caps of the pad template, from the mime types the server supports for audio (\<open>None\<close>: no
  capabilities object could be created). The same code is in the class of the video sink.
\<close>

definition class_caps :: "string list option \<Rightarrow> string list option" where
  "class_caps supportedMimeTypes = map_option rialto_mse_sink_setup_supported_caps supportedMimeTypes"

end
