(* ===== verification/Video_Sink.thy ===== *)
theory Video_Sink
  imports Audio_Sink
begin

text \<open>
  \<open>RialtoGStreamerMSEVideoSink.cpp\<close> and \<open>RialtoGStreamerMSEVideoSinkPrivate.h\<close>: what the video sink adds
  to the base sink.
\<close>

section \<open>State\<close>

record video_private =
  maxWidth :: u32
  maxHeight :: u32
  stepOnPrerollEnabled :: bool

definition new_video_private :: video_private where
  "new_video_private = \<lparr>maxWidth = 0, maxHeight = 0, stepOnPrerollEnabled = False\<rparr>"

section \<open>State changes\<close>

definition video_ready_to_paused ::
  "environment \<Rightarrow> place \<Rightarrow> video_private \<Rightarrow> nat \<Rightarrow> world \<Rightarrow> (world \<times> bool) result" where
  "video_ready_to_paused env pl priv k w =
     (let parentObject = parent_of pl in
      bind_result (attachMediaPlayerClient (env_pipeline env) (env_undef env) (env_created env) k parentObject
          (maxWidth priv) (maxHeight priv) w)
        (\<lambda>(w, attached).
          if \<not> attached then Inr (w, False)
          else
            (let (videoStreams, isVideoOnly) =
               (case rialto_mse_base_sink_get_n_streams_from_parent (env_play_flags env) (pl_object pl parentObject) of
                  Some (n_video, n_audio) \<Rightarrow> (n_video, n_audio = 0)
                | None \<Rightarrow> (m_numOfStreams (w_sinks w k), m_isSinglePathStream (w_sinks w k)))
             in case getMediaPlayerClient k w of
                  None \<Rightarrow> Inr (w, False)
                | Some c \<Rightarrow> bind_result (through (Some c) (setVideoStreamsInfo videoStreams isVideoOnly) w)
                    (\<lambda>w. Inr (w, True)))))"

definition rialto_mse_video_sink_change_state ::
  "environment \<Rightarrow> place \<Rightarrow> video_private \<Rightarrow> application_state list \<Rightarrow> nat \<Rightarrow> gst_state_change \<Rightarrow> world \<Rightarrow>
   (world \<times> gst_state_change_return) result" where
  "rialto_mse_video_sink_change_state env pl priv arriving k transition w =
     bind_result (if transition = READY_TO_PAUSED then video_ready_to_paused env pl priv k w else Inr (w, True))
       (\<lambda>(w, goes_on).
         if goes_on then rialto_mse_base_sink_change_state env arriving k transition w
         else Inr (w, GST_STATE_CHANGE_FAILURE))"

section \<open>The video source\<close>

definition rialto_mse_video_sink_create_media_source :: "base_sink \<Rightarrow> gst_structure \<Rightarrow> media_source option" where
  "rialto_mse_video_sink_create_media_source sink structure =
     (let alignment = rialto_mse_base_sink_get_segment_alignment structure;
          codecData = rialto_mse_base_sink_get_codec_data structure;
          format = rialto_mse_base_sink_get_stream_format structure;
          width = get_int_or_zero structure ''width'';
          height = get_int_or_zero structure ''height'';
          source = (\<lambda>mimeType. MediaSourceVideo mimeType (m_hasDrm sink) width height alignment format codecData)
      in case gst_name structure of
           None \<Rightarrow> None
         | Some strct_name \<Rightarrow>
            (if g_str_has_prefix strct_name ''video/x-h264'' then Some (source ''video/h264'')
             else if g_str_has_prefix strct_name ''video/x-h265''
             then (case rialto_mse_base_sink_get_dv_profile structure of
                     Some dolbyVisionProfile \<Rightarrow>
                       Some (MediaSourceVideoDolbyVision ''video/h265'' dolbyVisionProfile (m_hasDrm sink)
                         width height alignment format codecData)
                   | None \<Rightarrow> Some (source ''video/h265''))
             else Some (source strct_name)))"

section \<open>Events\<close>

definition rialto_mse_video_sink_event ::
  "environment \<Rightarrow> nat \<Rightarrow> gst_event \<Rightarrow> world \<Rightarrow> (world \<times> bool option) result" where
  "rialto_mse_video_sink_event env k event w =
     bind_result
       (case event of
          EVENT_CAPS caps \<Rightarrow> attach_on_caps env k (\<lambda>s. rialto_mse_video_sink_create_media_source s caps) w
        | _ \<Rightarrow> Inr w)
       (rialto_mse_base_sink_event env k event)"

section \<open>Properties of the object\<close>

datatype video_prop =
  PROP_WINDOW_SET | PROP_MAX_VIDEO_WIDTH | PROP_MAX_VIDEO_HEIGHT | PROP_FRAME_STEP_ON_PREROLL | VIDEO_PROP_INVALID

text \<open>\<open>garbage\<close>: the text in the uninitialised buffer of \<open>getVideoRectangle\<close>.\<close>

definition rialto_mse_video_sink_get_property ::
  "string \<Rightarrow> nat \<Rightarrow> video_prop \<Rightarrow> video_private \<Rightarrow> world \<Rightarrow> (world \<times> prop_value option) result" where
  "rialto_mse_video_sink_get_property garbage k propId priv w =
     (case propId of
        PROP_WINDOW_SET \<Rightarrow>
          (case getMediaPlayerClient k w of
             None \<Rightarrow> Inr (w, None)
           | Some c \<Rightarrow> bind_result (call_client c (getVideoRectangle garbage) w) (\<lambda>(w, str). Inr (w, Some (V_String str))))
      | PROP_MAX_VIDEO_WIDTH \<Rightarrow> Inr (w, Some (V_Uint (maxWidth priv)))
      | PROP_MAX_VIDEO_HEIGHT \<Rightarrow> Inr (w, Some (V_Uint (maxHeight priv)))
      | PROP_FRAME_STEP_ON_PREROLL \<Rightarrow> Inr (w, Some (V_Bool (stepOnPrerollEnabled priv)))
      | VIDEO_PROP_INVALID \<Rightarrow> Inr (w, None))"

definition rialto_mse_video_sink_set_property ::
  "environment \<Rightarrow> nat \<Rightarrow> video_prop \<Rightarrow> prop_value \<Rightarrow> video_private \<Rightarrow> world \<Rightarrow> (video_private \<times> world) result" where
  "rialto_mse_video_sink_set_property env k propId v priv w =
     (let client = getMediaPlayerClient k w in
      case (propId, v) of
        (PROP_WINDOW_SET, V_String rectangle) \<Rightarrow>
          (if client = None then Inr (priv, w)
           else bind_result (through client (setVideoRectangle (env_pipeline env) rectangle) w) (\<lambda>w. Inr (priv, w)))
      | (PROP_MAX_VIDEO_WIDTH, V_Uint n) \<Rightarrow> Inr (priv\<lparr>maxWidth := n\<rparr>, w)
      | (PROP_MAX_VIDEO_HEIGHT, V_Uint n) \<Rightarrow> Inr (priv\<lparr>maxHeight := n\<rparr>, w)
      | (PROP_FRAME_STEP_ON_PREROLL, V_Bool b) \<Rightarrow>
          bind_result
            (case client of
               Some c \<Rightarrow>
                 (if b \<and> \<not> stepOnPrerollEnabled priv
                  then bind_result (call_client c (renderFrame (env_pipeline env) (env_lost env) k) w) (\<lambda>(w, _). Inr w)
                  else Inr w)
             | None \<Rightarrow> Inr w)
            (\<lambda>w. Inr (priv\<lparr>stepOnPrerollEnabled := b\<rparr>, w))
      | _ \<Rightarrow> Inr (priv, w))"

section \<open>Construction\<close>

definition rialto_mse_video_sink_init :: "bool \<Rightarrow> bool \<Rightarrow> base_sink \<Rightarrow> base_sink" where
  "rialto_mse_video_sink_init has_template pad_created s =
     (let (s, ok) = rialto_mse_base_sink_initialise_sinkpad has_template pad_created s
      in if ok then s\<lparr>cb_qos := Some FORMAT_BUFFERS\<rparr> else s)"

end
