(* ===== verification/Sink_System.thy ===== *)
theory Sink_System
  imports Video_Sink
begin

text \<open>
  Audio and video sinks in bins, with their managers and clients, as one system: what GStreamer, the
  pipeline and the threads of the clients may do to it in any order, and what holds whatever they do.
\<close>

section \<open>State\<close>

text \<open>
  What does not change while a pipeline runs: the outside world, the place and the kind of every sink.
\<close>

record sink_setup =
  su_env :: environment
  su_place :: "nat \<Rightarrow> place"
  su_video :: "nat \<Rightarrow> bool"
  su_opus :: opus_utils
  su_default_config :: audio_config
  su_garbage :: string

record sink_system =
  sys_world :: world
  sys_video :: "nat \<Rightarrow> video_private"

section \<open>Actions\<close>

datatype sink_prop = Base_Prop base_prop | Audio_Prop audio_prop | Video_Prop video_prop

text \<open>
  The calls GStreamer makes on a sink from any of its threads, the two continuations of waiting
  threads, and the activity of a client: notifications of the pipeline and turns of its threads.
\<close>

datatype sink_action =
  Change_State nat "application_state list" gst_state_change
| Pad_Event nat gst_event
| Flush_Resume nat bool
| Element_Event nat gst_event
| Element_Query nat gst_query
| Get_Property nat sink_prop
| Set_Property nat sink_prop prop_value
| Chain nat gst_buffer
| Chain_Resume nat
| Client_Activity nat client_event

fun is_activity :: "client_event \<Rightarrow> bool" where
  "is_activity (Notify _) = True"
| "is_activity Worker_Turn = True"
| "is_activity (Puller_Turn _) = True"
| "is_activity _ = False"

definition in_world :: "('a \<Rightarrow> world) \<Rightarrow> sink_system \<Rightarrow> 'a result \<Rightarrow> sink_system result" where
  "in_world f sys r = bind_result r (\<lambda>x. Inr (sys\<lparr>sys_world := f x\<rparr>))"

text \<open>
  A buffer only enters \<open>chain\<close> when no other is in it, and after caps: the pad's stream lock and the
  sticky caps event of GStreamer see to that.
\<close>

fun act :: "sink_setup \<Rightarrow> sink_action \<Rightarrow> sink_system \<Rightarrow> sink_system result" where
  "act su (Change_State k arriving t) sys = in_world fst sys
     (if su_video su k
      then rialto_mse_video_sink_change_state (su_env su) (su_place su k) (sys_video sys k) arriving k t (sys_world sys)
      else rialto_mse_audio_sink_change_state (su_env su) (su_place su k) arriving k t (sys_world sys))"
| "act su (Pad_Event k ev) sys = in_world fst sys
     (if su_video su k then rialto_mse_video_sink_event (su_env su) k ev (sys_world sys)
      else rialto_mse_audio_sink_event (su_env su) (su_opus su) (su_default_config su) k ev (sys_world sys))"
| "act su (Flush_Resume k reset_time) sys = in_world fst sys (Inr (flush_stop_resume k reset_time (sys_world sys)))"
| "act su (Element_Event k ev) sys = in_world fst sys (rialto_mse_base_sink_send_event (su_env su) k ev (sys_world sys))"
| "act su (Element_Query k q) sys = in_world fst sys (rialto_mse_base_sink_query (su_env su) k q (sys_world sys))"
| "act su (Get_Property k p) sys =
     (case p of
        Base_Prop _ \<Rightarrow> Inr sys
      | Audio_Prop ap \<Rightarrow> in_world fst sys (rialto_mse_audio_sink_get_property (su_env su) k ap (sys_world sys))
      | Video_Prop vp \<Rightarrow> in_world fst sys
          (rialto_mse_video_sink_get_property (su_garbage su) k vp (sys_video sys k) (sys_world sys)))"
| "act su (Set_Property k p v) sys =
     (case p of
        Base_Prop bp \<Rightarrow> bind_result (rialto_mse_base_sink_set_property bp v (w_sinks (sys_world sys) k)) (\<lambda>s.
          Inr (sys\<lparr>sys_world := on_sink k (\<lambda>_. s) (sys_world sys)\<rparr>))
      | Audio_Prop ap \<Rightarrow> in_world (\<lambda>w. w) sys (rialto_mse_audio_sink_set_property (su_env su) k ap v (sys_world sys))
      | Video_Prop vp \<Rightarrow>
          bind_result (rialto_mse_video_sink_set_property (su_env su) k vp v (sys_video sys k) (sys_world sys))
            (\<lambda>(priv, w). Inr \<lparr>sys_world = w, sys_video = (sys_video sys)(k := priv)\<rparr>))"
| "act su (Chain k b) sys =
     (let s = w_sinks (sys_world sys) k in
      if chain_idle (chain_thread s) \<and> m_caps s \<noteq> None
      then Inr (sys\<lparr>sys_world := on_sink k
             (\<lambda>s. fst (rialto_mse_base_sink_chain (env_sample_new (su_env su)) b s)) (sys_world sys)\<rparr>)
      else Inr sys)"
| "act su (Chain_Resume k) sys =
     Inr (sys\<lparr>sys_world := on_sink k (\<lambda>s. fst (chain_resume (env_sample_new (su_env su)) s)) (sys_world sys)\<rparr>)"
| "act su (Client_Activity c ev) sys =
     (if owned (sys_world sys) c \<and> is_activity ev
      then in_world (\<lambda>w. w) sys
             (on_client c (perform (env_pipeline (su_env su)) (env_undef (su_env su)) (env_lost (su_env su)) ev) (sys_world sys))
      else Inr sys)"

fun act_all :: "sink_setup \<Rightarrow> sink_action list \<Rightarrow> sink_system \<Rightarrow> sink_system result" where
  "act_all su [] sys = Inr sys"
| "act_all su (a # as) sys = bind_result (act su a sys) (act_all su as)"

text \<open>
  A fresh sink. \<open>garbage\<close>: the segment before it is initialised; the pad template is there and the
  pad can be made, as GStreamer registers both.
\<close>

definition new_sink :: "bool \<Rightarrow> gst_segment \<Rightarrow> control_backend \<Rightarrow> base_sink" where
  "new_sink video garbage ctl =
     (if video then rialto_mse_video_sink_init else rialto_mse_audio_sink_init) True True
       (rialto_mse_base_sink_init ctl (new_private garbage))"

definition start_system :: "sink_setup \<Rightarrow> gst_segment \<Rightarrow> (nat \<Rightarrow> control_backend) \<Rightarrow> sink_system" where
  "start_system su garbage ctl = \<lparr>sys_world = start_world (\<lambda>k. new_sink (su_video su k) garbage (ctl k)),
     sys_video = (\<lambda>_. new_video_private)\<rparr>"

section \<open>What is assumed of the outside\<close>

text \<open>
  There are \<open>N\<close> sinks; caps have a name; the location is not set to null; \<open>gst_sample_new\<close> keeps the
  caps it is given.
\<close>

fun action_ok :: "nat \<Rightarrow> sink_action \<Rightarrow> bool" where
  "action_ok N (Change_State k _ _) \<longleftrightarrow> k < N"
| "action_ok N (Pad_Event k ev) \<longleftrightarrow> event_ok ev"
| "action_ok N (Set_Property k p v) \<longleftrightarrow> \<not> (p = Base_Prop PROP_LOCATION \<and> v = V_Null)"
| "action_ok N _ \<longleftrightarrow> True"

definition keeps_caps :: "environment \<Rightarrow> bool" where
  "keeps_caps env \<longleftrightarrow> (\<forall>buf st seg x. env_sample_new env buf (Some st) seg = Some x \<longrightarrow> sample_structure x = Some st)"

section \<open>Invariant\<close>

lemma kept_attach:
  assumes "world_inv N w" "k < N" "N < 2 ^ 32"
  shows "yields (\<lambda>(w', ok). world_inv N w' \<and> ok = (getMediaPlayerClient k w' \<noteq> None))
    (attachMediaPlayerClient ora undef created k parent mw mh w)"
  using world_inv_attach [OF assms] by (simp add: getMediaPlayerClient_def)

lemma inv_through:
  assumes "world_inv N w" "getMediaPlayerClient k w = Some c" "keeps_running f"
  shows "yields (world_inv N) (through (Some c) f w)"
  using kept_through [OF kept_refl [OF assms(1)] client_owned [OF assms(2)] assms(3)]
  by (rule yields_mono) (rule kept_inv)

lemma inv_call:
  assumes "world_inv N w" "getMediaPlayerClient k w = Some c" "keeps_running f"
  shows "yields (\<lambda>x. world_inv N (fst x)) (call_client c f w)"
  using kept_call [OF kept_refl [OF assms(1)] client_owned [OF assms(2)] assms(3)]
  by (rule yields_mono) (rule kept_inv)

lemma inv_audio_ready:
  assumes "world_inv N w" "k < N" "N < 2 ^ 32"
  shows "yields (\<lambda>x. world_inv N (fst x)) (audio_ready_to_paused env pl k w)"
    "yields (\<lambda>x. world_inv N (fst x)) (video_ready_to_paused env pl priv k w)"
  unfolding audio_ready_to_paused_def video_ready_to_paused_def Let_def
  by (rule yields_bind [OF kept_attach [OF assms]];
      auto split: prod.split option.split intro!: yields_bind [OF inv_through] keeps_running_calls)+

lemma inv_kind_change_state:
  assumes "world_inv N w" "k < N" "N < 2 ^ 32"
  shows "yields (\<lambda>x. world_inv N (fst x)) (rialto_mse_audio_sink_change_state env pl arriving k t w)"
    "yields (\<lambda>x. world_inv N (fst x)) (rialto_mse_video_sink_change_state env pl priv arriving k t w)"
  unfolding rialto_mse_audio_sink_change_state_def rialto_mse_video_sink_change_state_def
  by (rule yields_bind [where P = "\<lambda>x. world_inv N (fst x)"];
      auto intro: inv_audio_ready assms inv_change_state)+

lemma inv_attach_on_caps:
  assumes "world_inv N w"
  shows "yields (world_inv N) (attach_on_caps env k f w)"
proof -
  have "yields (world_inv N) (bind_result (call_client c (attachSource (env_pipeline env) source k) w) (\<lambda>(w, ok).
      Inr (if ok then on_sink k (\<lambda>s. s\<lparr>m_sourceAttached := True\<rparr>) w else w)))"
    if "getMediaPlayerClient k w = Some c" for c source
    by (rule yields_bind [OF inv_call [OF assms that keeps_running_calls(9)]])
      (auto intro!: world_inv_on_sink)
  then show ?thesis using assms by (auto simp: attach_on_caps_def split: option.split)
qed

lemma inv_base_event:
  "world_inv N w \<Longrightarrow> event_ok ev \<Longrightarrow> yields (\<lambda>x. world_inv N (fst x)) (rialto_mse_base_sink_event env k ev w)"
  using kept_event by (rule yields_mono) (auto dest: kept_inv)

lemma inv_kind_event:
  assumes "world_inv N w" "event_ok ev"
  shows "yields (\<lambda>x. world_inv N (fst x)) (rialto_mse_audio_sink_event env opus cfg k ev w)"
    "yields (\<lambda>x. world_inv N (fst x)) (rialto_mse_video_sink_event env k ev w)"
  unfolding rialto_mse_audio_sink_event_def rialto_mse_video_sink_event_def
  by (rule yields_bind [where P = "world_inv N"];
      auto intro: inv_base_event inv_attach_on_caps assms split: gst_event.split)+

lemma inv_properties:
  assumes "world_inv N w"
  shows "yields (\<lambda>x. world_inv N (fst x)) (rialto_mse_audio_sink_get_property env k ap w)"
    "yields (\<lambda>x. world_inv N (fst x)) (rialto_mse_video_sink_get_property g k vp priv w)"
    "yields (world_inv N) (rialto_mse_audio_sink_set_property env k ap v w)"
    "yields (\<lambda>x. world_inv N (snd x)) (rialto_mse_video_sink_set_property env k vp v priv w)"
  using assms
  by (auto simp: rialto_mse_audio_sink_get_property_def rialto_mse_video_sink_get_property_def
      rialto_mse_audio_sink_set_property_def rialto_mse_video_sink_set_property_def Let_def bind_result_assoc split_beta
      split: audio_prop.split video_prop.split option.split prop_value.split
      intro!: yields_bind [OF inv_call] yields_bind [OF inv_through] inv_through keeps_running_calls keeps_running_rectangle)


lemma sink_ok_chain:
  assumes "sink_ok s" "chain_thread s = Chain_Idle" "m_caps s \<noteq> None" "keeps_caps env"
  shows "sink_ok (fst (rialto_mse_base_sink_chain (env_sample_new env) b s))"
proof -
  obtain s' r where c: "rialto_mse_base_sink_chain (env_sample_new env) b s = (s', r)" by fastforce
  have q: "queue_inv s'" using queue_inv_chain [OF _ assms(2) c] assms(1) by (simp add: sink_ok_def)
  from assms(3) obtain st where "m_caps s = Some st" by blast
  with c q assms(1,4) show ?thesis
    by (auto simp: sink_ok_def rialto_mse_base_sink_chain_def chain_finish_def Let_def keeps_caps_def
        sample_has_caps_def split: if_splits option.splits)
qed

lemma sink_ok_resume:
  assumes "sink_ok s" "keeps_caps env"
  shows "sink_ok (fst (chain_resume (env_sample_new env) s))"
proof (cases "chain_thread s")
  case (Chain_Woken b)
  obtain s' r where c: "chain_resume (env_sample_new env) s = (s', r)" by fastforce
  have q: "queue_inv s'" using queue_inv_resume [OF _ c] assms(1) by (simp add: sink_ok_def)
  from assms(1) Chain_Woken obtain st where "m_caps s = Some st" by (cases "m_caps s") (auto simp: sink_ok_def)
  with c q assms Chain_Woken show ?thesis
    by (auto simp: sink_ok_def chain_resume_def chain_finish_def Let_def keeps_caps_def
        sample_has_caps_def split: if_splits option.splits)
qed (use assms in \<open>simp_all add: chain_resume_def\<close>)

lemma sink_ok_set_property:
  assumes "sink_ok s" "\<not> (p = PROP_LOCATION \<and> v = V_Null)"
  shows "yields sink_ok (rialto_mse_base_sink_set_property p v s)"
proof -
  have q: "sink_ok (s\<lparr>m_uri := a\<rparr>)" "sink_ok (s\<lparr>m_handleResetTimeMessage := b\<rparr>)" "sink_ok (s\<lparr>m_isSinglePathStream := b\<rparr>)"
    "sink_ok (s\<lparr>m_numOfStreams := n\<rparr>)" "sink_ok (s\<lparr>m_hasDrm := b\<rparr>)" for a b n
    using assms(1) by (subst sink_ok_same_sink [of s]; simp add: same_sink_def same_queue_def)+
  show ?thesis using assms by (cases p; cases v) (simp_all add: q)
qed

lemma yields_in_world:
  "yields (\<lambda>x. world_inv N (f x)) r \<Longrightarrow> yields (\<lambda>s. world_inv N (sys_world s)) (in_world f sys r)"
  unfolding in_world_def by (rule yields_bind) auto

lemma inv_act:
  assumes "world_inv N (sys_world sys)" "action_ok N a" "N < 2 ^ 32" "keeps_caps (su_env su)"
  shows "yields (\<lambda>s. world_inv N (sys_world s)) (act su a sys)"
proof (cases a)
  case (Change_State k arriving t)
  with assms show ?thesis by (auto intro!: yields_in_world inv_kind_change_state)
next
  case (Pad_Event k ev)
  with assms show ?thesis by (auto intro!: yields_in_world inv_kind_event)
next
  case (Flush_Resume k r)
  with kept_flush_stop_finish(2) [OF kept_refl [OF assms(1)], of k r] show ?thesis
    by (auto intro!: yields_in_world dest: kept_inv)
next
  case (Element_Event k ev)
  with assms yields_mono [OF kept_send_event [OF assms(1)], of "\<lambda>x. world_inv N (fst x)"] show ?thesis
    by (auto intro!: yields_in_world dest: kept_inv)
next
  case (Element_Query k q)
  with assms yields_mono [OF kept_query [OF assms(1)], of "\<lambda>x. world_inv N (fst x)"] show ?thesis
    by (auto intro!: yields_in_world dest: kept_inv)
next
  case (Get_Property k p)
  with assms show ?thesis by (cases p) (auto intro!: yields_in_world inv_properties)
next
  case (Set_Property k p v)
  have ok: "sink_ok (w_sinks (sys_world sys) k)" using assms(1) by (simp add: world_inv_def)
  show ?thesis
  proof (cases p)
    case (Base_Prop bp)
    with Set_Property assms(1,2) show ?thesis
      by (auto intro!: yields_bind [OF sink_ok_set_property [OF ok]] world_inv_on_sink)
  next
    case (Audio_Prop ap)
    with Set_Property inv_properties(3) [OF assms(1)] show ?thesis by (auto intro!: yields_in_world)
  next
    case (Video_Prop vp)
    with Set_Property show ?thesis by (auto intro!: yields_bind [OF inv_properties(4) [OF assms(1)]])
  qed
next
  case (Chain k b)
  with assms show ?thesis by (auto simp: Let_def intro!: world_inv_on_sink sink_ok_chain)
next
  case (Chain_Resume k)
  with assms show ?thesis by (auto intro!: world_inv_on_sink sink_ok_resume)
next
  case (Client_Activity c ev)
  moreover have "ev \<noteq> Stop_Streaming" if "is_activity ev" using that by auto
  ultimately show ?thesis
    using assms(1) by (auto intro!: yields_in_world world_inv_client_runs)
qed

interpretation sink_system: safe_system "act su" "act_all su"
  "\<lambda>a. action_ok N a \<and> N < 2 ^ 32 \<and> keeps_caps (su_env su)" "\<lambda>s. world_inv N (sys_world s)"
  for su N
  by unfold_locales (auto intro: inv_act)

lemma inv_act_all:
  assumes "N < 2 ^ 32" "keeps_caps (su_env su)"
  shows "world_inv N (sys_world sys) \<Longrightarrow> list_all (action_ok N) as \<Longrightarrow>
    yields (\<lambda>s. world_inv N (sys_world s)) (act_all su as sys)"
  by (rule sink_system.run_safe) (use assms in \<open>simp_all add: list_all_iff\<close>)

lemma new_sink_ok: "sink_ok (new_sink v g ctl)"
  by (simp add: new_sink_def sink_ok_def queue_inv_def rialto_mse_video_sink_init_def rialto_mse_audio_sink_init_def
      rialto_mse_base_sink_initialise_sinkpad_def rialto_mse_base_sink_init_def new_private_def)

lemma inv_start: "world_inv N (sys_world (start_system su g ctl))"
  by (simp add: start_system_def world_inv_start new_sink_ok)

section \<open>Guarantees\<close>

text \<open>
  C3. The sinks never fault. Whatever GStreamer does to any number of audio and video sinks below the
  bound of the reference counter (state changes in any order, events, queries, properties, buffers),
  interleaved with any activity of the pipelines and the clients' threads, no null pointer is
  dereferenced; at every moment a sink holds at most 24 samples, none while it is flushing; and every
  client a sink can reach has its pipeline and has not been stopped.
\<close>

theorem sinks_never_fault:
  assumes "N < 2 ^ 32" "keeps_caps (su_env su)" "list_all (action_ok N) as"
  shows "yields (\<lambda>s. \<forall>k. length (m_samples (w_sinks (sys_world s) k)) \<le> 24 \<and>
      (m_isFlushOngoing (w_sinks (sys_world s) k) \<longrightarrow> m_samples (w_sinks (sys_world s) k) = []) \<and>
      (\<forall>c. getMediaPlayerClient k (sys_world s) = Some c \<longrightarrow>
         pipeline_alive (mse_of c (sys_world s)) \<and> \<not> m_streamingStopped (clients (sys_world s) c)))
    (act_all su as (start_system su garbage ctl))"
proof (rule yields_mono [OF inv_act_all [OF assms(1,2) inv_start assms(3)]], intro allI)
  fix s k assume inv: "world_inv N (sys_world s)"
  have "sink_ok (w_sinks (sys_world s) k)" using inv by (simp add: world_inv_def)
  moreover have "run_inv (mse_of c (sys_world s))" if "getMediaPlayerClient k (sys_world s) = Some c" for c
    using owned_run [OF inv client_owned [OF that]] .
  ultimately show "length (m_samples (w_sinks (sys_world s) k)) \<le> 24 \<and>
      (m_isFlushOngoing (w_sinks (sys_world s) k) \<longrightarrow> m_samples (w_sinks (sys_world s) k) = []) \<and>
      (\<forall>c. getMediaPlayerClient k (sys_world s) = Some c \<longrightarrow>
         pipeline_alive (mse_of c (sys_world s)) \<and> \<not> m_streamingStopped (clients (sys_world s) c))"
    using run_inv_alive by (fastforce simp: sink_ok_def queue_inv_def MAX_INTERNAL_BUFFERS_QUEUE_SIZE_def run_inv_def)
qed

text \<open>An audio sink in a bin with one audio stream, and a pipeline that numbers its sources.\<close>

definition example_env :: environment where
  "example_env = \<lparr>env_pipeline = numbering_pipeline, env_created = True, env_undef = 0, env_position = 0,
     env_lost = id, env_parent_change = (\<lambda>_ el. (el, GST_STATE_CHANGE_SUCCESS)), env_parent_query = (\<lambda>_. (False, None)),
     env_pad_accepts = (\<lambda>_. True), env_caps_is_equal = (\<lambda>_ _. True),
     env_sample_new = (\<lambda>b st seg. Some \<lparr>sample_buffer = b, sample_structure = st, sample_segment = seg\<rparr>),
     env_play_flags = Map.empty, env_divide = (\<lambda>a _. a)\<rparr>"

definition example_setup :: sink_setup where
  "example_setup = \<lparr>su_env = example_env,
     su_place = (\<lambda>k. \<lparr>pl_element = k, pl_ancestors = [(7, True)],
       pl_object = (\<lambda>_. \<lparr>par_n_video = Some 0, par_n_audio = Some 1, par_flags = None\<rparr>)\<rparr>), su_video = (\<lambda>_. False),
     su_opus = \<lparr>opus_parse_caps = (\<lambda>_. None), opus_create_header = (\<lambda>_ _ _. \<lparr>mem_mappable = False, mem_bytes = []\<rparr>)\<rparr>,
     su_default_config = \<lparr>ac_channels = 0, ac_sampleRate = 0, ac_codecSpecificConfig = []\<rparr>, su_garbage = []\<rparr>"

definition preroll_run :: "sink_action list" where
  "preroll_run = [Change_State 0 [RUNNING] NULL_TO_READY, Change_State 0 [] READY_TO_PAUSED,
     Pad_Event 0 (EVENT_CAPS (empty_structure ''audio/mpeg''))]"

definition preroll_start :: sink_system where
  "preroll_start = start_system example_setup segment_init (\<lambda>_. \<lparr>cb_state = INACTIVE, cb_control = True\<rparr>)"

definition prerolled :: "world \<Rightarrow> bool" where
  "prerolled w \<longleftrightarrow> m_mediaPlayerClientsInfo w = [(7, \<lparr>inf_client = 0, inf_controller = Some 0, inf_refCount = 1\<rparr>)] \<and>
     m_currentGstBinParent (managers w 0) = Some 7 \<and> m_client (managers w 0) = Some 0 \<and>
     map (\<lambda>(i, a). (i, as_rialtoSink a, as_seekingState a, sq_items (bp_queue (as_bufferPuller a)) = []))
       (m_attachedSources (clients w 0)) = [(1, 0, IDLE, True)] \<and>
     m_serverSeekingState (clients w 0) = IDLE \<and> m_wasAllSourcesAttachedSent (clients w 0) \<and>
     (let s = w_sinks w 0 in m_sourceId s = 1 \<and> m_sourceAttached s \<and> m_isStateCommitNeeded s \<and> cb_seekCompleted s \<and>
        el_bus (element s) = [Async_Start] \<and> el_state (element s) = GST_STATE_NULL)"

lemma preroll_result: "yields (\<lambda>s. prerolled (sys_world s)) (act_all example_setup preroll_run preroll_start)"
  by code_simp

lemma preroll_ok: "list_all (action_ok 1) preroll_run" "keeps_caps (su_env example_setup)"
  by (simp_all add: preroll_run_def empty_structure_def keeps_caps_def example_setup_def example_env_def)

theorem sinks_never_fault_witness:
  "\<exists>s. act_all example_setup preroll_run preroll_start = Inr s \<and> prerolled (sys_world s) \<and>
     getMediaPlayerClient 0 (sys_world s) = Some 0 \<and> pipeline_alive (mse_of 0 (sys_world s))"
proof -
  obtain s where s: "act_all example_setup preroll_run preroll_start = Inr s" and p: "prerolled (sys_world s)"
    by (rule yieldsE [OF preroll_result])
  have c: "getMediaPlayerClient 0 (sys_world s) = Some 0"
    using p by (simp add: prerolled_def getMediaPlayerClient_def lock_client_def owned_def)
  have "(1::nat) < 2 ^ 32" by simp
  from sinks_never_fault [OF this preroll_ok(2,1), of segment_init "\<lambda>_. \<lparr>cb_state = INACTIVE, cb_control = True\<rparr>"]
  have "pipeline_alive (mse_of 0 (sys_world s))" using s c by (auto simp: preroll_start_def)
  with s p c show ?thesis by (intro exI [of _ s] conjI)
qed

end
