(* ===== verification/Sink_Protocol.thy ===== *)
theory Sink_Protocol
  imports Sink_System
begin

text \<open>
  What the client and the pipeline see of the operations of a sink, in every world a system of sinks can
  reach: the state changes that need the server, the position query, the way back from PAUSED, and a
  flushing seek from its event to the moment the server reports that it has flushed.
\<close>

section \<open>Protocols of a sink\<close>

text \<open>The worlds the system of \<open>N\<close> sinks can get into.\<close>

definition reachable_world :: "nat \<Rightarrow> world \<Rightarrow> bool" where
  "reachable_world N w \<longleftrightarrow> N < 2 ^ 32 \<and> (\<exists>su as garbage ctl s. keeps_caps (su_env su) \<and> list_all (action_ok N) as \<and>
     act_all su as (start_system su garbage ctl) = Inr s \<and> sys_world s = w)"

lemma reachable_worldI:
  "N < 2 ^ 32 \<Longrightarrow> keeps_caps (su_env su) \<Longrightarrow> list_all (action_ok N) as \<Longrightarrow>
   act_all su as (start_system su garbage ctl) = Inr s \<Longrightarrow> reachable_world N (sys_world s)"
  unfolding reachable_world_def by blast

lemma reachable_inv: "reachable_world N w \<Longrightarrow> world_inv N w"
proof -
  assume "reachable_world N w"
  then obtain su as garbage ctl s where r: "N < 2 ^ 32" "keeps_caps (su_env su)" "list_all (action_ok N) as"
    "act_all su as (start_system su garbage ctl) = Inr s" "sys_world s = w" by (auto simp: reachable_world_def)
  from inv_act_all [OF r(1,2) inv_start r(3), of su garbage ctl] r(4,5) show ?thesis by simp
qed

lemma reachable_run: "reachable_world N w \<Longrightarrow> getMediaPlayerClient k w = Some c \<Longrightarrow> run_inv (mse_of c w)"
  using owned_run [OF reachable_inv client_owned] .

text \<open>A call on a running client that only forwards.\<close>

lemma simple_call_run:
  assumes "run_inv v"
  obtains v' where "simple_call ora c v = Inr (v', ())" "sinks v' = sinks v" "pipeline_log v' = pipeline_log v @ [c]"
    "m_attachedSources (client_of v') = m_attachedSources (client_of v)"
    "m_serverSeekingState (client_of v') = m_serverSeekingState (client_of v)"
    "sq_running (m_backendQueue (client_of v'))"
    "m_streamingStopped (client_of v') = m_streamingStopped (client_of v)"
proof -
  have q: "sq_running (m_backendQueue (client_of v))" using assms by (simp add: run_inv_def)
  obtain log where "m_clientBackend (client_of v) = Some \<lparr>m_mediaPlayerBackend = Some log\<rparr>"
    "\<And>c. backend_do ora c v = Inr (upd_client (\<lambda>cl. cl\<lparr>m_clientBackend :=
       Some \<lparr>m_mediaPlayerBackend = Some (log @ [c])\<rparr>\<rparr>) v, ora log c)"
    by (rule backend_do_Inr [OF run_inv_good [OF assms], of ora]) blast
  with q show thesis
    by (intro that [of "upd_client (\<lambda>cl. cl\<lparr>m_clientBackend := Some \<lparr>m_mediaPlayerBackend = Some (log @ [c])\<rparr>\<rparr>) v"])
      (simp_all add: simple_call_def callInEventLoop_def pipeline_log_def)
qed

lemma through_simple:
  assumes "run_inv (mse_of c w)" "f = simple_call ora call" "is_simple call"
  shows "yields (\<lambda>w'. w_sinks w' = w_sinks w \<and> pipeline_log (mse_of c w') = pipeline_log (mse_of c w) @ [call] \<and>
      m_attachedSources (clients w' c) = m_attachedSources (clients w c) \<and>
      m_serverSeekingState (clients w' c) = m_serverSeekingState (clients w c) \<and> run_inv (mse_of c w'))
    (through (Some c) f w)"
proof -
  obtain v where v: "simple_call ora call (mse_of c w) = Inr (v, ())" "sinks v = sinks (mse_of c w)"
    "pipeline_log v = pipeline_log (mse_of c w) @ [call]"
    "m_attachedSources (client_of v) = m_attachedSources (client_of (mse_of c w))"
    "m_serverSeekingState (client_of v) = m_serverSeekingState (client_of (mse_of c w))"
    by (rule simple_call_run [OF assms(1), of ora call]) blast
  have "run_inv v" using run_inv_simple [OF assms(1,3), of ora] v(1) by (simp add: drop_value_def)
  with v assms(2) show ?thesis by (simp add: through_def call_client_def)
qed


lemma hasControl_frame:
  assumes "hasControl k w = (w', has)"
  shows "w_sinks w' = w_sinks w" "clients w' = clients w" "mse_of c w' = mse_of c w"
proof -
  show "w_sinks w' = w_sinks w" "clients w' = clients w"
    using assms by (auto simp: hasControl_def Let_def split: option.splits if_splits prod.splits)
  then show "mse_of c w' = mse_of c w" by (simp add: mse_of_def)
qed

definition server_call :: "gst_state_change \<Rightarrow> pipeline_call option" where
  "server_call t = (case t of READY_TO_PAUSED \<Rightarrow> Some Pause_Call | PLAYING_TO_PAUSED \<Rightarrow> Some Pause_Call
     | PAUSED_TO_PLAYING \<Rightarrow> Some Play_Call | _ \<Rightarrow> None)"

lemma pipeline_log_sinks [simp]: "pipeline_log (v\<lparr>sinks := ss\<rparr>) = pipeline_log v"
  by (simp add: pipeline_log_def)

lemma on_sink_id: "on_sink k (\<lambda>s. s) w = w"
  by (simp add: on_sink_def)

lemma start_async_result:
  assumes "reachable_world N w" "getMediaPlayerClient k w = Some c" "is_simple call"
    "w0 = on_sink k g w" "m_isStateCommitNeeded (g (w_sinks w k)) = m_isStateCommitNeeded (w_sinks w k)"
    "element (g (w_sinks w k)) = element (w_sinks w k)" "run_inv (mse_of c w0)" "has = snd (hasControl k w0)"
  shows "yields (\<lambda>(w', st). st = (if has then GST_STATE_CHANGE_ASYNC else GST_STATE_CHANGE_SUCCESS) \<and>
      pipeline_log (mse_of c w') = pipeline_log (mse_of c w) @ (if has then [call] else []) \<and>
      m_isStateCommitNeeded (w_sinks w' k) = (has \<or> m_isStateCommitNeeded (w_sinks w k)) \<and>
      element (w_sinks w' k) = (let e = element (w_sinks w k) in if has then e\<lparr>el_bus := el_bus e @ [Async_Start]\<rparr> else e))
    (start_async k (Some c) (simple_call ora call) w0)"
proof -
  obtain w1 where h: "hasControl k w0 = (w1, has)" using assms(8) by (cases "hasControl k w0") simp
  note fr = hasControl_frame [OF h]
  have log0: "pipeline_log (mse_of c w0) = pipeline_log (mse_of c w)" using assms(4) by (simp add: pipeline_log_def)
  show ?thesis
  proof (cases has)
    case False
    with h fr log0 assms(4-6) show ?thesis by (simp add: start_async_def pipeline_log_def)
  next
    case True
    let ?w = "on_sink k rialto_mse_base_async_start w1"
    have s: "sink_ok (w_sinks w0 j)" for j using run_inv_caps [OF assms(7)] by simp
    have "run_inv (mse_of c ?w)"
      using run_inv_other_sinks [OF assms(7), of "w_sinks ?w"] s fr(1) by (simp add: sink_ok_handlers fr(3))
    from through_simple [OF this refl assms(3), of ora]
    have "yields (\<lambda>w'. w_sinks w' = w_sinks ?w \<and> pipeline_log (mse_of c w') = pipeline_log (mse_of c w) @ [call])
        (through (Some c) (simple_call ora call) ?w)"
      by (rule yields_mono) (simp add: pipeline_log_def fr(2) assms(4))
    with True h assms(4-6) fr show ?thesis
      by (auto simp: start_async_def rialto_mse_base_async_start_def post_message_def Let_def elim!: yields_bind)
  qed
qed

text \<open>
  C13. State changes that need the server. For a sink with a client in its bin, a change to PAUSED or
  PLAYING sends exactly one \<open>pause\<close> or \<open>play\<close> to the pipeline, announces an asynchronous change on the bus
  before the parent class is asked, marks it as pending, and is reported as asynchronous, all this only
  when the sink has control; without control nothing is sent or announced. A failure of the parent
  class is reported in either case.
\<close>

theorem async_state_change:
  assumes "reachable_world N w" "getMediaPlayerClient k w = Some c" "server_call t = Some call"
  shows "yields (\<lambda>(w', r).
      let has = snd (hasControl k w); e = element (w_sinks w k);
          (el, result) = env_parent_change env t (if has then e\<lparr>el_bus := el_bus e @ [Async_Start]\<rparr> else e)
      in r = (if result = GST_STATE_CHANGE_FAILURE then GST_STATE_CHANGE_FAILURE
              else if result = GST_STATE_CHANGE_ASYNC \<or> has then GST_STATE_CHANGE_ASYNC else GST_STATE_CHANGE_SUCCESS) \<and>
         pipeline_log (mse_of c w') = pipeline_log (mse_of c w) @ (if has then [call] else []) \<and>
         m_isStateCommitNeeded (w_sinks w' k) = (has \<or> m_isStateCommitNeeded (w_sinks w k)) \<and>
         element (w_sinks w' k) = el)
    (rialto_mse_base_sink_change_state env arriving k t w)"
proof -
  define g :: "base_sink \<Rightarrow> base_sink" where "g = (if t = READY_TO_PAUSED then (\<lambda>s. s\<lparr>m_isFlushOngoing := False\<rparr>) else (\<lambda>s. s))"
  let ?w0 = "on_sink k g w"
  have inv: "world_inv N w" using reachable_inv [OF assms(1)] .
  have "world_inv N ?w0" by (rule world_inv_on_sink [OF inv]) (simp add: g_def sink_ok_queue)
  moreover have c0: "getMediaPlayerClient k ?w0 = Some c" using assms(2) by (simp add: getMediaPlayerClient_def)
  ultimately have run0: "run_inv (mse_of c ?w0)" using owned_run client_owned by blast
  have has0: "snd (hasControl k ?w0) = snd (hasControl k w)"
    by (simp add: hasControl_def Let_def split: option.split prod.split)
  have sc: "is_simple call" using assms(3) by (auto simp: server_call_def split: gst_state_change.splits)
  have sw: "change_state_switch env arriving k t w =
      bind_result (start_async k (Some c) (simple_call (env_pipeline env) call) ?w0) (\<lambda>(w, st). Inr (w, Some st))"
    using assms(2,3)
    by (auto simp: on_sink_id change_state_switch_def server_call_def g_def play_def pause_def Let_def split: gst_state_change.splits)
  have gf: "m_isStateCommitNeeded (g (w_sinks w k)) = m_isStateCommitNeeded (w_sinks w k)"
    "element (g (w_sinks w k)) = element (w_sinks w k)" by (simp_all add: g_def)
  note st = start_async_result [OF assms(1,2) sc refl gf run0 has0 [symmetric], of "env_pipeline env"]
  show ?thesis
    unfolding rialto_mse_base_sink_change_state_def sw bind_result_assoc
  proof (rule yields_bind [OF st], clarify)
    fix w1 status
    assume "pipeline_log (mse_of c w1) = pipeline_log (mse_of c w) @ (if snd (hasControl k w) then [call] else [])"
      "m_isStateCommitNeeded (w_sinks w1 k) = (snd (hasControl k w) \<or> m_isStateCommitNeeded (w_sinks w k))"
      "element (w_sinks w1 k) = (let e = element (w_sinks w k) in
         if snd (hasControl k w) then e\<lparr>el_bus := el_bus e @ [Async_Start]\<rparr> else e)"
    then show "yields (\<lambda>(w', r).
      let has = snd (hasControl k w); e = element (w_sinks w k);
          (el, result) = env_parent_change env t (if has then e\<lparr>el_bus := el_bus e @ [Async_Start]\<rparr> else e)
      in r = (if result = GST_STATE_CHANGE_FAILURE then GST_STATE_CHANGE_FAILURE
              else if result = GST_STATE_CHANGE_ASYNC \<or> has then GST_STATE_CHANGE_ASYNC else GST_STATE_CHANGE_SUCCESS) \<and>
         pipeline_log (mse_of c w') = pipeline_log (mse_of c w) @ (if has then [call] else []) \<and>
         m_isStateCommitNeeded (w_sinks w' k) = (has \<or> m_isStateCommitNeeded (w_sinks w k)) \<and>
         element (w_sinks w' k) = el)
      (bind_result (Inr (w1, Some (if snd (hasControl k w) then GST_STATE_CHANGE_ASYNC else GST_STATE_CHANGE_SUCCESS)))
        (\<lambda>(w, r). case r of None \<Rightarrow> Inr (w, GST_STATE_CHANGE_FAILURE)
         | Some status \<Rightarrow>
            (let (el, result) = env_parent_change env t (element (w_sinks w k));
                 w = on_sink k (\<lambda>s. s\<lparr>element := el\<rparr>) w
             in Inr (w, if result = GST_STATE_CHANGE_FAILURE then result
                        else if result = GST_STATE_CHANGE_ASYNC then GST_STATE_CHANGE_ASYNC else status))))"
      by (cases "snd (hasControl k w)") (simp_all add: Let_def split: prod.split)
  qed
qed


text \<open>The world after the preroll of \<open>preroll_run\<close>, which its sink controls.\<close>

lemma prerolledE:
  obtains w where "prerolled w" "reachable_world 1 w" "getMediaPlayerClient 0 w = Some 0" "hasControl 0 w = (w, True)"
proof -
  obtain s where s: "act_all example_setup preroll_run preroll_start = Inr s" and p: "prerolled (sys_world s)"
    by (rule yieldsE [OF preroll_result])
  have "reachable_world 1 (sys_world s)"
    by (rule reachable_worldI [OF _ preroll_ok(2,1) s [unfolded preroll_start_def]]) simp
  moreover from this have inv: "world_inv 1 (sys_world s)" by (rule reachable_inv)
  moreover have "getMediaPlayerClient 0 (sys_world s) = Some 0"
    using p by (simp add: prerolled_def getMediaPlayerClient_def lock_client_def owned_def)
  moreover have "hasControl 0 (sys_world s) = (sys_world s, True)"
    using p by (simp add: hasControl_cases [OF inv] prerolled_def)
  ultimately show thesis using that p by blast
qed

theorem async_state_change_witness:
  "\<exists>w. prerolled w \<and> yields (\<lambda>(w', r). r = GST_STATE_CHANGE_ASYNC \<and>
      pipeline_log (mse_of 0 w') = pipeline_log (mse_of 0 w) @ [Play_Call] \<and>
      el_bus (element (w_sinks w' 0)) = [Async_Start, Async_Start])
    (rialto_mse_base_sink_change_state example_env [] 0 PAUSED_TO_PLAYING w)"
proof (rule prerolledE)
  fix w assume p: "prerolled w" "reachable_world 1 w" "getMediaPlayerClient 0 w = Some 0" "hasControl 0 w = (w, True)"
  have "server_call PAUSED_TO_PLAYING = Some Play_Call" by (simp add: server_call_def)
  from async_state_change [OF p(2,3) this, of example_env "[]"] p(1,4)
  have "yields (\<lambda>(w', r). r = GST_STATE_CHANGE_ASYNC \<and>
      pipeline_log (mse_of 0 w') = pipeline_log (mse_of 0 w) @ [Play_Call] \<and>
      el_bus (element (w_sinks w' 0)) = [Async_Start, Async_Start])
    (rialto_mse_base_sink_change_state example_env [] 0 PAUSED_TO_PLAYING w)"
    by (elim yields_mono) (auto simp: example_env_def prerolled_def Let_def)
  with p(1) show ?thesis by blast
qed

section \<open>The position query\<close>

lemma getPosition_run:
  assumes "run_inv v"
  obtains v' where "getPosition ora g v = Inr (v', let a = ora (pipeline_log v) Get_Position in
       if ans_ok a then ans_int a else m_position (client_of v))"
proof -
  have q: "sq_running (m_backendQueue (client_of v))" using assms by (simp add: run_inv_def)
  obtain log where "m_clientBackend (client_of v) = Some \<lparr>m_mediaPlayerBackend = Some log\<rparr>"
    "\<And>c. backend_do ora c v = Inr (upd_client (\<lambda>cl. cl\<lparr>m_clientBackend :=
       Some \<lparr>m_mediaPlayerBackend = Some (log @ [c])\<rparr>\<rparr>) v, ora log c)"
    by (rule backend_do_Inr [OF run_inv_good [OF assms], of ora]) blast
  with q show thesis
    by (cases "ans_ok (ora log Get_Position)")
      (auto intro!: that simp: getPosition_def callInEventLoop_def getPositionDo_def pipeline_log_def)
qed

text \<open>
  The position query of a sink with a client is answered exactly when the sink has control and the
  position is not negative, and the answer is then the pipeline's position, or the last one known if the
  pipeline cannot tell. A negative position is never answered.
\<close>

theorem position_query_spec:
  assumes "reachable_world N w" "getMediaPlayerClient k w = Some c"
  shows "yields (\<lambda>(w', ok, answer).
      let a = env_pipeline env (pipeline_log (mse_of c w)) Get_Position;
          pos = (if ans_ok a then ans_int a else m_position (clients w c))
      in if snd (hasControl k w) \<and> 0 \<le> sint pos
         then ok \<and> answer = Some (Position_Answer GST_FORMAT_TIME pos) else \<not> ok \<and> answer = None)
    (rialto_mse_base_sink_query env k (QUERY_POSITION GST_FORMAT_TIME) w)"
proof -
  obtain w1 has where h: "hasControl k w = (w1, has)" by (cases "hasControl k w") simp
  note fr = hasControl_frame [OF h]
  have "run_inv (mse_of c w1)" using reachable_run [OF assms] by (simp add: fr(3))
  then obtain v where "getPosition (env_pipeline env) (env_position env) (mse_of c w1) =
      Inr (v, let a = env_pipeline env (pipeline_log (mse_of c w1)) Get_Position in
        if ans_ok a then ans_int a else m_position (client_of (mse_of c w1)))"
    by (rule getPosition_run)
  with h assms(2) show ?thesis
    by (simp add: rialto_mse_base_sink_query_def call_client_def Let_def fr)
qed

theorem position_query_spec_witness:
  "\<exists>w. prerolled w \<and> yields (\<lambda>(w', ok, answer). ok \<and> answer = Some (Position_Answer GST_FORMAT_TIME 0))
     (rialto_mse_base_sink_query example_env 0 (QUERY_POSITION GST_FORMAT_TIME) w)"
proof (rule prerolledE)
  fix w assume p: "prerolled w" "reachable_world 1 w" "getMediaPlayerClient 0 w = Some 0" "hasControl 0 w = (w, True)"
  from position_query_spec [OF p(2,3), of example_env] p(4)
  have "yields (\<lambda>(w', ok, answer). ok \<and> answer = Some (Position_Answer GST_FORMAT_TIME 0))
     (rialto_mse_base_sink_query example_env 0 (QUERY_POSITION GST_FORMAT_TIME) w)"
    by (elim yields_mono) (auto simp: example_env_def numbering_pipeline_def yes_pipeline_def Let_def)
  with p(1) show ?thesis by blast
qed

section \<open>Leaving PAUSED\<close>

text \<open>What the pullers leave alone in a sink.\<close>

lemma pull_frames_sinks:
  assumes "\<And>s b. f (set_front_buffer b s) = f s" "\<And>s. f (rialto_mse_base_sink_pop_sample s) = f s"
  shows "pull_frames ora undef p k i req n ad w = Inr (w', e, ad') \<Longrightarrow> f (sinks w' j) = f (sinks w j)"
proof (induction n arbitrary: w ad)
  case (Suc n)
  have b: "backend_do ora c v = Inr (v', a) \<Longrightarrow> sinks v' = sinks v" for c v v' a
    by (auto simp: backend_do_def bind_result_Inr split: option.splits)
  from Suc.prems show ?case
    by (auto simp: bind_result_Inr addSegment_def assms split: option.splits if_splits dest!: b Suc.IH)
qed simp

lemma pull_loop_sinks:
  assumes "\<And>s b. f (set_front_buffer b s) = f s" "\<And>s. f (rialto_mse_base_sink_pop_sample s) = f s"
    and "pull_loop ora undef p k i req fc fr ad w = Inr (w', e, ad')"
  shows "f (sinks w' j) = f (sinks w j)"
  using pull_loop_some_frames [of ora undef p k i req fc fr ad w] pull_frames_sinks [of f, OF assms(1,2)] assms(3) by fastforce

lemma pulls_sinks:
  assumes "\<And>s b. f (set_front_buffer b s) = f s" "\<And>s. f (rialto_mse_base_sink_pop_sample s) = f s"
  shows "fold (\<lambda>m r. bind_result r (PullBufferMessage_handle ora undef k p m)) ms r = Inr w' \<Longrightarrow>
    \<exists>w. r = Inr w \<and> f (sinks w' j) = f (sinks w j)"
proof (induction ms arbitrary: r)
  case (Cons m ms)
  have one: "PullBufferMessage_handle ora undef k p m v = Inr v' \<Longrightarrow> f (sinks v' j) = f (sinks v j)" for v v'
    using pull_loop_sinks [of f, OF assms]
    by (cases m) (auto simp: PullBufferMessage_handle_def bind_result_Inr post_backend_def)
  from Cons.IH [of "bind_result r (PullBufferMessage_handle ora undef k p m)"] Cons.prems show ?case
    by (auto simp: bind_result_Inr dest: one)
qed simp

lemma removeSource_effect:
  assumes "run_inv v" "\<And>s b. f (set_front_buffer b s) = f s" "\<And>s. f (rialto_mse_base_sink_pop_sample s) = f s"
  shows "yields (\<lambda>(v', _). f (sinks v' j) = f (sinks v j) \<and> map_of (m_attachedSources (client_of v')) i = None)
    (removeSource ora undef i v)"
proof -
  have q: "sq_running (m_backendQueue (client_of v))" using assms(1) by (simp add: run_inv_def)
  have b: "backend_do ora c u = Inr (u', a) \<Longrightarrow> sinks u' = sinks u" for c u u' a
    by (auto simp: backend_do_def bind_result_Inr split: option.splits)
  have s: "BufferPuller_stop ora undef i u = Inr u' \<Longrightarrow> f (sinks u' j) = f (sinks u j)" for u u'
    by (auto simp: BufferPuller_stop_def bind_result_Inr sq_stop_def set_puller_queue_def Let_def
        split: option.splits if_splits dest!: pulls_sinks [of f, OF assms(2,3)])
  have "yields (\<lambda>x. run_inv (fst x)) (removeSource ora undef i v)"
    using keeps_running_calls(10) [of ora undef i] assms(1) by (simp add: keeps_running_def)
  then obtain v' where v': "removeSource ora undef i v = Inr (v', ())" by (rule yieldsE) auto
  then obtain u1 a u2 where u: "backend_do ora (Remove_Source i) v = Inr (u1, a)" "BufferPuller_stop ora undef i u1 = Inr u2"
    "v' = upd_client (\<lambda>cl. cl\<lparr>m_attachedSources := assoc_erase i (m_attachedSources cl)\<rparr>) u2"
    using q by (auto simp: removeSource_def callInEventLoop_def bind_result_Inr)
  have "f (sinks v' j) = f (sinks v j)" using s [OF u(2)] b [OF u(1)] u(3) by simp
  with v' u(3) show ?thesis by (simp add: map_of_assoc_erase)
qed

text \<open>
  C14. Leaving PAUSED takes everything back: the source is removed from the client, no sample and no
  blocked streaming thread is left, buffers are refused until the next start, the sink may attach a
  source again, and an asynchronous change that was pending is completed on the bus. The parent
  class's verdict is returned.
\<close>

theorem paused_to_ready_spec:
  assumes "reachable_world N w" "getMediaPlayerClient k w = Some c"
  shows "yields (\<lambda>(w', r). let s = w_sinks w k; s' = w_sinks w' k; e = element s;
        (el, result) = env_parent_change env PAUSED_TO_READY
          (if m_isStateCommitNeeded s then e\<lparr>el_bus := el_bus e @ [Async_Done]\<rparr> else e)
      in m_samples s' = [] \<and> m_isFlushOngoing s' \<and> (\<forall>b. chain_thread s' \<noteq> Chain_Waiting b) \<and>
         \<not> m_sourceAttached s' \<and> \<not> m_isStateCommitNeeded s' \<and> element s' = el \<and>
         map_of (m_attachedSources (clients w' c)) (m_sourceId s) = None \<and>
         r = (if result = GST_STATE_CHANGE_FAILURE \<or> result = GST_STATE_CHANGE_ASYNC then result else GST_STATE_CHANGE_SUCCESS))
    (rialto_mse_base_sink_change_state env arriving k PAUSED_TO_READY w)"
proof -
  let ?s = "w_sinks w k"
  let ?w = "if m_isStateCommitNeeded ?s then on_sink k rialto_mse_base_async_done w else w"
  let ?i = "m_sourceId ?s"
  define f where "f = (\<lambda>s :: base_sink. (element s, m_isStateCommitNeeded s))"
  have fs: "f (set_front_buffer b s) = f s" "f (rialto_mse_base_sink_pop_sample s) = f s" for s b
    by (simp_all add: f_def set_front_buffer_def queue_op_defs Let_def)
  have "world_inv N ?w" using reachable_inv [OF assms(1)] world_inv_on_sink [of N w k] by (simp add: sink_ok_handlers)
  moreover have "getMediaPlayerClient k ?w = Some c" using assms(2) by (simp add: getMediaPlayerClient_def)
  ultimately have run: "run_inv (mse_of c ?w)" using owned_run client_owned by blast
  obtain v where v: "removeSource (env_pipeline env) (env_undef env) ?i (mse_of c ?w) = Inr (v, ())"
    "f (sinks v k) = f (w_sinks ?w k)" "map_of (m_attachedSources (client_of v)) ?i = None"
    using removeSource_effect [where f = f and j = k and i = ?i and ora = "env_pipeline env" and undef = "env_undef env", OF run fs]
    by (auto elim!: yieldsE)
  have sw: "change_state_switch env arriving k PAUSED_TO_READY w =
      Inr (on_sink k (\<lambda>s. (clearBuffersUnlocked s)\<lparr>m_sourceAttached := False\<rparr>) (put_mse c v ?w), Some GST_STATE_CHANGE_SUCCESS)"
    using assms(2) v(1) by (simp add: change_state_switch_def Let_def through_def call_client_def)
  have "element (sinks v k) = (let e = element ?s in if m_isStateCommitNeeded ?s then e\<lparr>el_bus := el_bus e @ [Async_Done]\<rparr> else e)"
    "\<not> m_isStateCommitNeeded (sinks v k)"
    using v(2) by (auto simp: f_def rialto_mse_base_async_done_def post_message_def Let_def split: if_splits)
  with v(3) show ?thesis
    unfolding rialto_mse_base_sink_change_state_def sw
    by (auto simp: Let_def queue_op_defs chain_pc_wake split: prod.split chain_pc.splits)
qed


theorem paused_to_ready_spec_witness:
  "\<exists>w. prerolled w \<and> yields (\<lambda>(w', r). r = GST_STATE_CHANGE_SUCCESS \<and> m_samples (w_sinks w' 0) = [] \<and>
      map_of (m_attachedSources (clients w' 0)) 1 = None \<and> el_bus (element (w_sinks w' 0)) = [Async_Start, Async_Done])
    (rialto_mse_base_sink_change_state example_env [] 0 PAUSED_TO_READY w)"
proof (rule prerolledE)
  fix w assume p: "prerolled w" "reachable_world 1 w" "getMediaPlayerClient 0 w = Some 0" "hasControl 0 w = (w, True)"
  from paused_to_ready_spec [OF p(2,3), of example_env "[]"] p(1)
  have "yields (\<lambda>(w', r). r = GST_STATE_CHANGE_SUCCESS \<and> m_samples (w_sinks w' 0) = [] \<and>
      map_of (m_attachedSources (clients w' 0)) 1 = None \<and> el_bus (element (w_sinks w' 0)) = [Async_Start, Async_Done])
    (rialto_mse_base_sink_change_state example_env [] 0 PAUSED_TO_READY w)"
    by (elim yields_mono) (auto simp: example_env_def prerolled_def Let_def)
  with p(1) show ?thesis by blast
qed

section \<open>A seek from the event to its completion\<close>

text \<open>A source with no pull request waiting starts to seek.\<close>

lemma started_seeking_effect:
  assumes "run_inv v" "map_of (m_attachedSources (client_of v)) i = Some a" "sq_items (bp_queue (as_bufferPuller a)) = []"
  obtains v' a' where "notifySourceStartedSeeking ora undef i v = Inr (v', ())" "sinks v' = sinks v"
    "pipeline_log v' = pipeline_log v" "run_inv v'"
    "map_of (m_attachedSources (client_of v')) i = Some a'" "as_rialtoSink a' = as_rialtoSink a"
proof -
  have q: "sq_running (m_backendQueue (client_of v))" using assms(1) by (simp add: run_inv_def)
  let ?q = "if sq_running (bp_queue (as_bufferPuller a)) then sq_clear (sq_halt (bp_queue (as_bufferPuller a)))
    else bp_queue (as_bufferPuller a)"
  let ?v = "upd_client startPullingDataIfSeekFinished (set_puller_queue i ?q (upd_client (set_seeking i) v))"
  have stop: "BufferPuller_stop ora undef i (upd_client (set_seeking i) v) =
      Inr (set_puller_queue i ?q (upd_client (set_seeking i) v))"
    using assms(2,3) by (simp add: BufferPuller_stop_def set_seeking_def map_of_assoc_modify sq_stop_def Let_def)
  have n: "notifySourceStartedSeeking ora undef i v = Inr (?v, ())"
    using q assms(2) by (simp add: notifySourceStartedSeeking_def callInEventLoop_def unit_body_def
        notifySourceStartedSeeking_body_def stop)
  have r: "run_inv ?v" using keeps_running_calls(8) [of ora undef i] assms(1) n unfolding keeps_running_def by fastforce
  have "\<exists>a'. map_of (m_attachedSources (client_of ?v)) i = Some a' \<and> as_rialtoSink a' = as_rialtoSink a"
    using assms(2) by (simp add: startPullingDataIfSeekFinished_def set_puller_queue_def set_seeking_def map_of_assoc_map
        map_of_assoc_modify start_puller_def)
  moreover have "pipeline_log ?v = pipeline_log v" "sinks ?v = sinks v"
    by (simp_all add: pipeline_log_def startPullingDataIfSeekFinished_def set_puller_queue_def set_seeking_def)
  ultimately show thesis using that n r by blast
qed

lemma seek_run:
  assumes "run_inv v"
  obtains v' where "seek ora p v = Inr (v', ())" "sinks v' = sinks v" "pipeline_log v' = pipeline_log v @ [Set_Position p]"
    "m_attachedSources (client_of v') = m_attachedSources (client_of v)"
    "m_serverSeekingState (client_of v') = SEEKING" "m_position (client_of v') = p"
proof -
  have q: "sq_running (m_backendQueue (client_of v))" using assms by (simp add: run_inv_def)
  obtain log where "m_clientBackend (client_of v) = Some \<lparr>m_mediaPlayerBackend = Some log\<rparr>"
    by (rule backend_do_Inr [OF run_inv_good [OF assms], of ora]) blast
  with q show thesis
    by (auto intro!: that simp: seek_def callInEventLoop_def backend_do_def forward_def pipeline_log_def)
qed

text \<open>FLUSHED wakes the thread that waits in the sink of an attached source.\<close>

lemma flushed_wakes:
  assumes "m_serverSeekingState (client_of v) = SEEKING" "map_of (m_attachedSources (client_of v)) i = Some a"
    "as_rialtoSink a = k" "cb_seekCompleted (sinks v k)"
  shows "\<not> m_seekWaiting (sinks (handlePlaybackStateChange PS_FLUSHED v) k)"
proof -
  let ?f = "rialto_mse_base_handle_rialto_server_completed_seek"
  let ?u = "upd_client startPullingDataIfSeekFinished (upd_client (\<lambda>cl. cl\<lparr>m_serverSeekingState := SEEK_DONE\<rparr>) v)"
  obtain a' where a': "map_of (m_attachedSources (client_of ?u)) i = Some a'" "as_rialtoSink a' = k"
    using assms(2,3)
    by (cases "list_ex (\<lambda>(i, a). as_seekingState a \<noteq> SEEKING) (m_attachedSources (client_of v))")
      (auto simp: startPullingDataIfSeekFinished_def map_of_assoc_map start_puller_def)
  have cb: "cb_seekCompleted (?f s) = cb_seekCompleted s" for s by (simp add: handler_defs)
  have wakes: "cb_seekCompleted (sinks u k) \<Longrightarrow> (\<exists>x \<in> set xs. as_rialtoSink (snd x) = k) \<or> \<not> m_seekWaiting (sinks u k) \<Longrightarrow>
      \<not> m_seekWaiting (sinks (fold (\<lambda>(i, a). upd_sink (as_rialtoSink a) ?f) xs u) k)" for xs u
  proof (induction xs arbitrary: u)
    case (Cons x xs)
    have "cb_seekCompleted (sinks (upd_sink (as_rialtoSink (snd x)) ?f u) k)" using Cons.prems(1) by (auto simp: cb)
    moreover have "(\<exists>x \<in> set xs. as_rialtoSink (snd x) = k) \<or> \<not> m_seekWaiting (sinks (upd_sink (as_rialtoSink (snd x)) ?f u) k)"
      using Cons.prems by (auto simp: handler_defs)
    ultimately show ?case using Cons.IH by (simp add: case_prod_beta)
  qed simp
  have "\<exists>x \<in> set (m_attachedSources (client_of ?u)). as_rialtoSink (snd x) = k"
    using map_of_SomeD [OF a'(1)] a'(2) by force
  then show ?thesis
    using wakes [of ?u "m_attachedSources (client_of ?u)"] assms(1,4)
    by (simp add: handlePlaybackStateChange_def for_sinks_def)
qed


text \<open>The seek of a controlling sink whose source is attached, up to its wait.\<close>

lemma seek_effect:
  assumes "world_inv N w" "getMediaPlayerClient k w = Some c" "snd (hasControl k w)" "m_sourceAttached (w_sinks w k)"
    "map_of (m_attachedSources (clients w c)) (m_sourceId (w_sinks w k)) = Some a" "sq_items (bp_queue (as_bufferPuller a)) = []"
  obtains v w' a' where
    "rialto_mse_base_sink_seek env k w = Inr (on_sink k (\<lambda>s. s\<lparr>m_seekWaiting := True\<rparr>) (put_mse c v w'), True)"
    "sinks v = (w_sinks w)(k := rialto_mse_base_sink_lost_state (env_lost env) (w_sinks w k))"
    "pipeline_log v = pipeline_log (mse_of c w) @
       (if el_state (element (w_sinks w k)) = GST_STATE_PLAYING then [Pause_Call] else []) @
       [Set_Position (sgm_start (m_lastSegment (w_sinks w k)))]"
    "m_serverSeekingState (client_of v) = SEEKING" "m_position (client_of v) = sgm_start (m_lastSegment (w_sinks w k))"
    "map_of (m_attachedSources (client_of v)) (m_sourceId (w_sinks w k)) = Some a'" "as_rialtoSink a' = as_rialtoSink a"
proof -
  let ?ora = "env_pipeline env" and ?i = "m_sourceId (w_sinks w k)"
  let ?start = "sgm_start (m_lastSegment (w_sinks w k))"
  let ?playing = "el_state (element (w_sinks w k)) = GST_STATE_PLAYING"
  have run: "run_inv (mse_of c w)" using owned_run [OF assms(1) client_owned [OF assms(2)]] .
  obtain v2 a2 where v2: "notifySourceStartedSeeking ?ora (env_undef env) ?i (mse_of c w) = Inr (v2, ())"
    "sinks v2 = w_sinks w" "pipeline_log v2 = pipeline_log (mse_of c w)" "run_inv v2"
    "map_of (m_attachedSources (client_of v2)) ?i = Some a2" "as_rialtoSink a2 = as_rialtoSink a"
    by (rule started_seeking_effect [OF run, of ?i a ?ora "env_undef env"]) (use assms(5,6) in auto)
  obtain w3 has where h: "hasControl k (put_mse c v2 w) = (w3, has)" by (cases "hasControl k (put_mse c v2 w)") simp
  note fr3 = hasControl_frame [OF h]
  have "snd (hasControl k (put_mse c v2 w)) = snd (hasControl k w)"
    by (simp add: hasControl_def lock_client_def owned_def Let_def split: option.split prod.split)
  with h assms(3) have has by simp
  let ?w4 = "on_sink k (rialto_mse_base_sink_lost_state (env_lost env)) w3"
  have m4: "mse_of c ?w4 = v2\<lparr>sinks := w_sinks ?w4\<rparr>" using fr3 by (simp add: mse_of_def)
  have ok: "sink_ok (w_sinks w j)" for j using assms(1) by (simp add: world_inv_def)
  have run4: "run_inv (mse_of c ?w4)"
    unfolding m4 by (rule run_inv_other_sinks [OF v2(4)]) (use ok fr3(1) v2(2) in \<open>auto simp: sink_ok_handlers\<close>)
  have log4: "pipeline_log (mse_of c ?w4) = pipeline_log (mse_of c w)" by (subst m4) (simp add: v2(3))
  have "yields (\<lambda>w5. w_sinks w5 = w_sinks ?w4 \<and> run_inv (mse_of c w5) \<and>
      pipeline_log (mse_of c w5) = pipeline_log (mse_of c w) @ (if ?playing then [Pause_Call] else []) \<and>
      m_attachedSources (clients w5 c) = m_attachedSources (client_of v2))
    (if ?playing then through (Some c) (pause ?ora) ?w4 else Inr ?w4)"
    using through_simple [OF run4 pause_def, of ?ora] run4 log4 fr3(2) by (auto elim!: yields_mono)
  then obtain w5 where w5: "(if ?playing then through (Some c) (pause ?ora) ?w4 else Inr ?w4) = Inr w5"
    "w_sinks w5 = w_sinks ?w4" "run_inv (mse_of c w5)"
    "pipeline_log (mse_of c w5) = pipeline_log (mse_of c w) @ (if ?playing then [Pause_Call] else [])"
    "m_attachedSources (clients w5 c) = m_attachedSources (client_of v2)" by (rule yieldsE) blast
  obtain v6 where v6: "seek ?ora ?start (mse_of c w5) = Inr (v6, ())" "sinks v6 = w_sinks w5"
    "pipeline_log v6 = pipeline_log (mse_of c w5) @ [Set_Position ?start]"
    "m_attachedSources (client_of v6) = m_attachedSources (clients w5 c)"
    "m_serverSeekingState (client_of v6) = SEEKING" "m_position (client_of v6) = ?start"
    by (rule seek_run [OF w5(3), of ?ora ?start]) auto
  have sk: "w_sinks w5 = (w_sinks w)(k := rialto_mse_base_sink_lost_state (env_lost env) (w_sinks w k))"
    using w5(2) fr3(1) v2(2) by simp
  have "rialto_mse_base_sink_seek env k w = Inr (on_sink k (\<lambda>s. s\<lparr>m_seekWaiting := True\<rparr>) (put_mse c v6 w5), True)"
    using assms(2,4) v2(1,2) h \<open>has\<close> w5(1) v6(1,2) sk fr3(1)
    by (simp add: rialto_mse_base_sink_seek_def through_def call_client_def rialto_mse_base_sink_lost_state_def Let_def)
  with v6 w5(4,5) sk v2(5,6) show thesis by (intro that [of v6 w5 a2]) simp_all
qed

text \<open>
  C9. A seek, end to end. A flushing seek to a time position on a controlling sink whose source is
  attached and has no pull request waiting, followed by the FLUSH_STOP that comes back, leaves the queue
  empty and the sink flushing, sends the pipeline a pause if the sink was playing and then exactly that
  position, remembers the position, and leaves the streaming thread waiting. It cannot go on before the
  server reports FLUSHED, and it can, ending the flush, once that report has been handled.
\<close>

theorem seek_reaches_server:
  assumes "reachable_world N w" "getMediaPlayerClient k w = Some c" "snd (hasControl k w)"
    and "m_sourceAttached (w_sinks w k)" "cb_seekCompleted (w_sinks w k)"
    and "map_of (m_attachedSources (clients w c)) (m_sourceId (w_sinks w k)) = Some a" "as_rialtoSink a = k"
      "sq_items (bp_queue (as_bufferPuller a)) = []"
    and "sk_flush sk" "sk_format sk = GST_FORMAT_TIME" "sk_startType sk = SEEK_TYPE_SET" "sk_start sk \<noteq> -1"
  shows "yields (\<lambda>(w', r). r = None \<and> m_samples (w_sinks w' k) = [] \<and> m_isFlushOngoing (w_sinks w' k) \<and>
      pipeline_log (mse_of c w') = pipeline_log (mse_of c w) @
        (if el_state (element (w_sinks w k)) = GST_STATE_PLAYING then [Pause_Call] else []) @ [Set_Position (sk_start sk)] \<and>
      m_position (clients w' c) = sk_start sk \<and>
      snd (flush_stop_resume k reset w') = None \<and>
      (let w'' = put_mse c (handlePlaybackStateChange PS_FLUSHED (mse_of c w')) w'
       in snd (flush_stop_resume k reset w'') = Some True \<and>
          \<not> m_isFlushOngoing (w_sinks (fst (flush_stop_resume k reset w'')) k)))
    (bind_result (rialto_mse_base_sink_send_event env k (EVENT_SEEK sk) w)
      (\<lambda>(w, _). rialto_mse_base_sink_event env k (EVENT_FLUSH_STOP reset) w))"
proof -
  let ?w1 = "on_sink k (set_seek_position (sk_start sk)) (on_sink k rialto_mse_base_sink_flush_start w)"
  let ?playing = "el_state (element (w_sinks w k)) = GST_STATE_PLAYING"
  have ev: "rialto_mse_base_sink_send_event env k (EVENT_SEEK sk) w = Inr (forward_upstream env (EVENT_SEEK sk) ?w1)"
    using assms(9-11) by (simp add: rialto_mse_base_sink_send_event_def Let_def)
  have fw: "fst (forward_upstream env (EVENT_SEEK sk) ?w1) = ?w1" by simp
  have inv1: "world_inv N ?w1"
    by (intro world_inv_on_sink) (auto intro: reachable_inv [OF assms(1)] sink_ok_queue)
  have s1: "sgm_start (m_lastSegment (w_sinks ?w1 k)) = sk_start sk" "m_sourceId (w_sinks ?w1 k) = m_sourceId (w_sinks w k)"
    "m_sourceAttached (w_sinks ?w1 k)" "cb_seekCompleted (w_sinks ?w1 k)" "element (w_sinks ?w1 k) = element (w_sinks w k)"
    using assms(4,5,12) by (simp_all add: set_seek_position_def queue_op_defs segment_init_def)
  have "sink_ok (w_sinks w k)" using reachable_inv [OF assms(1)] by (simp add: world_inv_def)
  then have "m_isFlushOngoing (w_sinks w k) \<Longrightarrow> m_samples (w_sinks w k) = []" by (simp add: sink_ok_def queue_inv_def)
  then have flush: "m_samples (w_sinks ?w1 k) = []" "m_isFlushOngoing (w_sinks ?w1 k)"
    by (simp_all add: set_seek_position_def queue_op_defs segment_init_def)
  have "snd (hasControl k ?w1) = snd (hasControl k w)"
    by (simp add: hasControl_def Let_def split: option.split prod.split)
  then have h1: "getMediaPlayerClient k ?w1 = Some c" "snd (hasControl k ?w1)"
    using assms(2,3) by (simp_all add: getMediaPlayerClient_def)
  have a1: "map_of (m_attachedSources (clients ?w1 c)) (m_sourceId (w_sinks ?w1 k)) = Some a" using s1(2) assms(6) by simp
  have log1: "pipeline_log (mse_of c ?w1) = pipeline_log (mse_of c w)" by (simp add: pipeline_log_def)
  obtain v w' a' where v:
    "rialto_mse_base_sink_seek env k ?w1 = Inr (on_sink k (\<lambda>s. s\<lparr>m_seekWaiting := True\<rparr>) (put_mse c v w'), True)"
    "sinks v = (w_sinks ?w1)(k := rialto_mse_base_sink_lost_state (env_lost env) (w_sinks ?w1 k))"
    "pipeline_log v = pipeline_log (mse_of c w) @ (if ?playing then [Pause_Call] else []) @ [Set_Position (sk_start sk)]"
    "m_serverSeekingState (client_of v) = SEEKING" "m_position (client_of v) = sk_start sk"
    "map_of (m_attachedSources (client_of v)) (m_sourceId (w_sinks w k)) = Some a'" "as_rialtoSink a' = k"
    by (rule seek_effect [OF inv1 h1 s1(3) a1 assms(8), of env, unfolded s1(1,2,5) log1 assms(7)]) blast
  let ?w7 = "on_sink k (\<lambda>s. s\<lparr>m_seekWaiting := True\<rparr>) (put_mse c v w')"
  have run: "bind_result (rialto_mse_base_sink_send_event env k (EVENT_SEEK sk) w)
      (\<lambda>(w, _). rialto_mse_base_sink_event env k (EVENT_FLUSH_STOP reset) w) = Inr (?w7, None)"
    unfolding ev by (simp add: split_beta fw rialto_mse_base_sink_event_def v(1))
  have "cb_seekCompleted (sinks v k)" using v(2) s1(4) by (simp add: rialto_mse_base_sink_lost_state_def)
  then have "\<not> m_seekWaiting (sinks (handlePlaybackStateChange PS_FLUSHED (mse_of c ?w7)) k)"
    by (intro flushed_wakes [of _ "m_sourceId (w_sinks w k)" a']) (use v(4,6,7) in simp_all)
  then have "snd (flush_stop_resume k reset (put_mse c (handlePlaybackStateChange PS_FLUSHED (mse_of c ?w7)) ?w7)) = Some True \<and>
      \<not> m_isFlushOngoing (w_sinks (fst (flush_stop_resume k reset
         (put_mse c (handlePlaybackStateChange PS_FLUSHED (mse_of c ?w7)) ?w7))) k)"
    by (simp add: flush_stop_resume_def flush_stop_finish_def rialto_mse_base_sink_flush_stop_def Let_def post_message_def)
  moreover have "snd (flush_stop_resume k reset ?w7) = None" by (simp add: flush_stop_resume_def)
  moreover have "m_samples (sinks v k) = []" "m_isFlushOngoing (sinks v k)"
    using v(2) flush by (simp_all add: rialto_mse_base_sink_lost_state_def)
  ultimately show ?thesis unfolding run using v(3,5) by (simp add: Let_def)
qed

theorem seek_reaches_server_witness:
  "\<exists>w. prerolled w \<and> yields (\<lambda>(w', r). r = None \<and> m_samples (w_sinks w' 0) = [] \<and> m_position (clients w' 0) = 5 \<and>
      pipeline_log (mse_of 0 w') = pipeline_log (mse_of 0 w) @ [Set_Position 5])
    (bind_result (rialto_mse_base_sink_send_event example_env 0 (EVENT_SEEK \<lparr>sk_rate = double_one, sk_format = GST_FORMAT_TIME,
       sk_flush = True, sk_instant_rate = False, sk_startType = SEEK_TYPE_SET, sk_start = 5\<rparr>) w)
      (\<lambda>(w, _). rialto_mse_base_sink_event example_env 0 (EVENT_FLUSH_STOP True) w))"
proof (rule prerolledE)
  fix w assume p: "prerolled w" "reachable_world 1 w" "getMediaPlayerClient 0 w = Some 0" "hasControl 0 w = (w, True)"
  let ?sk = "\<lparr>sk_rate = double_one, sk_format = GST_FORMAT_TIME, sk_flush = True, sk_instant_rate = False,
    sk_startType = SEEK_TYPE_SET, sk_start = 5\<rparr>"
  from p(1) have s: "m_sourceAttached (w_sinks w 0)" "cb_seekCompleted (w_sinks w 0)" "m_sourceId (w_sinks w 0) = 1"
    "el_state (element (w_sinks w 0)) = GST_STATE_NULL" by (simp_all add: prerolled_def Let_def)
  from p(1) obtain a where a: "m_attachedSources (clients w 0) = [(1, a)]" "as_rialtoSink a = 0" "sq_items (bp_queue (as_bufferPuller a)) = []"
    by (auto simp: prerolled_def)
  have "yields (\<lambda>(w', r). r = None \<and> m_samples (w_sinks w' 0) = [] \<and> m_position (clients w' 0) = 5 \<and>
      pipeline_log (mse_of 0 w') = pipeline_log (mse_of 0 w) @ [Set_Position 5])
    (bind_result (rialto_mse_base_sink_send_event example_env 0 (EVENT_SEEK ?sk) w)
      (\<lambda>(w, _). rialto_mse_base_sink_event example_env 0 (EVENT_FLUSH_STOP True) w))"
    by (rule yields_mono [OF seek_reaches_server [OF p(2,3), of a ?sk]]) (use p(4) s a in auto)
  with p(1) show ?thesis by blast
qed

end
