(* ===== verification/Data_Path.thy ===== *)
theory Data_Path
  imports Sink_Protocol
begin

text \<open>
  The way of the data, from the pad of a sink to the pipeline: the streaming thread puts buffers into the
  sample queue (\<open>chain\<close>), the puller of the sink's source takes samples out when the server asks for
  frames, and the client adds them to the pipeline as segments. The two threads run in any order.
\<close>

section \<open>A channel\<close>

datatype flow_action =
  Buffer gst_buffer  \<comment> \<open>\<open>chain\<close> is called, unless the streaming thread is still in an earlier call\<close>
| Go_On              \<comment> \<open>a woken streaming thread goes on\<close>
| Pull u64 u32       \<comment> \<open>the puller handles a request for some frames\<close>

text \<open>
  The client with its sinks, and the samples that \<open>chain\<close> has accepted so far (what it added to the queue
  when it returned OK).
\<close>

type_synonym flow = "mse \<times> gst_sample list"

definition stream_into :: "nat \<Rightarrow> (base_sink \<Rightarrow> base_sink \<times> gst_flow_return option) \<Rightarrow> flow \<Rightarrow> flow" where
  "stream_into k f = (\<lambda>(w, accepted).
     (let (s', r) = f (sinks w k)
      in (upd_sink k (\<lambda>_. s') w,
          accepted @ (if r = Some GST_FLOW_OK then drop (length (m_samples (sinks w k))) (m_samples s') else []))))"

fun flow_act :: "environment \<Rightarrow> parser_kind \<Rightarrow> nat \<Rightarrow> i32 \<Rightarrow> flow_action \<Rightarrow> flow \<Rightarrow> flow result" where
  "flow_act env p k i (Buffer b) (w, accepted) =
     Inr (if chain_idle (chain_thread (sinks w k)) \<and> m_caps (sinks w k) \<noteq> None
          then stream_into k (rialto_mse_base_sink_chain (env_sample_new env) b) (w, accepted) else (w, accepted))"
| "flow_act env p k i Go_On (w, accepted) = Inr (stream_into k (chain_resume (env_sample_new env)) (w, accepted))"
| "flow_act env p k i (Pull n req) (w, accepted) =
     bind_result (PullBufferMessage_handle (env_pipeline env) (env_undef env) k p (Pull_Buffer_Message i n req) w)
       (\<lambda>w. Inr (w, accepted))"

fun flow_run :: "environment \<Rightarrow> parser_kind \<Rightarrow> nat \<Rightarrow> i32 \<Rightarrow> flow_action list \<Rightarrow> flow \<Rightarrow> flow result" where
  "flow_run env p k i [] fl = Inr fl"
| "flow_run env p k i (a # as) fl = bind_result (flow_act env p k i a fl) (flow_run env p k i as)"

definition added :: "pipeline_call list \<Rightarrow> media_segment list" where
  "added log = concat (map (\<lambda>c. case c of Add_Segment _ seg \<Rightarrow> [seg] | _ \<Rightarrow> []) log)"

definition always_space :: "pipeline \<Rightarrow> bool" where
  "always_space ora \<longleftrightarrow> (\<forall>log req seg. ans_status (ora log (Add_Segment req seg)) \<noteq> ADD_NO_SPACE)"

lemma added_append [simp]: "added (xs @ ys) = added xs @ added ys"
  by (simp add: added_def)

lemma added_segments [simp]: "added (map (Add_Segment req) segs) = segs"
  by (induction segs) (simp_all add: added_def)

lemma segments_append: "segments p undef i (xs @ ys) = segments p undef i xs @ segments p undef i ys"
  by (simp add: segments_def)

text \<open>What holds on the way: what was sent and what is queued is what there was and what was accepted.\<close>

definition in_flow :: "environment \<Rightarrow> parser_kind \<Rightarrow> nat \<Rightarrow> i32 \<Rightarrow> mse \<Rightarrow> flow \<Rightarrow> bool" where
  "in_flow env p k i w0 = (\<lambda>(w, accepted). run_inv w \<and> (\<exists>sent.
     m_samples (sinks w0 k) @ accepted = sent @ m_samples (sinks w k) \<and> list_all sample_has_caps sent \<and>
     added (pipeline_log w) = added (pipeline_log w0) @ segments p (env_undef env) i sent))"

lemma in_flow_stream:
  assumes "in_flow env p k i w0 (w, accepted)" "f (sinks w k) = (s', r)" "sink_ok s'"
    "\<exists>new. m_samples s' = m_samples (sinks w k) @ new \<and> (r \<noteq> Some GST_FLOW_OK \<longrightarrow> new = [])"
  shows "in_flow env p k i w0 (stream_into k f (w, accepted))"
proof -
  have run: "run_inv w" using assms(1) by (simp add: in_flow_def)
  have "sink_ok (sinks w j)" for j using run_inv_caps [OF run] by simp
  with assms(3) have "run_inv (upd_sink k (\<lambda>_. s') w)"
    unfolding upd_sink_def by (intro run_inv_other_sinks [OF run]) simp
  moreover have "pipeline_log (upd_sink k (\<lambda>_. s') w) = pipeline_log w" by (simp add: upd_sink_def)
  ultimately show ?thesis
    using assms(1,2,4) by (auto simp: in_flow_def stream_into_def upd_sink_def)
qed

lemma chain_appends:
  "rialto_mse_base_sink_chain new b s = (s', r) \<Longrightarrow> \<exists>xs. m_samples s' = m_samples s @ xs \<and> (r \<noteq> Some GST_FLOW_OK \<longrightarrow> xs = [])"
  "chain_resume new s = (s', r) \<Longrightarrow> \<exists>xs. m_samples s' = m_samples s @ xs \<and> (r \<noteq> Some GST_FLOW_OK \<longrightarrow> xs = [])"
  by (auto simp: rialto_mse_base_sink_chain_def chain_resume_def chain_finish_def Let_def
      split: if_splits option.splits chain_pc.splits)

lemma in_flow_act:
  assumes "keeps_caps env" "always_space (env_pipeline env)" "in_flow env p k i w0 fl"
  shows "yields (in_flow env p k i w0) (flow_act env p k i a fl)"
proof -
  obtain w acc where fl: "fl = (w, acc)" by (cases fl)
  have run: "run_inv w" using assms(3) fl by (simp add: in_flow_def)
  have ok: "sink_ok (sinks w k)" using run_inv_caps [OF run] by simp
  show ?thesis
  proof (cases a)
    case (Buffer b)
    obtain s' r where c: "rialto_mse_base_sink_chain (env_sample_new env) b (sinks w k) = (s', r)" by fastforce
    show ?thesis
    proof (cases "chain_thread (sinks w k) = Chain_Idle \<and> m_caps (sinks w k) \<noteq> None")
      case True
      with sink_ok_chain [OF ok _ _ assms(1), of b] c have "sink_ok s'" by simp
      from in_flow_stream [where f = "rialto_mse_base_sink_chain (env_sample_new env) b", OF assms(3) [unfolded fl] c this chain_appends(1) [OF c]] True show ?thesis
        by (simp add: fl Buffer)
    qed (use assms(3) in \<open>auto simp: fl Buffer\<close>)
  next
    case Go_On
    obtain s' r where c: "chain_resume (env_sample_new env) (sinks w k) = (s', r)" by fastforce
    with sink_ok_resume [OF ok assms(1)] have "sink_ok s'" by simp
    from in_flow_stream [where f = "chain_resume (env_sample_new env)", OF assms(3) [unfolded fl] c this chain_appends(2) [OF c]] show ?thesis by (simp add: fl Go_On)
  next
    case (Pull n req)
    let ?xs = "m_samples (sinks w k)" and ?ora = "env_pipeline env" and ?u = "env_undef env"
    from pull_request_spec [OF run, of ?ora ?u k p i n req] obtain w' m rej where
      h: "PullBufferMessage_handle ?ora ?u k p (Pull_Buffer_Message i n req) w = Inr w'"
      and r: "if rej
      then m < length ?xs \<and> m_samples (sinks w' k) = strip_protection (?xs ! m) # drop (Suc m) ?xs \<and>
        (\<exists>seg. segments p ?u i [?xs ! m] = [seg] \<and>
           pipeline_log w' = pipeline_log w @ map (Add_Segment req) (segments p ?u i (take m ?xs) @ [seg]) \<and>
           ans_status (?ora (pipeline_log w @ map (Add_Segment req) (segments p ?u i (take m ?xs))) (Add_Segment req seg)) = ADD_NO_SPACE)
      else (m = unat n \<or> m = length ?xs) \<and> m_samples (sinks w' k) = drop m ?xs \<and>
        pipeline_log w' = pipeline_log w @ map (Add_Segment req) (segments p ?u i (take m ?xs))"
      by (auto simp: Let_def)
    have "\<not> rej" using r assms(2) by (auto simp: always_space_def)
    with r have w': "m_samples (sinks w' k) = drop m ?xs"
      "added (pipeline_log w') = added (pipeline_log w) @ segments p ?u i (take m ?xs)" by simp_all
    have "yields run_inv (PullBufferMessage_handle ?ora ?u k p (Pull_Buffer_Message i n req) w)"
      using run_inv_ok_from [OF run PullBufferMessage_handle_ok [OF run_inv_good [OF run]]] by simp
    with h have run': "run_inv w'" by simp
    obtain sent where "m_samples (sinks w0 k) @ acc = sent @ ?xs" "list_all sample_has_caps sent"
      "added (pipeline_log w) = added (pipeline_log w0) @ segments p ?u i sent"
      using assms(3) fl by (auto simp: in_flow_def)
    moreover have "list_all sample_has_caps (take m ?xs)"
      using ok by (auto simp: sink_ok_def list_all_iff dest: in_set_takeD)
    ultimately have "m_samples (sinks w0 k) @ acc = (sent @ take m ?xs) @ m_samples (sinks w' k)"
      "list_all sample_has_caps (sent @ take m ?xs)" "added (pipeline_log w') = added (pipeline_log w0) @ segments p ?u i (sent @ take m ?xs)"
      using w' by (simp_all add: segments_append)
    then show ?thesis using h run' unfolding fl Pull by (simp add: in_flow_def)
  qed
qed

interpretation flow_system: safe_system "flow_act env p k i" "flow_run env p k i"
  "\<lambda>a. keeps_caps env \<and> always_space (env_pipeline env)" "in_flow env p k i w0"
  for env p k i w0
  by unfold_locales (auto intro: in_flow_act)

lemma in_flow_run:
  assumes "keeps_caps env" "always_space (env_pipeline env)"
  shows "in_flow env p k i w0 fl \<Longrightarrow> yields (in_flow env p k i w0) (flow_run env p k i as fl)"
  by (rule flow_system.run_safe) (use assms in \<open>simp_all add: list_all_iff\<close>)

section \<open>The data of the segments\<close>

definition mappable :: "gst_sample \<Rightarrow> bool" where
  "mappable x \<longleftrightarrow> mem_mappable (buf_memory (sample_buffer x))"

definition sample_bytes :: "gst_sample \<Rightarrow> u8 list" where
  "sample_bytes x = mem_bytes (buf_memory (sample_buffer x))"

lemma fill_segment_data: "seg_data (fill_segment md seg) = seg_data seg"
  by (cases "pm_encrypted md") (simp_all add: fill_segment_clear fill_segment_encrypted)

lemma parsed_data:
  assumes "parseBuffer p undef x i = Inr (b, seg)"
  shows "seg_data seg = Some (sample_bytes x)"
proof -
  obtain st where st: "sample_structure x = Some st" using assms by (auto simp: parseBuffer_def Let_def split: option.splits)
  obtain buf' md where pm: "ProcessProtectionMetadata (Some (sample_buffer x)) new_metadata = Inr (buf', md)"
    using assms st by (auto simp: parseBuffer_def addProtectionMetadataToSegment_def Let_def bind_result_Inr)
  show ?thesis
    using assms st pm
    by (cases buf'; cases "gst_name st")
      (auto simp: parseBuffer_def addProtectionMetadataToSegment_def Let_def fill_segment_data sample_bytes_def)
qed

text \<open>A sample that cannot be mapped has no segment: the puller pops it, and its bytes are lost.\<close>

lemma segments_bytes:
  "list_all sample_has_caps xs \<Longrightarrow> map seg_data (segments p undef i xs) = map (\<lambda>x. Some (sample_bytes x)) (filter mappable xs)"
proof (induction xs)
  case (Cons x xs)
  from Cons.prems parseBuffer_total [of x p undef i] obtain b seg where "parseBuffer p undef x i = Inr (b, seg)"
    by auto
  with Cons show ?case
    by (cases "mem_mappable (buf_memory (sample_buffer x))") (auto simp: mappable_def dest: parsed_data)
qed simp

text \<open>
  The path from the pad to the pipeline is a channel. From any state of a running client, whatever the
  interleaving of the streaming thread and the requests of the server, if the server never runs out of
  space: nothing faults, and the samples queued at the start followed by those that \<open>chain\<close> accepted
  are the samples sent followed by those still queued, of which there are at most 24. The segments the
  pipeline has got are exactly those of the samples sent, in order, and carry their bytes; a
  sample that cannot be mapped is taken off the queue without a segment and lost.
\<close>

theorem samples_reach_pipeline_in_order:
  assumes "run_inv w" "keeps_caps env" "always_space (env_pipeline env)"
  shows "yields (\<lambda>(w', accepted). \<exists>sent segs.
      m_samples (sinks w k) @ accepted = sent @ m_samples (sinks w' k) \<and> length (m_samples (sinks w' k)) \<le> 24 \<and>
      added (pipeline_log w') = added (pipeline_log w) @ segs \<and>
      segs = segments p (env_undef env) i sent \<and> map seg_data segs = map (\<lambda>x. Some (sample_bytes x)) (filter mappable sent))
    (flow_run env p k i as (w, []))"
proof -
  have "in_flow env p k i w (w, [])"
    using assms(1) by (auto simp: in_flow_def intro: exI [of _ "[]"])
  from in_flow_run [OF assms(2,3) this] show ?thesis
  proof (rule yields_mono, clarify)
    fix w' accepted assume "in_flow env p k i w (w', accepted)"
    then obtain sent where s: "run_inv w'" "m_samples (sinks w k) @ accepted = sent @ m_samples (sinks w' k)"
      "list_all sample_has_caps sent" "added (pipeline_log w') = added (pipeline_log w) @ segments p (env_undef env) i sent"
      by (auto simp: in_flow_def)
    moreover have "length (m_samples (sinks w' k)) \<le> 24"
      using run_inv_caps [OF s(1)] by (simp add: sink_ok_def queue_inv_def MAX_INTERNAL_BUFFERS_QUEUE_SIZE_def)
    ultimately show "\<exists>sent segs. m_samples (sinks w k) @ accepted = sent @ m_samples (sinks w' k) \<and>
        length (m_samples (sinks w' k)) \<le> 24 \<and> added (pipeline_log w') = added (pipeline_log w) @ segs \<and>
        segs = segments p (env_undef env) i sent \<and> map seg_data segs = map (\<lambda>x. Some (sample_bytes x)) (filter mappable sent)"
      using segments_bytes by blast
  qed
qed

theorem samples_reach_pipeline_in_order_witness:
  "yields (\<lambda>(w', accepted). \<exists>sent. example_sample # accepted = sent @ m_samples (sinks w' 0) \<and>
      map seg_data (added (pipeline_log w')) = map (\<lambda>x. Some (sample_bytes x)) (filter mappable sent))
    (flow_run example_env Audio_Parser 0 1 [Pull 2 7, Go_On, Buffer (sample_buffer example_sample)] (started 0 0 loaded_sinks, []))"
proof -
  have "always_space (env_pipeline example_env)"
    by (simp add: always_space_def example_env_def numbering_pipeline_def yes_pipeline_def)
  moreover have "keeps_caps example_env" using preroll_ok(2) by (simp add: example_setup_def)
  moreover have "run_inv (started 0 0 loaded_sinks)" by (rule run_inv_started) (rule loaded_sinks_ok)
  moreover have "added (pipeline_log (started 0 0 loaded_sinks)) = []"
    by (simp add: started_def pipeline_log_def new_client_def Let_def added_def)
  ultimately show ?thesis
    using samples_reach_pipeline_in_order [where w = "started 0 0 loaded_sinks" and env = example_env and k = 0
        and as = "[Pull 2 7, Go_On, Buffer (sample_buffer example_sample)]" and p = Audio_Parser and i = 1]
    by (auto elim!: yields_mono simp: started_facts loaded_sinks_facts)
qed

end
