(* ===== verification/Pull_Steps.thy ===== *)
theory Pull_Steps
  imports Data_Path "HOL-Library.Sublist"
begin

text \<open>
  The same way of the data with the handler of a pull request taken apart. \<open>PullBufferMessage::handle\<close> locks
  the sink for each of its three accesses only (\<open>get_front_sample\<close>, \<open>is_eos\<close>, \<open>pop_sample\<close>); in between, the
  streaming thread and a flush from the application may run. The steps here are those between two such
  points, the server may store a segment, refuse it or reject it for lack of space, and a flush may come at any time.
\<close>

section \<open>The puller in steps\<close>

text \<open>
  The puller holds a pointer to a sample that the queue owns. The queue has the only reference (\<open>chain\<close>
  gave up the buffer), so a flush frees the sample: the pointer is then \<open>Freed\<close>.
\<close>

datatype sample_ref = In_Queue | Freed

datatype puller_pc =
  Puller_Idle
| At_Loop u32 u32                               \<comment> \<open>\<open>frame\<close> and \<open>addedSegments\<close>: before \<open>frame < m_frameCount\<close>\<close>
| No_Sample u32                                 \<comment> \<open>it returned null: before \<open>is_eos\<close>\<close>
| Have_Sample sample_ref u32 u32                \<comment> \<open>before \<open>gst_sample_get_buffer\<close>, map and parse\<close>
| Have_Segment sample_ref media_segment u32 u32 \<comment> \<open>mapped and parsed: before \<open>addSegment\<close> and unmap\<close>
| At_Pop u32 u32                                \<comment> \<open>before \<open>pop_sample\<close> and \<open>++frame\<close>\<close>
| At_Report bool u32                            \<comment> \<open>\<open>isEos\<close>: before the message to the backend queue\<close>

definition puller_step ::
  "pipeline \<Rightarrow> i32 \<Rightarrow> parser_kind \<Rightarrow> nat \<Rightarrow> i32 \<Rightarrow> u32 \<Rightarrow> u64 \<Rightarrow> mse \<times> puller_pc \<Rightarrow> (mse \<times> puller_pc) result" where
  "puller_step ora undef p k i req frameCount = (\<lambda>(w, pc).
     (case pc of
        Puller_Idle \<Rightarrow> Inr (w, Puller_Idle)
      | At_Loop fr addedSegs \<Rightarrow>
          (if \<not> ucast fr < frameCount then Inr (w, At_Report False addedSegs)
           else case rialto_mse_base_sink_get_front_sample (sinks w k) of
             None \<Rightarrow> Inr (w, No_Sample addedSegs)
           | Some _ \<Rightarrow> Inr (w, Have_Sample In_Queue fr addedSegs))
      | No_Sample addedSegs \<Rightarrow> Inr (w, At_Report (rialto_mse_base_sink_is_eos (sinks w k)) addedSegs)
      | Have_Sample ref fr addedSegs \<Rightarrow>
          (case (ref, m_samples (sinks w k)) of
             (In_Queue, sample # _) \<Rightarrow>
               (if \<not> mem_mappable (buf_memory (sample_buffer sample)) then Inr (w, At_Pop fr addedSegs)
                else bind_result (parseBuffer p undef sample i) (\<lambda>(buf', seg).
                  Inr (upd_sink k (set_front_buffer buf') w, Have_Segment In_Queue seg fr addedSegs)))
           | _ \<Rightarrow> Inl Use_After_Free)
      | Have_Segment ref seg fr addedSegs \<Rightarrow>
          bind_result (addSegment ora req seg w) (\<lambda>(w, status).
            if ref = Freed then Inl Use_After_Free
            else Inr (w, if status = ADD_NO_SPACE then At_Report False addedSegs else At_Pop fr (addedSegs + 1)))
      | At_Pop fr addedSegs \<Rightarrow> Inr (upd_sink k rialto_mse_base_sink_pop_sample w, At_Loop (fr + 1) addedSegs)
      | At_Report isEos addedSegs \<Rightarrow>
          Inr (post_backend (Have_Data_Message (pull_status isEos addedSegs) i req) w, Puller_Idle)))"

fun puller_steps ::
  "pipeline \<Rightarrow> i32 \<Rightarrow> parser_kind \<Rightarrow> nat \<Rightarrow> i32 \<Rightarrow> u32 \<Rightarrow> u64 \<Rightarrow> nat \<Rightarrow> mse \<times> puller_pc \<Rightarrow> (mse \<times> puller_pc) result" where
  "puller_steps ora undef p k i req fc 0 x = Inr x"
| "puller_steps ora undef p k i req fc (Suc m) x =
     bind_result (puller_step ora undef p k i req fc x) (puller_steps ora undef p k i req fc m)"

lemma puller_steps_add:
  "puller_steps ora undef p k i req fc (m + n) x =
     bind_result (puller_steps ora undef p k i req fc m x) (puller_steps ora undef p k i req fc n)"
  by (induction m arbitrary: x) (simp_all add: bind_result_def split: sum.splits)

lemma puller_steps_idle [simp]: "puller_steps ora undef p k i req fc m (w, Puller_Idle) = Inr (w, Puller_Idle)"
  by (induction m) (simp_all add: puller_step_def)

text \<open>One step at a time, where it starts.\<close>

lemma puller_steps_report [simp]:
  "puller_steps ora undef p k i req fc (Suc m) (w, At_Report e ad) =
     Inr (post_backend (Have_Data_Message (pull_status e ad) i req) w, Puller_Idle)"
  by (simp add: puller_step_def)

definition reported :: "i32 \<Rightarrow> u32 \<Rightarrow> (mse \<times> bool \<times> u32) result \<Rightarrow> (mse \<times> puller_pc) result" where
  "reported i req r = bind_result r (\<lambda>(w, isEos, addedSegs).
     Inr (post_backend (Have_Data_Message (pull_status isEos addedSegs) i req) w, Puller_Idle))"

lemma reported_simps [simp]:
  "reported i req (Inl err) = Inl err"
  "reported i req (Inr (w, e, ad)) = Inr (post_backend (Have_Data_Message (pull_status e ad) i req) w, Puller_Idle)"
  by (simp_all add: reported_def)

lemma puller_steps_more:
  assumes "puller_steps ora undef p k i req fc m x = reported i req r"
  shows "puller_steps ora undef p k i req fc (m + d) x = reported i req r"
  using assms by (cases r) (auto simp: puller_steps_add)

text \<open>
  The handler of a pull request as one step of the client is its steps run without interference, four for each
  sample of the queue and three more at most.
\<close>

lemma puller_steps_loop:
  "puller_steps ora undef p k i req fc (4 * length (m_samples (sinks w k)) + 3) (w, At_Loop fr ad) =
     reported i req (pull_loop ora undef p k i req fc fr ad w)"
proof (induction "length (m_samples (sinks w k))" arbitrary: w fr ad rule: less_induct)
  case less
  note simps = pull_loop.simps [of ora undef p k i req fc fr ad w]
  obtain m where m: "4 * length (m_samples (sinks w k)) + 3 = Suc (Suc (Suc m))" by simp
  show ?case
  proof (cases "ucast fr < fc")
    case False
    then show ?thesis unfolding m simps by (simp add: puller_step_def)
  next
    case more: True
    show ?thesis
    proof (cases "m_samples (sinks w k)")
      case Nil
      with more show ?thesis
        unfolding m simps by (simp add: puller_step_def rialto_mse_base_sink_get_front_sample_def)
    next
      case (Cons x xs)
      then have front: "rialto_mse_base_sink_get_front_sample (sinks w k) = Some x"
        by (rule sink_source.front_Cons)
      obtain l where l: "l = 4 * length xs + 3" by simp
      then have n: "4 * length (m_samples (sinks w k)) + 3 = Suc (Suc (Suc (Suc l)))" using Cons by simp
      let ?pop = "upd_sink k rialto_mse_base_sink_pop_sample"
      have IH: "puller_steps ora undef p k i req fc l (v, At_Loop (fr + 1) ad') =
          reported i req (pull_loop ora undef p k i req fc (fr + 1) ad' v)"
        if "m_samples (sinks v k) = xs" for v ad'
        using less.hyps [of v "fr + 1" ad'] that Cons l by simp
      show ?thesis
      proof (cases "mem_mappable (buf_memory (sample_buffer x))")
        case False
        have "m_samples (sinks (?pop w) k) = xs" using Cons by (simp add: sink_simps)
        from puller_steps_more [OF IH [OF this], of 1] False Cons front more show ?thesis
          unfolding n simps by (simp add: puller_step_def)
      next
        case True
        show ?thesis
        proof (cases "parseBuffer p undef x i")
          case (Inl err)
          with True Cons front more show ?thesis unfolding n simps by (simp add: puller_step_def)
        next
          case (Inr parsed)
          then obtain b seg where ps: "parseBuffer p undef x i = Inr (b, seg)" by (cases parsed) simp
          show ?thesis
          proof (cases "addSegment ora req seg (upd_sink k (set_front_buffer b) w)")
            case (Inl err)
            with ps True Cons front more show ?thesis unfolding n simps by (simp add: puller_step_def)
          next
            case (Inr answer)
            then obtain w2 st where a: "addSegment ora req seg (upd_sink k (set_front_buffer b) w) = Inr (w2, st)"
              by (cases answer) simp
            have "m_samples (sinks (?pop w2) k) = xs"
              using addSegment_sinks [OF a] Cons by (simp add: sink_simps)
            from IH [OF this] a ps True Cons front more show ?thesis
              unfolding n simps by (cases "st = ADD_NO_SPACE") (simp_all add: puller_step_def)
          qed
        qed
      qed
    qed
  qed
qed

lemma pull_handler_in_steps:
  "puller_steps ora undef p k i req fc (4 * length (m_samples (sinks w k)) + 3) (w, At_Loop 0 0) =
     bind_result (PullBufferMessage_handle ora undef k p (Pull_Buffer_Message i fc req) w) (\<lambda>w'. Inr (w', Puller_Idle))"
  unfolding puller_steps_loop
  by (simp add: PullBufferMessage_handle_def reported_def bind_result_def split: sum.splits)

section \<open>The two threads and the flushes\<close>

datatype data_action =
  Buffer_In gst_buffer   \<comment> \<open>\<open>chain\<close> is called, unless the streaming thread is still in an earlier call\<close>
| Stream_On              \<comment> \<open>a woken streaming thread goes on\<close>
| Eos_In                 \<comment> \<open>events of the pad\<close>
| Segment_In gst_segment
| Caps_In gst_structure
| Flush_In               \<comment> \<open>\<open>flush_start\<close> of a seek or of the pad\<close>
| Flush_Out bool
| Request_In u64 u32     \<comment> \<open>the idle puller takes a request for some frames\<close>
| Puller_Runs            \<comment> \<open>one step of the puller\<close>

record data_flow =
  df_mse :: mse
  df_puller :: puller_pc
  df_request :: u32
  df_frames :: u64
  df_accepted :: "gst_sample list"  \<comment> \<open>what \<open>chain\<close> has put into the queue so far\<close>

fun free_held :: "puller_pc \<Rightarrow> puller_pc" where
  "free_held (Have_Sample _ fr addedSegs) = Have_Sample Freed fr addedSegs"
| "free_held (Have_Segment _ seg fr addedSegs) = Have_Segment Freed seg fr addedSegs"
| "free_held pc = pc"

definition df_stream :: "nat \<Rightarrow> (base_sink \<Rightarrow> base_sink \<times> gst_flow_return option) \<Rightarrow> data_flow \<Rightarrow> data_flow" where
  "df_stream k f st = (let (w, acc) = stream_into k f (df_mse st, df_accepted st)
     in st\<lparr>df_mse := w, df_accepted := acc\<rparr>)"

definition df_sink :: "nat \<Rightarrow> (base_sink \<Rightarrow> base_sink) \<Rightarrow> data_flow \<Rightarrow> data_flow" where
  "df_sink k f st = st\<lparr>df_mse := upd_sink k f (df_mse st)\<rparr>"

fun data_act :: "environment \<Rightarrow> parser_kind \<Rightarrow> nat \<Rightarrow> i32 \<Rightarrow> data_action \<Rightarrow> data_flow \<Rightarrow> data_flow result" where
  "data_act env p k i (Buffer_In b) st =
     Inr (if chain_idle (chain_thread (sinks (df_mse st) k)) \<and> m_caps (sinks (df_mse st) k) \<noteq> None
          then df_stream k (rialto_mse_base_sink_chain (env_sample_new env) b) st else st)"
| "data_act env p k i Stream_On st = Inr (df_stream k (chain_resume (env_sample_new env)) st)"
| "data_act env p k i Eos_In st = Inr (df_sink k (\<lambda>s. s\<lparr>m_isEos := True\<rparr>) st)"
| "data_act env p k i (Segment_In sgm) st = Inr (df_sink k (\<lambda>s. s\<lparr>m_lastSegment := sgm\<rparr>) st)"
| "data_act env p k i (Caps_In caps) st = Inr (df_sink k (set_caps env caps) st)"
| "data_act env p k i Flush_In st =
     Inr (df_sink k rialto_mse_base_sink_flush_start
       (if m_isFlushOngoing (sinks (df_mse st) k) then st else st\<lparr>df_puller := free_held (df_puller st)\<rparr>))"
| "data_act env p k i (Flush_Out reset_time) st = Inr (df_sink k (rialto_mse_base_sink_flush_stop reset_time) st)"
| "data_act env p k i (Request_In n req) st =
     Inr (if df_puller st = Puller_Idle then st\<lparr>df_puller := At_Loop 0 0, df_request := req, df_frames := n\<rparr> else st)"
| "data_act env p k i Puller_Runs st =
     bind_result (puller_step (env_pipeline env) (env_undef env) p k i (df_request st) (df_frames st) (df_mse st, df_puller st))
       (\<lambda>(w, pc). Inr (st\<lparr>df_mse := w, df_puller := pc\<rparr>))"

fun data_run :: "environment \<Rightarrow> parser_kind \<Rightarrow> nat \<Rightarrow> i32 \<Rightarrow> data_action list \<Rightarrow> data_flow \<Rightarrow> data_flow result" where
  "data_run env p k i [] st = Inr st"
| "data_run env p k i (a # as) st = bind_result (data_act env p k i a st) (data_run env p k i as)"

fun data_ok :: "data_action \<Rightarrow> bool" where
  "data_ok (Caps_In caps) = (gst_name caps \<noteq> None)"
| "data_ok _ = True"

definition data_start :: "mse \<Rightarrow> data_flow" where
  "data_start w = \<lparr>df_mse = w, df_puller = Puller_Idle, df_request = 0, df_frames = 0, df_accepted = []\<rparr>"

text \<open>
  Two moments matter. A flush that clears the queue while the puller holds a sample frees that sample; and
  one that ends before the puller has popped would let it pop a newer sample.
\<close>

fun holds_sample :: "puller_pc \<Rightarrow> bool" where
  "holds_sample (Have_Sample _ _ _) = True"
| "holds_sample (Have_Segment _ _ _ _) = True"
| "holds_sample _ = False"

fun about_to_pop :: "puller_pc \<Rightarrow> bool" where
  "about_to_pop (At_Pop _ _) = True"
| "about_to_pop _ = False"

definition races :: "nat \<Rightarrow> data_action \<Rightarrow> data_flow \<Rightarrow> bool" where
  "races k a st \<longleftrightarrow> (let flushing = m_isFlushOngoing (sinks (df_mse st) k); pc = df_puller st in
     case a of
       Flush_In \<Rightarrow> holds_sample pc \<and> \<not> flushing
     | Flush_Out _ \<Rightarrow> about_to_pop pc \<and> flushing
     | _ \<Rightarrow> False)"

text \<open>
  No such moment in a run. The second one the code excludes itself: the handler of \<open>FLUSH_STOP\<close> stops the
  puller and waits for it (\<open>notifySourceStartedSeeking\<close>) before it ends the flush, and a puller that is
  started again finds the queue empty until then. Nothing excludes the first one.
\<close>

definition no_race :: "environment \<Rightarrow> parser_kind \<Rightarrow> nat \<Rightarrow> i32 \<Rightarrow> data_action list \<Rightarrow> data_flow \<Rightarrow> bool" where
  "no_race env p k i = allowed (data_act env p k i) (\<lambda>a st. \<not> races k a st)"

interpretation data_system: event_system "data_act env p k i" "data_run env p k i" for env p k i
  by unfold_locales simp_all

section \<open>What becomes of a sample\<close>

text \<open>
  A sample that the puller takes off the queue is stored by the pipeline, or the pipeline refuses its segment
  with an error, or it cannot be mapped and no segment is made: in the last two cases it is lost. The outcomes
  of a log: the data of every segment that was offered and not rejected for lack of space, and whether it was stored.
\<close>

datatype fate = Stored | Refused | Unmappable

definition outcome_one :: "pipeline \<Rightarrow> pipeline_call list \<Rightarrow> pipeline_call \<Rightarrow> (u8 list option \<times> fate) list" where
  "outcome_one ora log c = (case c of
     Add_Segment req seg \<Rightarrow>
       (case ans_status (ora log c) of
          ADD_OK \<Rightarrow> [(seg_data seg, Stored)] | ADD_NO_SPACE \<Rightarrow> [] | ADD_OTHER \<Rightarrow> [(seg_data seg, Refused)])
   | _ \<Rightarrow> [])"

definition outcomes :: "pipeline \<Rightarrow> pipeline_call list \<Rightarrow> (u8 list option \<times> fate) list" where
  "outcomes ora log = concat (map (\<lambda>n. outcome_one ora (take n log) (log ! n)) [0..<length log])"

definition stored :: "pipeline \<Rightarrow> pipeline_call list \<Rightarrow> u8 list option list" where
  "stored ora log = map fst (filter (\<lambda>(d, f). f = Stored) (outcomes ora log))"

text \<open>What samples with these fates come to in the log; a fate is \<open>Unmappable\<close> exactly if the sample is.\<close>

definition offered :: "(gst_sample \<times> fate) list \<Rightarrow> (u8 list option \<times> fate) list" where
  "offered taken = map (\<lambda>(x, f). (Some (sample_bytes x), f)) (filter (\<lambda>(x, f). f \<noteq> Unmappable) taken)"

definition fates_ok :: "(gst_sample \<times> fate) list \<Rightarrow> bool" where
  "fates_ok taken \<longleftrightarrow> list_all (\<lambda>(x, f). f = Unmappable \<longleftrightarrow> \<not> mappable x) taken"

lemma outcomes_snoc: "outcomes ora (log @ [c]) = outcomes ora log @ outcome_one ora log c"
proof -
  have "map (\<lambda>n. outcome_one ora (take n (log @ [c])) ((log @ [c]) ! n)) [0..<length log] =
      map (\<lambda>n. outcome_one ora (take n log) (log ! n)) [0..<length log]"
    by (rule map_cong) (simp_all add: nth_append)
  then have "concat (map (\<lambda>n. outcome_one ora (take n (log @ [c])) ((log @ [c]) ! n)) [0..<length log]) = outcomes ora log"
    by (simp only: outcomes_def)
  then show ?thesis by (simp add: outcomes_def [of ora "log @ [c]"])
qed

lemma offered_simps [simp]:
  "offered [] = []" "offered (xs @ ys) = offered xs @ offered ys"
  by (simp_all add: offered_def)

lemma fates_ok_simps [simp]:
  "fates_ok []" "fates_ok (xs @ ys) \<longleftrightarrow> fates_ok xs \<and> fates_ok ys" "fates_ok [(x, f)] \<longleftrightarrow> (f = Unmappable \<longleftrightarrow> \<not> mappable x)"
  by (simp_all add: fates_ok_def)

lemma stored_offered:
  assumes "outcomes ora log' = outcomes ora log @ offered taken"
  shows "stored ora log' = stored ora log @ map (\<lambda>(x, f). Some (sample_bytes x)) (filter (\<lambda>(x, f). f = Stored) taken)"
proof -
  have "map fst (filter (\<lambda>(d, f). f = Stored) (offered taken)) =
      map (\<lambda>(x, f). Some (sample_bytes x)) (filter (\<lambda>(x, f). f = Stored) taken)"
    by (induction taken) (auto simp: offered_def)
  with assms show ?thesis by (simp add: stored_def)
qed

text \<open>
  A sample without its protection metadata, which the parser takes off a sample when it is first pulled.
  Its bytes do not depend on it.
\<close>

abbreviation bare :: "gst_sample \<Rightarrow> gst_sample" where
  "bare \<equiv> strip_protection"

lemma bare_simps [simp]:
  "mem_bytes (buf_memory (sample_buffer (bare x))) = mem_bytes (buf_memory (sample_buffer x))"
  "mem_mappable (buf_memory (sample_buffer (bare x))) = mem_mappable (buf_memory (sample_buffer x))"
  "bare (bare x) = bare x" "sample_has_caps (bare x) = sample_has_caps x"
  "sample_bytes (bare x) = sample_bytes x" "mappable (bare x) = mappable x"
  by (simp_all add: strip_protection_def sample_has_caps_def sample_bytes_def mappable_def)

text \<open>The samples that are still to be sent: the front is on its way out when the puller is about to pop it.\<close>

definition waiting :: "nat \<Rightarrow> data_flow \<Rightarrow> gst_sample list" where
  "waiting k st = (case df_puller st of
     At_Pop _ _ \<Rightarrow> tl (m_samples (sinks (df_mse st) k)) | _ \<Rightarrow> m_samples (sinks (df_mse st) k))"

definition pc_ok :: "base_sink \<Rightarrow> puller_pc \<Rightarrow> bool" where
  "pc_ok s pc = (case pc of
     Have_Sample ref _ _ \<Rightarrow> ref = In_Queue \<and> m_samples s \<noteq> []
   | Have_Segment ref seg _ _ \<Rightarrow> ref = In_Queue \<and> m_samples s \<noteq> [] \<and>
       mappable (hd (m_samples s)) \<and> seg_data seg = Some (sample_bytes (hd (m_samples s)))
   | At_Pop _ _ \<Rightarrow> m_samples s \<noteq> [] \<or> m_isFlushOngoing s | _ \<Rightarrow> True)"

text \<open>
  The invariant of the channel. \<open>gone\<close>: the samples that have left the queue, \<open>taken\<close> those of them that
  were pulled, with their fates; they are the same as long as there was no flush.
\<close>

definition chan_inv :: "environment \<Rightarrow> nat \<Rightarrow> mse \<Rightarrow> bool \<Rightarrow> data_flow \<Rightarrow> bool" where
  "chan_inv env k w0 flushed st \<longleftrightarrow> run_inv (df_mse st) \<and> pc_ok (sinks (df_mse st) k) (df_puller st) \<and>
     (\<exists>gone taken. map bare (m_samples (sinks w0 k) @ df_accepted st) = gone @ map bare (waiting k st) \<and>
       subseq (map fst taken) gone \<and> (flushed \<or> map fst taken = gone) \<and> fates_ok taken \<and>
       outcomes (env_pipeline env) (pipeline_log (df_mse st)) =
         outcomes (env_pipeline env) (pipeline_log w0) @ offered taken)"

section \<open>Every step keeps the channel in order\<close>

lemma chan_invI:
  assumes "run_inv (df_mse st)" "pc_ok (sinks (df_mse st) k) (df_puller st)"
    "map bare (m_samples (sinks w0 k) @ df_accepted st) = gone @ map bare (waiting k st)"
    "subseq (map fst taken) gone" "flushed \<or> map fst taken = gone" "fates_ok taken"
    "outcomes (env_pipeline env) (pipeline_log (df_mse st)) = outcomes (env_pipeline env) (pipeline_log w0) @ offered taken"
  shows "chan_inv env k w0 flushed st"
  using assms unfolding chan_inv_def by blast

lemma chan_invE:
  assumes "chan_inv env k w0 flushed st"
  obtains gone taken where "run_inv (df_mse st)" "pc_ok (sinks (df_mse st) k) (df_puller st)"
    "map bare (m_samples (sinks w0 k) @ df_accepted st) = gone @ map bare (waiting k st)"
    "subseq (map fst taken) gone" "flushed \<or> map fst taken = gone" "fates_ok taken"
    "outcomes (env_pipeline env) (pipeline_log (df_mse st)) = outcomes (env_pipeline env) (pipeline_log w0) @ offered taken"
  using assms unfolding chan_inv_def by blast

lemma pc_ok_append:
  "pc_ok s pc \<Longrightarrow> m_samples s' = m_samples s @ xs \<Longrightarrow> m_isFlushOngoing s' = m_isFlushOngoing s \<Longrightarrow> pc_ok s' pc"
  by (auto simp: pc_ok_def split: puller_pc.splits)

lemma chan_sink:
  assumes "chan_inv env k w0 flushed st" "\<And>s. sink_ok s \<Longrightarrow> sink_ok (f s)" "\<And>s. m_samples (f s) = m_samples s"
    "m_isFlushOngoing (f (sinks (df_mse st) k)) = m_isFlushOngoing (sinks (df_mse st) k) \<or>
     \<not> (about_to_pop (df_puller st) \<and> m_isFlushOngoing (sinks (df_mse st) k))"
  shows "chan_inv env k w0 flushed (df_sink k f st)"
proof -
  from assms(1) obtain gone taken where c: "run_inv (df_mse st)"
    "pc_ok (sinks (df_mse st) k) (df_puller st)"
    "map bare (m_samples (sinks w0 k) @ df_accepted st) = gone @ map bare (waiting k st)"
    "subseq (map fst taken) gone" "flushed \<or> map fst taken = gone" "fates_ok taken"
    "outcomes (env_pipeline env) (pipeline_log (df_mse st)) = outcomes (env_pipeline env) (pipeline_log w0) @ offered taken" by (rule chan_invE)
  have "run_inv (upd_sink k f (df_mse st))"
    by (intro run_inv_upd_sink c(1) assms(2) run_inv_caps)
  moreover have "pc_ok (f (sinks (df_mse st) k)) (df_puller st)"
    using c(2) assms(3) assms(4) by (auto simp: pc_ok_def split: puller_pc.splits)
  ultimately show ?thesis
    using c assms(3) by (intro chan_invI [of _ _ _ gone taken]) (simp_all add: df_sink_def waiting_def cong: puller_pc.case_cong)
qed

text \<open>What a call of \<open>chain\<close> does to the queue: it adds to it, if it returns OK, and not during a flush.\<close>

definition appends :: "base_sink \<Rightarrow> base_sink \<Rightarrow> gst_flow_return option \<Rightarrow> bool" where
  "appends s s' r \<longleftrightarrow> m_isFlushOngoing s' = m_isFlushOngoing s \<and> (\<exists>new. m_samples s' = m_samples s @ new \<and>
     (r \<noteq> Some GST_FLOW_OK \<longrightarrow> new = []) \<and> (m_isFlushOngoing s \<longrightarrow> new = []))"

lemma chain_appends_more:
  "rialto_mse_base_sink_chain new b s = (s', r) \<Longrightarrow> appends s s' r"
  "chain_resume new s = (s', r) \<Longrightarrow> appends s s' r"
  by (auto simp: appends_def rialto_mse_base_sink_chain_def chain_resume_def chain_finish_def Let_def
      split: if_splits option.splits chain_pc.splits)

lemma chan_stream:
  assumes "chan_inv env k w0 flushed st" "f (sinks (df_mse st) k) = (s', r)" "sink_ok s'"
    "appends (sinks (df_mse st) k) s' r"
  shows "chan_inv env k w0 flushed (df_stream k f st)"
proof -
  from assms(1) obtain gone taken where c: "run_inv (df_mse st)"
    "pc_ok (sinks (df_mse st) k) (df_puller st)"
    "map bare (m_samples (sinks w0 k) @ df_accepted st) = gone @ map bare (waiting k st)"
    "subseq (map fst taken) gone" "flushed \<or> map fst taken = gone" "fates_ok taken"
    "outcomes (env_pipeline env) (pipeline_log (df_mse st)) = outcomes (env_pipeline env) (pipeline_log w0) @ offered taken" by (rule chan_invE)
  from assms(4) obtain new where n: "m_samples s' = m_samples (sinks (df_mse st) k) @ new"
    "r \<noteq> Some GST_FLOW_OK \<longrightarrow> new = []" "m_isFlushOngoing (sinks (df_mse st) k) \<longrightarrow> new = []"
    "m_isFlushOngoing s' = m_isFlushOngoing (sinks (df_mse st) k)" by (auto simp: appends_def)
  have run: "run_inv (upd_sink k (\<lambda>_. s') (df_mse st))" by (intro run_inv_upd_sink c(1) assms(3))
  have st': "df_stream k f st = st\<lparr>df_mse := upd_sink k (\<lambda>_. s') (df_mse st), df_accepted := df_accepted st @ new\<rparr>"
    using assms(2) n by (cases "r = Some GST_FLOW_OK") (simp_all add: df_stream_def stream_into_def)
  have "waiting k (df_stream k f st) = waiting k st @ new"
    using c(2) n by (auto simp: waiting_def st' pc_ok_def split: puller_pc.splits)
  moreover have "pc_ok s' (df_puller st)" by (rule pc_ok_append [OF c(2) n(1,4)])
  ultimately show ?thesis
    using run c n by (intro chan_invI [of _ _ _ gone taken]) (simp_all add: st')
qed

lemma chan_flush:
  assumes "chan_inv env k w0 flushed st" "m_isFlushOngoing (sinks (df_mse st) k) \<or> \<not> holds_sample (df_puller st)"
  shows "yields (chan_inv env k w0 True) (data_act env p k i Flush_In st)"
proof -
  from assms(1) obtain gone taken where c: "run_inv (df_mse st)"
    "pc_ok (sinks (df_mse st) k) (df_puller st)"
    "map bare (m_samples (sinks w0 k) @ df_accepted st) = gone @ map bare (waiting k st)"
    "subseq (map fst taken) gone" "flushed \<or> map fst taken = gone" "fates_ok taken"
    "outcomes (env_pipeline env) (pipeline_log (df_mse st)) = outcomes (env_pipeline env) (pipeline_log w0) @ offered taken" by (rule chan_invE)
  have run: "run_inv (upd_sink k rialto_mse_base_sink_flush_start (df_mse st))"
    by (intro run_inv_upd_sink c(1) sink_ok_queue(1) run_inv_caps)
  show ?thesis
  proof (cases "m_isFlushOngoing (sinks (df_mse st) k)")
    case True
    then have "rialto_mse_base_sink_flush_start (sinks (df_mse st) k) = sinks (df_mse st) k"
      by (simp add: rialto_mse_base_sink_flush_start_def)
    with True run c show ?thesis
      by (simp, intro chan_invI [of _ _ _ gone taken]) (auto simp: df_sink_def waiting_def cong: puller_pc.case_cong)
  next
    case False
    let ?s = "rialto_mse_base_sink_flush_start (sinks (df_mse st) k)"
    let ?st = "df_sink k rialto_mse_base_sink_flush_start (st\<lparr>df_puller := free_held (df_puller st)\<rparr>)"
    have s: "m_samples ?s = []" "m_isFlushOngoing ?s" using False by (simp_all add: queue_op_defs)
    have pc: "free_held (df_puller st) = df_puller st" "pc_ok ?s (df_puller st)"
      using assms(2) False s by (cases "df_puller st"; simp add: pc_ok_def)+
    have "waiting k ?st = []" using s(1) by (simp add: waiting_def df_sink_def split: puller_pc.splits)
    moreover have "subseq (map fst taken) (gone @ map bare (waiting k st))" using c(4) by (rule subseq_rev_drop_many)
    ultimately have "chan_inv env k w0 True ?st"
      using run c pc by (intro chan_invI [of _ _ _ "gone @ map bare (waiting k st)" taken]) (simp_all add: df_sink_def)
    with False show ?thesis by simp
  qed
qed

text \<open>A step of the puller that takes nothing off the queue.\<close>

lemma chan_move:
  assumes "chan_inv env k w0 flushed st" "run_inv w" "pc_ok (sinks w k) pc"
    "outcomes (env_pipeline env) (pipeline_log w) = outcomes (env_pipeline env) (pipeline_log (df_mse st))"
    "map bare (waiting k (st\<lparr>df_mse := w, df_puller := pc\<rparr>)) = map bare (waiting k st)"
  shows "chan_inv env k w0 flushed (st\<lparr>df_mse := w, df_puller := pc\<rparr>)"
  using assms(1)
proof (rule chan_invE)
  fix gone taken
  assume c: "map bare (m_samples (sinks w0 k) @ df_accepted st) = gone @ map bare (waiting k st)" "subseq (map fst taken) gone"
    "flushed \<or> map fst taken = gone" "fates_ok taken"
    "outcomes (env_pipeline env) (pipeline_log (df_mse st)) = outcomes (env_pipeline env) (pipeline_log w0) @ offered taken"
  show ?thesis by (rule chan_invI [of _ _ _ gone taken]) (use assms c in simp_all)
qed

text \<open>The front is taken, and this is what becomes of it.\<close>

lemma chan_take:
  assumes "chan_inv env k w0 flushed st" "run_inv w" "m_samples (sinks w k) = x # xs"
    "waiting k st = x # xs"
    "outcomes (env_pipeline env) (pipeline_log w) = outcomes (env_pipeline env) (pipeline_log (df_mse st)) @ offered [(x, f)]"
    "f = Unmappable \<longleftrightarrow> \<not> mappable x"
  shows "chan_inv env k w0 flushed (st\<lparr>df_mse := w, df_puller := At_Pop fr ad\<rparr>)"
  using assms(1)
proof (rule chan_invE)
  fix gone taken
  assume c: "map bare (m_samples (sinks w0 k) @ df_accepted st) = gone @ map bare (waiting k st)" "subseq (map fst taken) gone"
    "flushed \<or> map fst taken = gone" "fates_ok taken"
    "outcomes (env_pipeline env) (pipeline_log (df_mse st)) = outcomes (env_pipeline env) (pipeline_log w0) @ offered taken"
  have b: "offered [(bare x, f)] = offered [(x, f)]" by (simp add: offered_def)
  show ?thesis
    by (rule chan_invI [of _ _ _ "gone @ [bare x]" "taken @ [(bare x, f)]"])
      (use assms c b in \<open>auto simp: waiting_def pc_ok_def\<close>)
qed

lemma chan_have_sample:
  assumes "chan_inv env k w0 flushed st" "df_puller st = Have_Sample ref fr ad"
  shows "yields (chan_inv env k w0 flushed) (data_act env p k i Puller_Runs st)"
proof -
  let ?w = "df_mse st"
  from assms have run: "run_inv ?w" and ok: "pc_ok (sinks ?w k) (Have_Sample ref fr ad)"
    by (auto elim: chan_invE)
  then obtain x xs where q: "m_samples (sinks ?w k) = x # xs" and ref: "ref = In_Queue"
    by (cases "m_samples (sinks ?w k)") (auto simp: pc_ok_def)
  have wait: "waiting k st = x # xs" using assms(2) q by (simp add: waiting_def)
  show ?thesis
  proof (cases "mem_mappable (buf_memory (sample_buffer x))")
    case False
    have "chan_inv env k w0 flushed (st\<lparr>df_mse := ?w, df_puller := At_Pop fr ad\<rparr>)"
      by (rule chan_take [OF assms(1) run q wait, of Unmappable]) (simp_all add: offered_def mappable_def False)
    with False show ?thesis using q ref assms(2) by (simp add: puller_step_def)
  next
    case True
    have "sample_has_caps x" using run_inv_caps [OF run, of k] q by (simp add: sink_ok_def)
    with parseBuffer_total [of x p "env_undef env" i] obtain b seg where
      ps: "parseBuffer p (env_undef env) x i = Inr (b, seg)" by auto
    have strip: "x\<lparr>sample_buffer := b\<rparr> = bare x" using parseBuffer_strips [OF ps] by (simp add: strip_protection_def)
    let ?w' = "upd_sink k (set_front_buffer b) ?w"
    have "run_inv ?w'" by (intro run_inv_upd_sink run sink_ok_set_front run_inv_caps)
    moreover have q': "m_samples (sinks ?w' k) = bare x # xs" using q strip by simp
    ultimately have "chan_inv env k w0 flushed (st\<lparr>df_mse := ?w', df_puller := Have_Segment In_Queue seg fr ad\<rparr>)"
      using True parsed_data [OF ps] wait by (intro chan_move [OF assms(1)]) (simp_all add: pc_ok_def waiting_def mappable_def sample_bytes_def strip_protection_def)
    with True show ?thesis using q ref ps assms(2) by (simp add: puller_step_def)
  qed
qed

lemma chan_have_segment:
  assumes "chan_inv env k w0 flushed st" "df_puller st = Have_Segment ref seg fr ad"
  shows "yields (chan_inv env k w0 flushed) (data_act env p k i Puller_Runs st)"
proof -
  let ?w = "df_mse st" and ?ora = "env_pipeline env" and ?req = "df_request st"
  from assms have run: "run_inv ?w" and ok: "pc_ok (sinks ?w k) (Have_Segment ref seg fr ad)"
    by (auto elim: chan_invE)
  then obtain x xs where q: "m_samples (sinks ?w k) = x # xs" and ref: "ref = In_Queue"
    and x: "mappable x" "seg_data seg = Some (sample_bytes x)"
    by (cases "m_samples (sinks ?w k)") (auto simp: pc_ok_def)
  have wait: "waiting k st = x # xs" using assms(2) q by (simp add: waiting_def)
  from addSegment_alive [OF run_inv_alive [OF run], of ?ora ?req seg] obtain w' where
    a: "addSegment ?ora ?req seg ?w = Inr (w', ans_status (?ora (pipeline_log ?w) (Add_Segment ?req seg)))"
      "pipeline_log w' = pipeline_log ?w @ [Add_Segment ?req seg]" "sinks w' = sinks ?w" by auto
  have run': "run_inv w'"
    using run_inv_ok_from [OF run addSegment_ok [OF run_inv_good [OF run]], of ?ora ?req seg] a(1) by simp
  let ?f = "if ans_status (?ora (pipeline_log ?w) (Add_Segment ?req seg)) = ADD_OK then Stored else Refused"
  have log: "outcomes ?ora (pipeline_log w') = outcomes ?ora (pipeline_log ?w) @
      (if ans_status (?ora (pipeline_log ?w) (Add_Segment ?req seg)) = ADD_NO_SPACE then [] else offered [(x, ?f)])"
    using a(2) x(2) by (simp add: outcomes_snoc outcome_one_def offered_def split: add_segment_status.split)
  show ?thesis
  proof (cases "ans_status (?ora (pipeline_log ?w) (Add_Segment ?req seg)) = ADD_NO_SPACE")
    case True
    have "chan_inv env k w0 flushed (st\<lparr>df_mse := w', df_puller := At_Report False ad\<rparr>)"
      using log True wait a(3) q by (intro chan_move [OF assms(1) run']) (simp_all add: pc_ok_def waiting_def)
    with True show ?thesis using a(1) ref assms(2) by (simp add: puller_step_def)
  next
    case False
    have "chan_inv env k w0 flushed (st\<lparr>df_mse := w', df_puller := At_Pop fr (ad + 1)\<rparr>)"
      using log False x a(3) q by (intro chan_take [OF assms(1) run' _ wait, of ?f]) simp_all
    with False show ?thesis using a(1) ref assms(2) by (simp add: puller_step_def)
  qed
qed

lemma pipeline_log_post [simp]: "pipeline_log (post_backend m w) = pipeline_log w" "sinks (post_backend m w) = sinks w"
  by (simp_all add: pipeline_log_def post_backend_def)

lemma chan_puller:
  assumes "chan_inv env k w0 flushed st"
  shows "yields (chan_inv env k w0 flushed) (data_act env p k i Puller_Runs st)"
proof -
  let ?w = "df_mse st"
  from assms have run: "run_inv ?w" and ok: "pc_ok (sinks ?w k) (df_puller st)"
    by (auto elim: chan_invE)
  note move = chan_move [OF assms]
  show ?thesis
  proof (cases "df_puller st")
    case Puller_Idle
    then have same: "st\<lparr>df_puller := Puller_Idle\<rparr> = st" by (cases st) simp
    with Puller_Idle assms show ?thesis by (simp add: puller_step_def same)
  next
    case (At_Loop n ad)
    then show ?thesis using move [OF run, of "At_Report False ad"] move [OF run, of "No_Sample ad"]
        move [OF run, of "Have_Sample In_Queue n ad"]
      by (auto simp: puller_step_def rialto_mse_base_sink_get_front_sample_def pc_ok_def waiting_def)
  next
    case (No_Sample ad)
    then show ?thesis using move [OF run, of "At_Report (rialto_mse_base_sink_is_eos (sinks ?w k)) ad"]
      by (simp add: puller_step_def pc_ok_def waiting_def)
  next
    case (At_Pop n ad)
    have "run_inv (upd_sink k rialto_mse_base_sink_pop_sample ?w)"
      by (intro run_inv_upd_sink run sink_ok_pop run_inv_caps)
    from move [OF this, of "At_Loop (n + 1) ad"] show ?thesis
      using At_Pop by (simp add: puller_step_def pc_ok_def waiting_def sink_simps)
  next
    case (At_Report e ad)
    then show ?thesis
      using move [OF run_inv_post [OF run, of "Have_Data_Message (pull_status e ad) i (df_request st)"], of Puller_Idle]
      by (simp add: puller_step_def pc_ok_def waiting_def)
  qed (auto intro: chan_have_sample chan_have_segment assms simp del: data_act.simps)
qed

lemma sink_ok_events [simp]:
  "sink_ok (s\<lparr>m_isEos := e\<rparr>) = sink_ok s" "sink_ok (s\<lparr>m_lastSegment := sgm\<rparr>) = sink_ok s"
  by (simp_all add: sink_ok_def queue_inv_def cong: chain_pc.case_cong)

lemma chan_act:
  assumes "keeps_caps env" "chan_inv env k w0 flushed st" "data_ok a"
    "\<not> races k a st"
  shows "yields (chan_inv env k w0 (flushed \<or> a = Flush_In)) (data_act env p k i a st)"
proof (cases a)
  case (Buffer_In b)
  let ?s = "sinks (df_mse st) k"
  have ok: "sink_ok ?s" using assms(2) by (auto elim: chan_invE intro: run_inv_caps)
  obtain s' r where c: "rialto_mse_base_sink_chain (env_sample_new env) b ?s = (s', r)" by fastforce
  show ?thesis
  proof (cases "chain_thread ?s = Chain_Idle \<and> m_caps ?s \<noteq> None")
    case True
    with sink_ok_chain [OF ok _ _ assms(1), of b] c have "sink_ok s'" by simp
    from chan_stream [where f = "rialto_mse_base_sink_chain (env_sample_new env) b", OF assms(2) c this chain_appends_more(1) [OF c]]
    show ?thesis using True Buffer_In by simp
  qed (use assms(2) Buffer_In in auto)
next
  case Stream_On
  obtain s' r where c: "chain_resume (env_sample_new env) (sinks (df_mse st) k) = (s', r)" by fastforce
  have "sink_ok (sinks (df_mse st) k)" using assms(2) by (auto elim: chan_invE intro: run_inv_caps)
  with sink_ok_resume [OF this assms(1)] c have "sink_ok s'" by simp
  from chan_stream [where f = "chain_resume (env_sample_new env)", OF assms(2) c this chain_appends_more(2) [OF c]]
  show ?thesis using Stream_On by simp
next
  case Eos_In
  show ?thesis
    using chan_sink [OF assms(2), of "\<lambda>s. s\<lparr>m_isEos := True\<rparr>"] Eos_In by simp
next
  case (Segment_In sgm)
  show ?thesis
    using chan_sink [OF assms(2), of "\<lambda>s. s\<lparr>m_lastSegment := sgm\<rparr>"] Segment_In by simp
next
  case (Caps_In caps)
  show ?thesis
    using chan_sink [OF assms(2), of "set_caps env caps"] sink_ok_set_caps [of _ caps env] Caps_In assms(3)
    by (auto simp: set_caps_def split: option.splits)
next
  case Flush_In
  show ?thesis using chan_flush [OF assms(2)] assms(4) Flush_In by (simp add: races_def Let_def del: data_act.simps) blast
next
  case (Flush_Out r)
  show ?thesis
    using chan_sink [OF assms(2), of "rialto_mse_base_sink_flush_stop r"] sink_ok_queue(2) Flush_Out assms(4)
    by (auto simp: races_def Let_def rialto_mse_base_sink_flush_stop_def sink_simps)
next
  case (Request_In n req)
  have "chan_inv env k w0 flushed (st\<lparr>df_puller := At_Loop 0 0, df_request := req, df_frames := n\<rparr>)" if "df_puller st = Puller_Idle"
    using assms(2) that by (simp add: chan_inv_def pc_ok_def waiting_def)
  with assms(2) Request_In show ?thesis by simp
next
  case Puller_Runs
  show ?thesis using chan_puller [OF assms(2)] Puller_Runs by (simp del: data_act.simps)
qed

interpretation data_channel: guarded_system "data_act env p k i" "data_run env p k i" data_ok "\<lambda>a st. \<not> races k a st"
  "\<lambda>a flushed. flushed \<or> a = Flush_In" "\<lambda>flushed st. keeps_caps env \<and> chan_inv env k w0 flushed st"
  for env p k i w0
proof unfold_locales
  fix flushed st a
  assume "keeps_caps env \<and> chan_inv env k w0 flushed st" "data_ok a" "\<not> races k a st"
  then show "yields (\<lambda>st. keeps_caps env \<and> chan_inv env k w0 (flushed \<or> a = Flush_In) st) (data_act env p k i a st)"
    by (intro yields_mono [OF chan_act]) auto
qed

lemma fold_flushed: "fold (\<lambda>a flushed. flushed \<or> a = Flush_In) as flushed \<longleftrightarrow> flushed \<or> Flush_In \<in> set as"
  by (induction as arbitrary: flushed) auto

lemma chan_run:
  assumes "keeps_caps env" "chan_inv env k w0 flushed st" "list_all data_ok as" "no_race env p k i as st"
  shows "yields (chan_inv env k w0 (flushed \<or> Flush_In \<in> set as)) (data_run env p k i as st)"
  using data_channel.run_kept [of env k w0 flushed st as p i] assms
  by (auto simp: no_race_def fold_flushed elim!: yields_mono)

lemma chan_start: "run_inv w \<Longrightarrow> chan_inv env k w False (data_start w)"
  by (intro chan_invI [of _ _ _ "[]" "[]"]) (simp_all add: data_start_def pc_ok_def waiting_def)

text \<open>Without a flush in the run nothing races, whatever was going on when it began.\<close>

definition quiet :: "nat \<Rightarrow> data_flow \<Rightarrow> bool" where
  "quiet k st \<longleftrightarrow> (m_isFlushOngoing (sinks (df_mse st) k) \<longrightarrow> \<not> about_to_pop (df_puller st))"

lemma appends_flag: "appends s s' r \<Longrightarrow> m_isFlushOngoing s' = m_isFlushOngoing s"
  by (simp add: appends_def)

lemma quiet_stream:
  assumes "quiet k st" "appends (sinks (df_mse st) k) (fst (f (sinks (df_mse st) k))) r"
  shows "quiet k (df_stream k f st)"
  using assms appends_flag [OF assms(2)]
  by (auto simp: quiet_def df_stream_def stream_into_def split: prod.split)

lemma quiet_puller:
  assumes "chan_inv env k w0 flushed st" "quiet k st" "data_act env p k i Puller_Runs st = Inr st'"
  shows "quiet k st'"
proof (cases "df_puller st")
  case (Have_Sample ref fr ad)
  have "m_samples (sinks (df_mse st) k) \<noteq> []" "sink_ok (sinks (df_mse st) k)"
    using assms(1) Have_Sample by (auto elim: chan_invE simp: pc_ok_def intro: run_inv_caps)
  then have "\<not> m_isFlushOngoing (sinks (df_mse st) k)" by (auto simp: sink_ok_def queue_inv_def)
  then show ?thesis using assms(3) Have_Sample
    by (auto simp: quiet_def puller_step_def bind_result_Inr split: sample_ref.splits list.splits if_splits)
next
  case (Have_Segment ref seg fr ad)
  have "m_samples (sinks (df_mse st) k) \<noteq> []" "sink_ok (sinks (df_mse st) k)"
    using assms(1) Have_Segment by (auto elim: chan_invE simp: pc_ok_def intro: run_inv_caps)
  then have "\<not> m_isFlushOngoing (sinks (df_mse st) k)" by (auto simp: sink_ok_def queue_inv_def)
  then show ?thesis using assms(3) Have_Segment
    by (auto simp: quiet_def puller_step_def bind_result_Inr dest!: addSegment_sinks split: if_splits)
qed (use assms(3) in \<open>auto simp: quiet_def puller_step_def split: option.splits if_splits\<close>)

lemma quiet_act:
  assumes "chan_inv env k w0 flushed st" "quiet k st" "a \<noteq> Flush_In" "data_act env p k i a st = Inr st'"
  shows "quiet k st'"
proof (cases a)
  case (Buffer_In b)
  obtain s' r where "rialto_mse_base_sink_chain (env_sample_new env) b (sinks (df_mse st) k) = (s', r)" by fastforce
  with quiet_stream [OF assms(2)] chain_appends_more(1) [OF this] Buffer_In assms(2,4) show ?thesis by (auto split: if_splits)
next
  case Stream_On
  obtain s' r where "chain_resume (env_sample_new env) (sinks (df_mse st) k) = (s', r)" by fastforce
  with quiet_stream [OF assms(2)] chain_appends_more(2) [OF this] Stream_On assms(4) show ?thesis by auto
next
  case Puller_Runs
  with quiet_puller [OF assms(1,2)] assms(4) show ?thesis by blast
qed (use assms(2-4) in \<open>auto simp: quiet_def df_sink_def set_caps_def rialto_mse_base_sink_flush_stop_def post_message_def Let_def
    split: option.splits if_splits\<close>)

lemma no_flush_no_race:
  assumes "keeps_caps env" "list_all data_ok as" "Flush_In \<notin> set as"
  shows "chan_inv env k w0 flushed st \<Longrightarrow> quiet k st \<Longrightarrow> no_race env p k i as st"
  using assms(2,3)
proof (induction as arbitrary: st)
  case (Cons a as)
  have safe: "\<not> races k a st" using Cons.prems(2,4) by (cases a) (auto simp: races_def quiet_def Let_def)
  from chan_act [OF assms(1) Cons.prems(1) _ this, of p i] Cons.prems(3,4) obtain st' where
    st': "data_act env p k i a st = Inr st'" "chan_inv env k w0 flushed st'" by (auto elim: yieldsE)
  have "quiet k st'" using quiet_act [OF Cons.prems(1,2) _ st'(1)] Cons.prems(4) by auto
  with Cons.IH [OF st'(2) this] Cons.prems(3,4) have "no_race env p k i as st'" by simp
  with safe st'(1) show ?case by (simp add: no_race_def)
qed (simp add: no_race_def)

section \<open>Guarantees\<close>

text \<open>
  C6. The path from the pad to the pipeline is a channel, down to the single accesses of the two threads.
  From any state of a running client, whatever the interleaving of the streaming thread, the steps of the
  puller, events and flushes, and whatever the server answers, as long as no flush clears the queue between
  \<open>get_front_sample\<close> and \<open>pop_sample\<close> (\<open>no_race\<close>): nothing faults. The samples queued at the start followed by
  those that \<open>chain\<close> accepted are, up to the protection metadata, those that have left the queue followed by
  those that wait, of which there are at most 24. A subsequence of those that have left, without a flush all of
  them, was taken by the puller, each once and in order, and each has one of three fates. One that cannot be
  mapped is lost without a segment; every other one was offered to the pipeline and not rejected for lack of space, and the
  pipeline has stored it or refused it with an error, which loses it too. The data of the stored segments are
  the bytes of the samples with that fate, in order.
\<close>

theorem samples_stored_once_in_order:
  assumes "run_inv w" "keeps_caps env" "list_all data_ok as" "no_race env p k i as (data_start w)"
  shows "yields (\<lambda>st. \<exists>gone taken.
      map bare (m_samples (sinks w k) @ df_accepted st) = gone @ map bare (waiting k st) \<and> length (waiting k st) \<le> 24 \<and>
      subseq (map fst taken) gone \<and> (Flush_In \<in> set as \<or> map fst taken = gone) \<and>
      list_all (\<lambda>(x, f). f = Unmappable \<longleftrightarrow> \<not> mappable x) taken \<and>
      outcomes (env_pipeline env) (pipeline_log (df_mse st)) = outcomes (env_pipeline env) (pipeline_log w) @ offered taken \<and>
      stored (env_pipeline env) (pipeline_log (df_mse st)) = stored (env_pipeline env) (pipeline_log w) @
        map (\<lambda>(x, f). Some (sample_bytes x)) (filter (\<lambda>(x, f). f = Stored) taken))
    (data_run env p k i as (data_start w))"
proof -
  from chan_run [OF assms(2) chan_start [OF assms(1)] assms(3,4)] show ?thesis
  proof (rule yields_mono)
    fix st assume "chan_inv env k w (False \<or> Flush_In \<in> set as) st"
    then have c: "chan_inv env k w (Flush_In \<in> set as) st" by simp
    then have "sink_ok (sinks (df_mse st) k)" by (auto elim: chan_invE intro: run_inv_caps)
    then have "length (waiting k st) \<le> 24"
      by (auto simp: waiting_def sink_ok_def queue_inv_def MAX_INTERNAL_BUFFERS_QUEUE_SIZE_def split: puller_pc.splits)
    moreover obtain gone taken where g: "run_inv (df_mse st)" "pc_ok (sinks (df_mse st) k) (df_puller st)"
      "map bare (m_samples (sinks w k) @ df_accepted st) = gone @ map bare (waiting k st)"
      "subseq (map fst taken) gone" "Flush_In \<in> set as \<or> map fst taken = gone" "fates_ok taken"
      "outcomes (env_pipeline env) (pipeline_log (df_mse st)) = outcomes (env_pipeline env) (pipeline_log w) @ offered taken"
      by (rule chan_invE [OF c])
    moreover note stored_offered [OF g(7)]
    ultimately show "\<exists>gone taken.
        map bare (m_samples (sinks w k) @ df_accepted st) = gone @ map bare (waiting k st) \<and> length (waiting k st) \<le> 24 \<and>
        subseq (map fst taken) gone \<and> (Flush_In \<in> set as \<or> map fst taken = gone) \<and>
        list_all (\<lambda>(x, f). f = Unmappable \<longleftrightarrow> \<not> mappable x) taken \<and>
        outcomes (env_pipeline env) (pipeline_log (df_mse st)) = outcomes (env_pipeline env) (pipeline_log w) @ offered taken \<and>
        stored (env_pipeline env) (pipeline_log (df_mse st)) = stored (env_pipeline env) (pipeline_log w) @
          map (\<lambda>(x, f). Some (sample_bytes x)) (filter (\<lambda>(x, f). f = Stored) taken)"
      unfolding fates_ok_def by blast
  qed
qed

text \<open>What no step but the puller's own changes, and that none of the others faults.\<close>

lemma df_frames [simp]:
  "df_puller (df_stream k f st) = df_puller st" "df_puller (df_sink k g st) = df_puller st"
  "df_request (df_stream k f st) = df_request st" "df_request (df_sink k g st) = df_request st"
  "df_frames (df_stream k f st) = df_frames st" "df_frames (df_sink k g st) = df_frames st"
  "client_of (df_mse (df_stream k f st)) = client_of (df_mse st)" "client_of (df_mse (df_sink k g st)) = client_of (df_mse st)"
  by (auto simp: df_stream_def df_sink_def stream_into_def split: prod.splits)

lemma others_act:
  assumes "a \<noteq> Puller_Runs"
  shows "\<exists>st'. data_act env p k i a st = Inr st' \<and> client_of (df_mse st') = client_of (df_mse st) \<and>
    (df_puller st \<noteq> Puller_Idle \<longrightarrow> df_request st' = df_request st \<and> df_frames st' = df_frames st \<and>
       (df_puller st' = df_puller st \<or> df_puller st' = free_held (df_puller st)))"
  using assms by (cases a) auto

lemma held_and_freed:
  assumes "list_all (\<lambda>a. a \<noteq> Puller_Runs) as"
    and "df_puller st = Have_Sample Freed n ad \<or> df_puller st = Have_Segment Freed seg n ad"
  shows "\<exists>st'. data_run env p k i as st = Inr st' \<and> client_of (df_mse st') = client_of (df_mse st) \<and> df_puller st' = df_puller st"
proof -
  let ?view = "\<lambda>st. (client_of (df_mse st), df_puller st)"
  have "\<exists>st'. data_act env p k i a st = Inr st' \<and> ?view st' = ?view st"
    if "a \<noteq> Puller_Runs" "snd (?view st) = Have_Sample Freed n ad \<or> snd (?view st) = Have_Segment Freed seg n ad" for a st
    using others_act [OF that(1), of env p k i st] that(2) by auto
  from data_system.run_unseen [OF assms(1), where view = ?view
      and Q = "\<lambda>v. snd v = Have_Sample Freed n ad \<or> snd v = Have_Segment Freed seg n ad", OF this] assms(2)
  show ?thesis by simp
qed

lemma freed_step:
  assumes "pipeline_alive w" "pc = Have_Sample Freed n ad \<or> pc = Have_Segment Freed seg n ad"
  shows "puller_step ora undef p k i req fc (w, pc) = Inl Use_After_Free"
proof -
  from addSegment_alive [OF assms(1), of ora req seg] obtain w' s where "addSegment ora req seg w = Inr (w', s)" by blast
  with assms(2) show ?thesis by (auto simp: puller_step_def)
qed

text \<open>
  C16. A flush frees the sample that the puller works on. When a flush starts while the puller holds a sample
  (from \<open>get_front_sample\<close> on, until it has been added to the pipeline and unmapped), the puller's next step
  uses memory that has been released, whatever the streaming thread, the pad and further flushes do in
  between. Only taking a reference to the sample, or a lock over the whole round, would exclude it.
\<close>

theorem flush_frees_held_sample:
  assumes "run_inv (df_mse st)" "holds_sample (df_puller st)" "\<not> m_isFlushOngoing (sinks (df_mse st) k)"
    "list_all (\<lambda>a. a \<noteq> Puller_Runs) as"
  shows "data_run env p k i (Flush_In # as @ [Puller_Runs]) st = Inl Use_After_Free"
proof -
  let ?st = "df_sink k rialto_mse_base_sink_flush_start (st\<lparr>df_puller := free_held (df_puller st)\<rparr>)"
  from assms(2) obtain n ad seg where pc: "df_puller ?st = Have_Sample Freed n ad \<or> df_puller ?st = Have_Segment Freed seg n ad"
    by (cases "df_puller st") auto
  from held_and_freed [OF assms(4) pc, of env p k i] obtain st' where
    st': "data_run env p k i as ?st = Inr st'" "client_of (df_mse st') = client_of (df_mse ?st)" "df_puller st' = df_puller ?st"
    by blast
  from run_inv_alive [OF assms(1)] st'(2) have "pipeline_alive (df_mse st')"
    by (simp add: pipeline_alive_def pipeline_log_def df_sink_def)
  moreover have "df_puller st' = Have_Sample Freed n ad \<or> df_puller st' = Have_Segment Freed seg n ad"
    using st'(3) pc by simp
  ultimately have "data_act env p k i Puller_Runs st' = Inl Use_After_Free" by (simp add: freed_step)
  with assms(3) st'(1) show ?thesis by (simp add: data_system.run_append del: data_act.simps(9))
qed

text \<open>
  The steps a puller has at most before it, for a request of \<open>n\<close> frames. The counter of the loop has 32 bits, the
  number of frames 64: below \<open>2 ^ 32\<close> frames the counter gets there, and every round but the last takes four steps.
\<close>

fun steps_left :: "u64 \<Rightarrow> puller_pc \<Rightarrow> nat" where
  "steps_left n Puller_Idle = 0"
| "steps_left n (At_Loop fr _) = 4 * (unat n - unat fr) + 2"
| "steps_left n (No_Sample _) = 2"
| "steps_left n (Have_Sample _ fr _) = 4 * (unat n - unat fr) + 1"
| "steps_left n (Have_Segment _ _ fr _) = 4 * (unat n - unat fr)"
| "steps_left n (At_Pop fr _) = 4 * (unat n - unat fr) - 1"
| "steps_left n (At_Report _ _) = 1"

fun in_round :: "u64 \<Rightarrow> puller_pc \<Rightarrow> bool" where
  "in_round n (Have_Sample _ fr _) \<longleftrightarrow> ucast fr < n"
| "in_round n (Have_Segment _ _ fr _) \<longleftrightarrow> ucast fr < n"
| "in_round n (At_Pop fr _) \<longleftrightarrow> ucast fr < n"
| "in_round n _ \<longleftrightarrow> True"

fun answers :: "i32 \<Rightarrow> u32 \<Rightarrow> backend_message \<Rightarrow> bool" where
  "answers i req (Have_Data_Message _ j r) \<longleftrightarrow> j = i \<and> r = req"
| "answers i req _ = False"

definition answer_posted :: "i32 \<Rightarrow> u32 \<Rightarrow> mse \<Rightarrow> bool" where
  "answer_posted i req w \<longleftrightarrow> list_ex (answers i req) (sq_items (m_backendQueue (client_of w)))"

text \<open>The request is answered, or the puller is at it and has at most \<open>m\<close> steps left.\<close>

definition on_the_way :: "i32 \<Rightarrow> u32 \<Rightarrow> u64 \<Rightarrow> nat \<Rightarrow> data_flow \<Rightarrow> bool" where
  "on_the_way i req n m st \<longleftrightarrow> answer_posted i req (df_mse st) \<or>
     df_request st = req \<and> df_frames st = n \<and> df_puller st \<noteq> Puller_Idle \<and> in_round n (df_puller st) \<and>
     steps_left n (df_puller st) \<le> m"

lemma steps_left_free [simp]: "steps_left n (free_held pc) = steps_left n pc" "in_round n (free_held pc) = in_round n pc"
  "free_held pc = Puller_Idle \<longleftrightarrow> pc = Puller_Idle" "Puller_Idle = free_held pc \<longleftrightarrow> pc = Puller_Idle"
  by (cases pc; simp)+

lemma round_left: "ucast (fr :: u32) < (n :: u64) \<Longrightarrow> unat fr < unat n"
  by (simp add: word_less_nat_alt unat_wide)

lemma steps_left_pos: "in_round n pc \<Longrightarrow> pc \<noteq> Puller_Idle \<Longrightarrow> 0 < steps_left n pc"
  by (cases pc) (auto dest!: round_left)

lemma addSegment_client:
  "addSegment ora req seg w = Inr (w', s) \<Longrightarrow> m_backendQueue (client_of w') = m_backendQueue (client_of w)"
  by (auto simp: addSegment_def backend_do_def bind_result_Inr split: option.splits)

lemma way_others: "a \<noteq> Puller_Runs \<Longrightarrow> data_act env p k i a st = Inr st' \<Longrightarrow> on_the_way i req n m st \<Longrightarrow> on_the_way i req n m st'"
  using others_act [of a env p k i st] by (auto simp: on_the_way_def answer_posted_def simp del: data_act.simps)

lemma way_puller:
  assumes "sq_running (m_backendQueue (client_of (df_mse st)))" "on_the_way i req n (Suc m) st" "unat n < 2 ^ 32"
    "data_act env p k i Puller_Runs st = Inr st'"
  shows "on_the_way i req n m st'"
proof (cases "df_puller st")
  case (At_Loop fr ad)
  with assms round_left [of fr n] show ?thesis
    by (auto simp: on_the_way_def answer_posted_def puller_step_def split: option.splits if_splits)
next
  case (Have_Sample r fr ad)
  with assms show ?thesis
    by (auto simp: on_the_way_def answer_posted_def puller_step_def bind_result_Inr split: sample_ref.splits list.splits if_splits)
next
  case (Have_Segment r seg fr ad)
  with assms show ?thesis
    using round_left [of fr n]
    by (auto simp: on_the_way_def answer_posted_def puller_step_def bind_result_Inr addSegment_client split: if_splits)
next
  case (At_Pop fr ad)
  have "unat (n :: u64) - unat (fr + 1) = unat n - Suc (unat fr)" if "ucast fr < n"
  proof -
    from round_left [OF that] assms(3) have "unat fr < 2 ^ 32 - 1" by simp
    from frame_next(1) [OF that this] show ?thesis by simp
  qed
  with At_Pop assms round_left [of fr n] show ?thesis
    by (auto simp: on_the_way_def answer_posted_def puller_step_def)
next
  case (At_Report e ad)
  with assms show ?thesis
    by (auto simp: on_the_way_def answer_posted_def puller_step_def post_backend_def sq_post_def)
qed (use assms in \<open>auto simp: on_the_way_def answer_posted_def puller_step_def\<close>)

text \<open>No step stops the client, also when a flush has freed the sample that the puller holds.\<close>

lemma run_inv_stream: "run_inv (df_mse st) \<Longrightarrow> sink_ok (fst (f (sinks (df_mse st) k))) \<Longrightarrow> run_inv (df_mse (df_stream k f st))"
  by (auto simp: df_stream_def stream_into_def split: prod.splits intro!: run_inv_upd_sink)

lemma act_keeps_running:
  assumes "keeps_caps env" "run_inv (df_mse st)" "data_ok a" "data_act env p k i a st = Inr st'"
  shows "run_inv (df_mse st')"
proof (cases a)
  case (Buffer_In b)
  have "sink_ok (fst (rialto_mse_base_sink_chain (env_sample_new env) b (sinks (df_mse st) k)))"
    if "chain_thread (sinks (df_mse st) k) = Chain_Idle" "m_caps (sinks (df_mse st) k) \<noteq> None"
    using sink_ok_chain [OF run_inv_caps [OF assms(2)] that assms(1), of b] by simp
  with assms(2,4) Buffer_In show ?thesis by (auto intro: run_inv_stream split: if_splits)
next
  case Stream_On
  with assms(2,4) sink_ok_resume [OF run_inv_caps [OF assms(2)] assms(1)] show ?thesis by (auto intro: run_inv_stream)
next
  case (Caps_In caps)
  with assms(2-4) sink_ok_set_caps [of _ caps env] run_inv_caps [OF assms(2)] show ?thesis
    by (auto simp: df_sink_def intro!: run_inv_upd_sink)
next
  case Flush_In
  with assms(2,4) show ?thesis by (auto simp: df_sink_def intro!: run_inv_upd_sink sink_ok_queue(1) run_inv_caps)
next
  case (Flush_Out r)
  with assms(2,4) show ?thesis by (auto simp: df_sink_def intro!: run_inv_upd_sink sink_ok_queue(2) run_inv_caps)
next
  case Puller_Runs
  have add: "run_inv w'" if "addSegment ora req seg w = Inr (w', s)" "run_inv w" for ora req seg w w' s
    using run_inv_ok_from [OF that(2) addSegment_ok [OF run_inv_good [OF that(2)]], of ora req seg] that(1) by simp
  show ?thesis
    using assms(2,4) Puller_Runs
    by (cases "df_puller st")
      (auto simp: puller_step_def bind_result_Inr
        intro: add intro!: run_inv_upd_sink sink_ok_set_front sink_ok_pop run_inv_caps run_inv_post
        split: option.splits if_splits sample_ref.splits list.splits)
qed (use assms in \<open>auto simp: df_sink_def intro!: run_inv_upd_sink run_inv_caps split: if_splits\<close>)

lemma way_run:
  assumes "keeps_caps env" "unat n < 2 ^ 32"
  shows "run_inv (df_mse st) \<Longrightarrow> list_all data_ok as \<Longrightarrow> on_the_way i req n m st \<Longrightarrow>
    data_run env p k i as st = Inr st' \<Longrightarrow> on_the_way i req n (m - count_list as Puller_Runs) st'"
proof (induction as arbitrary: st m)
  case (Cons a as)
  from Cons.prems(4) obtain st1 where st1: "data_act env p k i a st = Inr st1" "data_run env p k i as st1 = Inr st'"
    by (auto simp: bind_result_Inr simp del: data_act.simps)
  have run: "run_inv (df_mse st1)" using act_keeps_running [OF assms(1) Cons.prems(1) _ st1(1)] Cons.prems(2) by simp
  have ok: "list_all data_ok as" using Cons.prems(2) by simp
  show ?case
  proof (cases "a = Puller_Runs")
    case True
    have "sq_running (m_backendQueue (client_of (df_mse st)))" using Cons.prems(1) by (simp add: run_inv_def)
    moreover have "on_the_way i req n (Suc (m - 1)) st" using Cons.prems(3) by (auto simp: on_the_way_def)
    ultimately have "on_the_way i req n (m - 1) st1" using way_puller assms(2) st1(1) True by blast
    from Cons.IH [OF run ok this st1(2)] True show ?thesis by simp
  next
    case False
    from Cons.IH [OF run ok way_others [OF False st1(1) Cons.prems(3)] st1(2)] False show ?thesis by simp
  qed
qed simp

text \<open>
  C17. A request for \<open>n\<close> frames, fewer than \<open>2 ^ 32\<close>, is answered to the client's event loop after at most
  \<open>4 * n + 2\<close> of the puller's own steps, whatever the streaming thread, the pad, flushes and the answers of the
  server do in between. The only other way such a run can end is the fault of a flush that hits the sample the puller holds (\<open>no_race\<close>).
\<close>

theorem request_answered_in_time:
  assumes "run_inv w" "keeps_caps env" "list_all data_ok as" "unat n < 2 ^ 32"
    "4 * unat n + 2 \<le> count_list as Puller_Runs"
  shows "case data_run env p k i (Request_In n req # as) (data_start w) of
      Inl _ \<Rightarrow> \<not> no_race env p k i (Request_In n req # as) (data_start w)
    | Inr st \<Rightarrow> answer_posted i req (df_mse st)"
proof -
  let ?st = "(data_start w)\<lparr>df_puller := At_Loop 0 0, df_request := req, df_frames := n\<rparr>"
  have run: "data_run env p k i (Request_In n req # as) (data_start w) = data_run env p k i as ?st"
    by (simp add: data_start_def)
  have way: "on_the_way i req n (4 * unat n + 2) ?st" by (simp add: on_the_way_def)
  have inv: "run_inv (df_mse ?st)" using assms(1) by (simp add: data_start_def)
  show ?thesis
  proof (cases "data_run env p k i as ?st")
    case (Inl e)
    have "list_all data_ok (Request_In n req # as)" using assms(3) by simp
    note chan_run [OF assms(2) chan_start [OF assms(1)] this, where p = p and i = i and k = k]
    with Inl run show ?thesis by (auto simp del: data_run.simps)
  next
    case (Inr st)
    from way_run [OF assms(2,4) inv assms(3) way Inr] assms(5) have "on_the_way i req n 0 st" by simp
    with steps_left_pos have "answer_posted i req (df_mse st)" by (fastforce simp: on_the_way_def)
    with Inr run show ?thesis by (simp del: data_run.simps)
  qed
qed

text \<open>With \<open>2 ^ 32\<close> frames or more the counter wraps and never ends the loop: only the queue or the server does.\<close>

lemma counter_never_ends: "2 ^ 32 \<le> n \<Longrightarrow> ucast (fr :: u32) < (n :: u64)"
proof -
  assume "2 ^ 32 \<le> n"
  then have "unat (2 ^ 32 :: u64) \<le> unat n" by (simp only: word_le_nat_alt)
  moreover have "unat fr < 2 ^ 32" using unsigned_less [of fr] by simp
  ultimately show ?thesis by (simp add: word_less_nat_alt unat_wide)
qed

text \<open>
  C18. The end of the stream is reported only when nothing is left. When the puller, after a run
  without a flush, decides to report EOS, the pad has received EOS, and every sample that was queued at the
  start or accepted since has been taken off the queue by the puller, in order: it was offered to the pipeline, which has stored it or
  refused it with an error, or it could not be mapped. So if all of them could be mapped and the pipeline has
  refused none, the segments stored since the start carry the bytes of all of them, in order.
\<close>

theorem eos_reported_when_all_stored:
  assumes "run_inv w" "keeps_caps env" "list_all data_ok as" "Flush_In \<notin> set as"
    "data_run env p k i as (data_start w) = Inr st" "df_puller st = No_Sample ad"
    "data_act env p k i Puller_Runs st = Inr st'" "df_puller st' = At_Report True ad"
  shows "m_isEos (sinks (df_mse st) k) \<and>
    (let ora = env_pipeline env; all = m_samples (sinks w k) @ df_accepted st' in
     (\<exists>taken. map fst taken = map bare all \<and> list_all (\<lambda>(x, f). f = Unmappable \<longleftrightarrow> \<not> mappable x) taken \<and>
        outcomes ora (pipeline_log (df_mse st')) = outcomes ora (pipeline_log w) @ offered taken) \<and>
     (list_all mappable all \<and> list_all (\<lambda>(d, f). f \<noteq> Refused) (outcomes ora (pipeline_log (df_mse st'))) \<longrightarrow>
        stored ora (pipeline_log (df_mse st')) = stored ora (pipeline_log w) @ map (\<lambda>x. Some (sample_bytes x)) all))"
proof -
  from assms(6-8) have st': "df_mse st' = df_mse st" "df_accepted st' = df_accepted st"
    "m_isEos (sinks (df_mse st) k)" "m_samples (sinks (df_mse st) k) = []"
    by (auto simp: puller_step_def rialto_mse_base_sink_is_eos_def)
  have "quiet k (data_start w)" by (simp add: quiet_def data_start_def)
  note race = no_flush_no_race [OF assms(2-4) chan_start [OF assms(1)] this, where p = p and i = i]
  let ?all = "m_samples (sinks w k) @ df_accepted st" and ?ora = "env_pipeline env"
  from chan_run [OF assms(2) chan_start [OF assms(1)] assms(3) race] assms(4,5) have "chan_inv env k w False st" by simp
  then obtain gone taken where c: "map bare ?all = gone @ map bare (waiting k st)" "map fst taken = gone" "fates_ok taken"
    "outcomes ?ora (pipeline_log (df_mse st)) = outcomes ?ora (pipeline_log w) @ offered taken"
    by (auto elim: chan_invE)
  have "waiting k st = []" using st'(4) assms(6) by (simp add: waiting_def)
  with c have all: "map fst taken = map bare ?all" by simp
  have "stored ?ora (pipeline_log (df_mse st)) = stored ?ora (pipeline_log w) @ map (\<lambda>x. Some (sample_bytes x)) ?all"
    if m: "list_all mappable ?all" and r: "list_all (\<lambda>(d, f). f \<noteq> Refused) (outcomes ?ora (pipeline_log (df_mse st)))"
  proof -
    have "mappable x" if "(x, f) \<in> set taken" for x f
    proof -
      have "x \<in> set (map fst taken)" using that by force
      with all m show ?thesis by (auto simp: list_all_iff)
    qed
    with c(3) have u: "(x, f) \<in> set taken \<Longrightarrow> f \<noteq> Unmappable" for x f by (auto simp: fates_ok_def list_all_iff)
    have "f \<noteq> Refused" if "(x, f) \<in> set taken" for x f
    proof -
      have "(Some (sample_bytes x), f) \<in> set (offered taken)" using that u [OF that] by (force simp: offered_def)
      with r c(4) show ?thesis by (auto simp: list_all_iff)
    qed
    with u have s: "(x, f) \<in> set taken \<Longrightarrow> f = Stored" for x f by (cases f) auto
    then have "filter (\<lambda>(x, f). f = Stored) taken = taken" by (auto simp: filter_id_conv)
    then have "stored ?ora (pipeline_log (df_mse st)) = stored ?ora (pipeline_log w) @ map (\<lambda>x. Some (sample_bytes x)) (map fst taken)"
      using stored_offered [OF c(4)] by (simp add: split_beta comp_def)
    then show ?thesis unfolding all by (simp add: comp_def)
  qed
  then show ?thesis using st' all c(3,4) unfolding Let_def fates_ok_def by auto
qed

section \<open>Runs\<close>

text \<open>
  A server that has no space the first time, a puller that is flushed while it waits to pop, and a second
  request that meets the end of the stream.
\<close>

definition moody_pipeline :: pipeline where
  "moody_pipeline log c = (yes_pipeline log c)\<lparr>ans_status := if length log = 2 then ADD_NO_SPACE else ADD_OK\<rparr>"

definition moody_env :: environment where
  "moody_env = example_env\<lparr>env_pipeline := moody_pipeline\<rparr>"

definition moody_start :: data_flow where
  "moody_start = data_start (started 0 0 loaded_sinks)"

definition flushed_pull :: "data_action list" where
  "flushed_pull = [Caps_In (empty_structure ''audio/mpeg''), Request_In 1 7] @ replicate 4 Puller_Runs @
     [Buffer_In (sample_buffer example_sample), Request_In 2 8] @ replicate 3 Puller_Runs @
     [Flush_In, Puller_Runs, Flush_Out True, Buffer_In (sample_buffer example_sample)] @ replicate 6 Puller_Runs"

lemma moody_facts: "keeps_caps moody_env" "run_inv (started 0 0 loaded_sinks)"
  using preroll_ok(2) run_inv_started [OF loaded_sinks_ok] by (simp_all add: moody_env_def example_setup_def keeps_caps_def)

lemma flushed_pull_facts:
  "list_all data_ok flushed_pull" "no_race moody_env Audio_Parser 0 1 flushed_pull moody_start"
  "yields (\<lambda>st. length (df_accepted st) = 2 \<and> length (stored moody_pipeline (pipeline_log (df_mse st))) = 2 \<and>
     answer_posted 1 8 (df_mse st) \<and> df_puller st = Puller_Idle)
   (data_run moody_env Audio_Parser 0 1 flushed_pull moody_start)"
  by code_simp+

lemma started_log: "outcomes ora (pipeline_log (started 0 0 loaded_sinks)) = []" "stored ora (pipeline_log (started 0 0 loaded_sinks)) = []"
  by (simp_all add: stored_def outcomes_def outcome_one_def started_def pipeline_log_def new_client_def Let_def upt_rec)

theorem samples_stored_once_in_order_witness:
  "yields (\<lambda>st. \<exists>gone taken. map bare (example_sample # df_accepted st) = gone @ map bare (waiting 0 st) \<and> subseq (map fst taken) gone \<and>
      stored moody_pipeline (pipeline_log (df_mse st)) = map (\<lambda>(x, f). Some (sample_bytes x)) (filter (\<lambda>(x, f). f = Stored) taken))
    (data_run moody_env Audio_Parser 0 1 flushed_pull moody_start)"
  unfolding moody_start_def
  by (rule yields_mono [OF samples_stored_once_in_order [OF moody_facts(2,1) flushed_pull_facts(1) flushed_pull_facts(2) [unfolded moody_start_def]]])
    (auto simp: moody_env_def started_facts loaded_sinks_facts started_log)

definition held_flow :: data_flow where
  "held_flow = moody_start\<lparr>df_puller := Have_Sample In_Queue 0 0, df_request := 7, df_frames := 1\<rparr>"

lemma held_flow_reached: "data_run moody_env Audio_Parser 0 1 [Request_In 1 7, Puller_Runs] moody_start = Inr held_flow"
  by (simp add: moody_start_def held_flow_def data_start_def puller_step_def rialto_mse_base_sink_get_front_sample_def
      started_facts loaded_sinks_facts)

theorem flush_frees_held_sample_witness:
  "data_run moody_env Audio_Parser 0 1 [Flush_In, Stream_On, Puller_Runs] held_flow = Inl Use_After_Free"
proof -
  have "df_mse held_flow = started 0 0 loaded_sinks" by (simp add: held_flow_def moody_start_def data_start_def)
  moreover have "\<not> m_isFlushOngoing (loaded_sinks 0)"
    by (simp add: loaded_sinks_def example_sink_def rialto_mse_base_sink_init_def new_private_def)
  ultimately show ?thesis
    using flush_frees_held_sample [of held_flow 0 "[Stream_On]" moody_env Audio_Parser 1] moody_facts(2)
    by (simp add: held_flow_def started_facts)
qed

definition answered_pull :: "data_action list" where
  "answered_pull = [Puller_Runs, Buffer_In (sample_buffer example_sample), Puller_Runs, Eos_In] @ replicate 4 Puller_Runs"

lemma answered_pull_facts:
  "list_all data_ok answered_pull" "no_race moody_env Audio_Parser 0 1 (Request_In 1 7 # answered_pull) moody_start"
  by code_simp+

theorem request_answered_in_time_witness:
  "yields (\<lambda>st. answer_posted 1 7 (df_mse st)) (data_run moody_env Audio_Parser 0 1 (Request_In 1 7 # answered_pull) moody_start)"
proof -
  have c: "4 * unat (1 :: u64) + 2 \<le> count_list answered_pull Puller_Runs" by (simp add: answered_pull_def numeral_eq_Suc)
  have n: "unat (1 :: u64) < 2 ^ 32" by simp
  note request_answered_in_time [OF moody_facts(2,1) answered_pull_facts(1) n c, of Audio_Parser 0 1 7]
  with answered_pull_facts(2) show ?thesis
    by (auto simp: moody_start_def simp del: data_run.simps split: sum.splits)
qed

definition drained_pull :: "data_action list" where
  "drained_pull = [Eos_In, Request_In 2 7] @ replicate 5 Puller_Runs"

lemma drained_pull_facts:
  "list_all data_ok drained_pull"
  "yields (\<lambda>st. df_puller st = No_Sample 1 \<and>
     yields (\<lambda>st'. df_puller st' = At_Report True 1 \<and> df_accepted st' = [] \<and>
         map snd (outcomes numbering_pipeline (pipeline_log (df_mse st'))) = [Stored])
       (data_act example_env Audio_Parser 0 1 Puller_Runs st))
   (data_run example_env Audio_Parser 0 1 drained_pull moody_start)"
  by code_simp+

theorem eos_reported_when_all_stored_witness:
  "\<exists>st st'. data_run example_env Audio_Parser 0 1 drained_pull moody_start = Inr st \<and>
     data_act example_env Audio_Parser 0 1 Puller_Runs st = Inr st' \<and> df_puller st' = At_Report True 1 \<and>
     stored numbering_pipeline (pipeline_log (df_mse st')) = [Some (sample_bytes example_sample)]"
proof -
  from drained_pull_facts(2) obtain st st' where st: "data_run example_env Audio_Parser 0 1 drained_pull moody_start = Inr st"
    "df_puller st = No_Sample 1" "data_act example_env Audio_Parser 0 1 Puller_Runs st = Inr st'" "df_puller st' = At_Report True 1"
    and out: "df_accepted st' = []" "map snd (outcomes numbering_pipeline (pipeline_log (df_mse st'))) = [Stored]"
    by (auto elim!: yieldsE)
  have no_flush: "Flush_In \<notin> set drained_pull" by (simp add: drained_pull_def)
  have caps: "keeps_caps example_env" using preroll_ok(2) by (simp add: example_setup_def)
  have env: "env_pipeline example_env = numbering_pipeline" by (simp add: example_env_def)
  have "list_all (\<lambda>(d, f). f \<noteq> Refused) (outcomes numbering_pipeline (pipeline_log (df_mse st')))"
    using out(2) by (auto simp: list_all_iff dest: arg_cong [of _ _ set])
  moreover have "mappable example_sample" by (simp add: mappable_def loaded_sinks_facts)
  moreover note eos_reported_when_all_stored [OF moody_facts(2) caps drained_pull_facts(1) no_flush st(1) [unfolded moody_start_def] st(2-4),
      unfolded Let_def env started_facts loaded_sinks_facts started_log out(1), THEN conjunct2, THEN conjunct2, THEN mp]
  ultimately show ?thesis using st by simp
qed

end
