(* ===== verification/Seek_Protocol.thy ===== *)
theory Seek_Protocol
  imports Mse_Client
begin

text \<open>
  The seeks of a client as a protocol between the sinks and the server. The protocol is a small machine
  over the seeking state of the server and of each source; the client refines it, whatever else its
  threads do. What the machine guarantees then holds of every run of the client: a seek ends when every
  source has started it and the server has flushed, in any order; a failure of the server in between
  leaves the sources that had started behind.
\<close>

section \<open>The protocol\<close>

record seek_protocol =
  sp_server :: seeking_state
  sp_sources :: "(i32 \<times> seeking_state) list"

datatype seek_signal =
  Source_Started i32    \<comment> \<open>a source has been flushed and has its puller stopped\<close>
| Position_Set          \<comment> \<open>the server is asked to seek\<close>
| Server_Flushed
| Server_Failed
| Source_Attached i32
| Source_Removed i32

definition seek_finish :: "seek_protocol \<Rightarrow> seek_protocol" where
  "seek_finish sp =
     (if sp_server sp = SEEK_DONE \<and> list_all (\<lambda>(i, st). st = SEEKING) (sp_sources sp)
      then \<lparr>sp_server = IDLE, sp_sources = assoc_map (\<lambda>_. IDLE) (sp_sources sp)\<rparr> else sp)"

fun seek_act :: "seek_signal \<Rightarrow> seek_protocol \<Rightarrow> seek_protocol" where
  "seek_act (Source_Started i) sp = seek_finish (sp\<lparr>sp_sources := assoc_modify i (\<lambda>_. SEEKING) (sp_sources sp)\<rparr>)"
| "seek_act Position_Set sp = sp\<lparr>sp_server := SEEKING\<rparr>"
| "seek_act Server_Flushed sp = (if sp_server sp = SEEKING then seek_finish (sp\<lparr>sp_server := SEEK_DONE\<rparr>) else sp)"
| "seek_act Server_Failed sp = sp\<lparr>sp_server := IDLE\<rparr>"
| "seek_act (Source_Attached i) sp = sp\<lparr>sp_sources := assoc_emplace i IDLE (sp_sources sp)\<rparr>"
| "seek_act (Source_Removed i) sp = sp\<lparr>sp_sources := assoc_erase i (sp_sources sp)\<rparr>"

text \<open>The protocol's view of a client.\<close>

definition seek_view :: "mse \<Rightarrow> seek_protocol" where
  "seek_view w = \<lparr>sp_server = m_serverSeekingState (client_of w),
     sp_sources = assoc_map as_seekingState (m_attachedSources (client_of w))\<rparr>"

text \<open>The signal that an event of the client amounts to, if any.\<close>

fun message_signals :: "backend_message \<Rightarrow> seek_signal list" where
  "message_signals (Playback_State_Message PS_FLUSHED) = [Server_Flushed]"
| "message_signals (Playback_State_Message PS_FAILURE) = [Server_Failed]"
| "message_signals _ = []"

fun seek_signals :: "pipeline \<Rightarrow> client_event \<Rightarrow> mse \<Rightarrow> seek_signal list" where
  "seek_signals ora Worker_Turn w = (case sq_take (m_backendQueue (client_of w)) of
     None \<Rightarrow> [] | Some (m, _) \<Rightarrow> message_signals m)"
| "seek_signals ora (Started_Seeking i) w = (if map_of (m_attachedSources (client_of w)) i = None then [] else [Source_Started i])"
| "seek_signals ora (Seek_To p) w = [Position_Set]"
| "seek_signals ora (Attach src k) w =
     (if getType src = TYPE_AUDIO \<or> getType src = TYPE_VIDEO
      then let a = ora (pipeline_log w) (Attach_Source src) in if ans_ok a then [Source_Attached (ans_id a)] else []
      else [])"
| "seek_signals ora (Remove i) w = [Source_Removed i]"
| "seek_signals ora _ w = []"

section \<open>The client refines the protocol\<close>

lemma seek_view_client: "client_of w' = client_of w \<Longrightarrow> seek_view w' = seek_view w"
  by (simp add: seek_view_def)

lemma seek_view_frame: "frame w w' \<Longrightarrow> seek_view w' = seek_view w"
  by (simp add: seek_view_def frameD)

lemma seek_view_quiet [simp]:
  "seek_view (upd_sink k f w) = seek_view w" "seek_view (for_sinks f w) = seek_view w" "seek_view (post_backend m w) = seek_view w"
  by (simp_all add: seek_view_def post_backend_def)

lemma seek_view_upd:
  "(\<And>cl. m_serverSeekingState (f cl) = m_serverSeekingState cl) \<Longrightarrow> (\<And>cl. m_attachedSources (f cl) = m_attachedSources cl) \<Longrightarrow>
   seek_view (upd_client f w) = seek_view w"
  by (simp add: seek_view_def)

lemma assoc_map_modify: "(\<And>a. g (f a) = h (g a)) \<Longrightarrow> assoc_map g (assoc_modify i f xs) = assoc_modify i h (assoc_map g xs)"
  by (simp add: assoc_map_def assoc_modify_def split_beta)

lemma assoc_map_modify_same: "(\<And>a. g (f a) = g a) \<Longrightarrow> assoc_map g (assoc_modify i f xs) = assoc_map g xs"
  by (simp add: assoc_map_def assoc_modify_def split_beta)

lemma assoc_map_erase: "assoc_map g (assoc_erase i xs) = assoc_erase i (assoc_map g xs)"
  by (induction xs) (auto simp: assoc_map_def assoc_erase_def)

lemma assoc_map_emplace: "assoc_map g (assoc_emplace i a xs) = assoc_emplace i (g a) (assoc_map g xs)"
  by (simp add: assoc_emplace_def map_of_assoc_map split: option.split) (simp add: assoc_map_def)

lemma seek_view_set_puller_queue [simp]: "seek_view (set_puller_queue i q w) = seek_view w"
  by (simp add: seek_view_def set_puller_queue_def assoc_map_modify_same)

lemma seek_view_start: "seek_view (upd_client startPullingDataIfSeekFinished w) = seek_finish (seek_view w)"
  by (auto simp: seek_view_def seek_finish_def startPullingDataIfSeekFinished_def assoc_map_def start_puller_def
      list_all_iff list_ex_iff split_beta)

lemma seek_view_playback:
  "seek_view (handlePlaybackStateChange st w) = fold seek_act (message_signals (Playback_State_Message st)) (seek_view w)"
proof (cases st)
  case PS_FLUSHED
  show ?thesis
  proof (cases "m_serverSeekingState (client_of w) = SEEKING")
    case True
    have "seek_view (upd_client startPullingDataIfSeekFinished (upd_client (\<lambda>cl. cl\<lparr>m_serverSeekingState := SEEK_DONE\<rparr>) w)) =
        seek_finish ((seek_view w)\<lparr>sp_server := SEEK_DONE\<rparr>)"
      by (simp add: seek_view_start) (simp add: seek_view_def)
    with True PS_FLUSHED show ?thesis by (simp add: handlePlaybackStateChange_def) (simp add: seek_view_def)
  qed (simp add: PS_FLUSHED handlePlaybackStateChange_def seek_view_def)
qed (simp_all add: handlePlaybackStateChange_def Let_def seek_view_def)

lemma seek_view_stop_puller:
  assumes "good w" "distinct (map fst (sources_of w))" "BufferPuller_stop ora undef i w = Inr w'"
  shows "seek_view w' = seek_view w"
proof -
  obtain w1 where w1: "frame w w1" "w' = upd_client
      (\<lambda>cl. cl\<lparr>m_attachedSources := assoc_modify i halt_source (m_attachedSources cl)\<rparr>) w1"
    using BufferPuller_stop_ok [OF assms(1,2), of ora undef i] assms(3) by auto
  have "seek_view w' = seek_view w1"
    unfolding w1(2) by (simp add: seek_view_def assoc_map_modify_same halt_source_def)
  with seek_view_frame [OF w1(1)] show ?thesis by simp
qed

lemma seek_view_backend: "backend_do ora c w = Inr (w', a) \<Longrightarrow> seek_view w' = seek_view w"
  by (auto simp: backend_do_def bind_result_Inr seek_view_def split: option.splits)

lemma seek_view_puller_queue: "seek_view (fst (requestPullBuffer i n req w)) = seek_view w"
  by (simp add: requestPullBuffer_def Let_def split: option.split prod.split)

lemma seek_view_need_data: "seek_view (NeedDataMessage_handle i n req w) = seek_view w"
  using seek_view_puller_queue [of i n req w]
  by (cases "requestPullBuffer i n req w") (simp add: NeedDataMessage_handle_def)

lemma seek_view_message:
  assumes "handle_backend_message ora m w = Inr w'"
  shows "seek_view w' = fold seek_act (message_signals m) (seek_view w)"
  using assms
proof (cases m)
  case (Playback_State_Message st)
  with assms show ?thesis using seek_view_playback [of st w] by simp
qed (auto simp: HaveDataMessage_handle_def handleQos_def handleBufferUnderflow_def seek_view_need_data bind_result_Inr
    seek_view_backend seek_view_upd split: option.splits)

lemma callE:
  assumes "drop_value (callInEventLoop d body w) = Inr w'" "run_inv w"
  obtains x where "body w = Inr (w', x)"
  using assms by (auto simp: drop_value_def callInEventLoop_def run_inv_def bind_result_Inr)

lemma seek_view_started:
  assumes "run_inv w" "notifySourceStartedSeeking_body ora undef i w = Inr w'" "map_of (sources_of w) i \<noteq> None"
  shows "seek_view w' = seek_act (Source_Started i) (seek_view w)"
proof -
  let ?w = "upd_client (set_seeking i) w"
  have g: "good ?w" "distinct (map fst (sources_of ?w))"
    using assms(1) by (auto simp: run_inv_def good_def backend_ok_def set_seeking_def)
  from assms(2,3) obtain w1 where w1: "BufferPuller_stop ora undef i ?w = Inr w1" "w' = upd_client startPullingDataIfSeekFinished w1"
    by (auto simp: notifySourceStartedSeeking_body_def bind_result_Inr)
  have "seek_view ?w = (seek_view w)\<lparr>sp_sources := assoc_modify i (\<lambda>_. SEEKING) (sp_sources (seek_view w))\<rparr>"
    by (simp add: seek_view_def set_seeking_def assoc_map_modify [of _ _ "\<lambda>_. SEEKING"])
  with seek_view_stop_puller [OF g w1(1)] show ?thesis by (simp add: w1(2) seek_view_start)
qed

lemma backend_do_answer: "run_inv w \<Longrightarrow> backend_do ora c w = Inr (w', a) \<Longrightarrow> a = ora (pipeline_log w) c"
  using run_inv_alive [of w] by (auto simp: pipeline_alive_def backend_do_def forward_def)

lemma seek_view_attach_new:
  "seek_view (attach_new t i k w) = (seek_view w)\<lparr>sp_sources := assoc_emplace i IDLE (sp_sources (seek_view w))\<rparr>"
proof (cases "map_of (sources_of w) i")
  case None
  then show ?thesis
    by (simp add: attach_new_def Let_def) (simp add: seek_view_def assoc_map_emplace start_puller_def)
next
  case (Some a)
  then have "assoc_emplace i IDLE (assoc_map as_seekingState (sources_of w)) = assoc_map as_seekingState (sources_of w)"
    by (simp add: assoc_emplace_def map_of_assoc_map)
  with Some show ?thesis by (simp add: attach_new_def seek_view_def)
qed

lemma seek_view_attach:
  assumes "run_inv w" "drop_value (attachSource ora src k w) = Inr w'"
  shows "seek_view w' = fold seek_act (seek_signals ora (Attach src k) w) (seek_view w)"
proof (cases "getType src = TYPE_AUDIO \<or> getType src = TYPE_VIDEO")
  case False
  with assms(2) show ?thesis by (simp add: attachSource_def drop_value_def)
next
  case True
  have send: "send_allSourcesAttached ora v = Inr v' \<Longrightarrow> seek_view v' = seek_view v" for v v'
    by (auto simp: send_allSourcesAttached_def bind_result_Inr seek_view_backend seek_view_upd split: if_splits)
  from True assms obtain w1 a where w1: "backend_do ora (Attach_Source src) w = Inr (w1, a)"
    "send_allSourcesAttached ora (if ans_ok a then attach_new (getType src) (ans_id a) k w1 else w1) = Inr w'"
    by (auto simp: attachSource_def bind_result_Inr elim!: callE)
  from send [OF w1(2)] seek_view_backend [OF w1(1)] backend_do_answer [OF assms(1) w1(1)] True
  show ?thesis by (simp add: seek_view_attach_new Let_def)
qed

lemma seek_view_remove:
  assumes "run_inv w" "drop_value (removeSource ora undef i w) = Inr w'"
  shows "seek_view w' = seek_act (Source_Removed i) (seek_view w)"
proof -
  from assms obtain w1 a w2 where w: "backend_do ora (Remove_Source i) w = Inr (w1, a)" "BufferPuller_stop ora undef i w1 = Inr w2"
    "w' = upd_client (\<lambda>cl. cl\<lparr>m_attachedSources := assoc_erase i (m_attachedSources cl)\<rparr>) w2"
    by (auto simp: removeSource_def bind_result_Inr elim!: callE)
  have "run_inv w1" using run_inv_backend_do [OF assms(1), of "Remove_Source i" ora] w(1) by simp
  then have "seek_view w2 = seek_view w1"
    by (intro seek_view_stop_puller [OF _ _ w(2)]) (simp_all add: run_inv_def)
  with seek_view_backend [OF w(1)] have "seek_view w2 = seek_view w" by simp
  moreover have "seek_view w' = (seek_view w2)\<lparr>sp_sources := assoc_erase i (sp_sources (seek_view w2))\<rparr>"
    by (simp add: w(3) seek_view_def assoc_map_erase)
  ultimately show ?thesis by simp
qed

lemma good_queues [simp]: "good (set_puller_queue i q w) = good w"
  by (simp add: good_def set_puller_queue_def backend_ok_def)

lemma seek_view_puller_turn:
  assumes "run_inv w" "turn (puller_turn ora undef i w) w = Inr w'"
  shows "seek_view w' = seek_view w"
proof (cases "map_of (sources_of w) i")
  case (Some a)
  show ?thesis
  proof (cases "sq_take (bp_queue (as_bufferPuller a))")
    case Some2: (Some mq)
    obtain m q where "mq = (m, q)" by (cases mq)
    with assms(2) Some Some2 have "PullBufferMessage_handle ora undef (bp_sink (as_bufferPuller a)) (bp_parser (as_bufferPuller a)) m
        (set_puller_queue i q w) = Inr w'" by (simp add: turn_def puller_turn_def)
    moreover have "good (set_puller_queue i q w)" using run_inv_good [OF assms(1)] by simp
    ultimately have "frame (set_puller_queue i q w) w'" using PullBufferMessage_handle_ok by (metis ok_from_simps(1))
    from seek_view_frame [OF this] show ?thesis by simp
  qed (use assms Some in \<open>simp add: turn_def puller_turn_def\<close>)
qed (use assms in \<open>simp add: turn_def puller_turn_def\<close>)

lemma seek_view_worker_turn:
  assumes "turn (worker_turn ora w) w = Inr w'"
  shows "seek_view w' = fold seek_act (seek_signals ora Worker_Turn w) (seek_view w)"
proof (cases "sq_take (m_backendQueue (client_of w))")
  case (Some mq)
  obtain m q where "mq = (m, q)" by (cases mq)
  with Some assms seek_view_message [of ora m "upd_client (\<lambda>cl. cl\<lparr>m_backendQueue := q\<rparr>) w" w'] show ?thesis
    by (simp add: turn_def worker_turn_def seek_view_upd)
qed (use assms in \<open>simp add: turn_def worker_turn_def\<close>)

lemma seek_view_infos:
  assumes "run_inv w"
  shows "drop_value (setAudioStreamsInfo n b w) = Inr w' \<Longrightarrow> seek_view w' = seek_view w"
    "drop_value (setVideoStreamsInfo n b w) = Inr w' \<Longrightarrow> seek_view w' = seek_view w"
  using assms
  by (auto simp: setAudioStreamsInfo_def setVideoStreamsInfo_def Let_def seek_view_def elim!: callE)

lemma seek_view_calls:
  assumes "run_inv w"
  shows "drop_value (simple_call ora c w) = Inr w' \<Longrightarrow> seek_view w' = seek_view w"
    "drop_value (renderFrame ora lost k w) = Inr w' \<Longrightarrow> seek_view w' = seek_view w"
    "drop_value (getPosition ora g w) = Inr w' \<Longrightarrow> seek_view w' = seek_view w"
    "drop_value (getVolume ora w) = Inr w' \<Longrightarrow> seek_view w' = seek_view w"
    "drop_value (getMute ora w) = Inr w' \<Longrightarrow> seek_view w' = seek_view w"
  using assms
  by (auto simp: simple_call_def renderFrame_def getPosition_def getPositionDo_def getVolume_def getMute_def bind_result_Inr
      seek_view_upd dest!: seek_view_backend elim!: callE split: if_splits)

lemma seek_view_perform:
  assumes "run_inv w" "ev \<noteq> Stop_Streaming" "perform ora undef lost ev w = Inr w'"
  shows "seek_view w' = fold seek_act (seek_signals ora ev w) (seek_view w)"
  using assms
proof (cases ev)
  case (Started_Seeking i)
  show ?thesis
  proof (cases "map_of (sources_of w) i")
    case None
    with Started_Seeking assms show ?thesis
      by (auto simp: notifySourceStartedSeeking_def unit_body_def notifySourceStartedSeeking_body_def bind_result_Inr elim!: callE)
  next
    case (Some a)
    with Started_Seeking assms seek_view_started [OF assms(1), of ora undef i w'] show ?thesis
      by (auto simp: notifySourceStartedSeeking_def unit_body_def bind_result_Inr elim!: callE)
  qed
next
  case (Seek_To p)
  with assms obtain w1 a where "backend_do ora (Set_Position p) (upd_client (\<lambda>cl. cl\<lparr>m_serverSeekingState := SEEKING\<rparr>) w) = Inr (w1, a)"
    "w' = upd_client (\<lambda>cl. cl\<lparr>m_position := p\<rparr>) w1"
    by (auto simp: seek_def bind_result_Inr elim!: callE)
  with seek_view_backend have "seek_view w' = seek_view (upd_client (\<lambda>cl. cl\<lparr>m_serverSeekingState := SEEKING\<rparr>) w)"
    by (simp add: seek_view_upd)
  with Seek_To show ?thesis by (simp add: seek_view_def)
qed (auto simp: seek_view_worker_turn seek_view_puller_turn seek_view_infos seek_view_calls seek_view_attach seek_view_remove
    run_inv_def split: if_splits simp del: seek_signals.simps(1,4) intro: seek_view_client)

interpretation seek_refinement: refining_system "perform ora undef lost" "perform_all ora undef lost"
  "\<lambda>ev. ev \<noteq> Stop_Streaming" run_inv seek_view "seek_signals ora" seek_act
  for ora undef lost
  by unfold_locales (auto intro: running_stays_running seek_view_perform)

abbreviation seek_trace :: "pipeline \<Rightarrow> i32 \<Rightarrow> (gst_element \<Rightarrow> gst_element) \<Rightarrow> client_event list \<Rightarrow> mse \<Rightarrow> seek_signal list" where
  "seek_trace ora undef lost \<equiv> trace (perform ora undef lost) (seek_signals ora)"

section \<open>One seek\<close>

text \<open>
  The signals of one seek of the sources \<open>ids\<close>: each source starts once, the position is set once and the
  server flushes once, after that; otherwise the order is open.
\<close>

definition one_seek :: "i32 list \<Rightarrow> seek_signal list \<Rightarrow> bool" where
  "one_seek ids sigs \<longleftrightarrow> distinct sigs \<and> set sigs = set (Position_Set # Server_Flushed # map Source_Started ids) \<and>
     Position_Set \<in> set (takeWhile (\<lambda>s. s \<noteq> Server_Flushed) sigs)"

definition marked :: "seek_signal list \<Rightarrow> (i32 \<times> seeking_state) list \<Rightarrow> (i32 \<times> seeking_state) list" where
  "marked sigs = map (\<lambda>(i, st). (i, if Source_Started i \<in> set sigs then SEEKING else st))"

lemma all_marked:
  "list_all (\<lambda>(i, st). st = IDLE) base \<Longrightarrow>
   list_all (\<lambda>(i, st). st = SEEKING) (marked ys base) \<longleftrightarrow> list_all (\<lambda>(i, st). Source_Started i \<in> set ys) base"
  by (induction base) (auto simp: marked_def split: if_splits)

lemma one_seek_prefix:
  assumes "one_seek (map fst base) sigs" "list_all (\<lambda>(i, st). st = IDLE) base"
  shows "sigs = p @ q \<Longrightarrow> q \<noteq> [] \<Longrightarrow> fold seek_act p \<lparr>sp_server = IDLE, sp_sources = base\<rparr> =
    \<lparr>sp_server = (if Server_Flushed \<in> set p then SEEK_DONE else if Position_Set \<in> set p then SEEKING else IDLE),
     sp_sources = marked p base\<rparr>"
proof (induction p arbitrary: q rule: rev_induct)
  case Nil
  then show ?case by (simp add: marked_def split_beta)
next
  case (snoc x p)
  have d: "distinct (p @ x # q)" and s: "set (p @ x # q) = set (Position_Set # Server_Flushed # map Source_Started (map fst base))"
    and t: "Position_Set \<in> set (takeWhile (\<lambda>s. s \<noteq> Server_Flushed) (p @ x # q))"
    using assms(1) snoc.prems(1) by (simp_all add: one_seek_def)
  from snoc.IH [of "x # q"] snoc.prems(1) have ih: "fold seek_act p \<lparr>sp_server = IDLE, sp_sources = base\<rparr> =
    \<lparr>sp_server = (if Server_Flushed \<in> set p then SEEK_DONE else if Position_Set \<in> set p then SEEKING else IDLE),
     sp_sources = marked p base\<rparr>" by simp
  have open_end: "\<not> (Server_Flushed \<in> set (p @ [x]) \<and> (\<forall>(i, st) \<in> set base. Source_Started i \<in> set (p @ [x])))"
  proof
    assume "Server_Flushed \<in> set (p @ [x]) \<and> (\<forall>(i, st) \<in> set base. Source_Started i \<in> set (p @ [x]))"
    moreover from this t have "Position_Set \<in> set (p @ [x])"
      by (auto simp: takeWhile_append dest: set_takeWhileD split: if_splits)
    ultimately have "set (Position_Set # Server_Flushed # map Source_Started (map fst base)) \<subseteq> set (p @ [x])" by auto
    moreover have "set q \<subseteq> set (Position_Set # Server_Flushed # map Source_Started (map fst base))"
      unfolding s [symmetric] by auto
    ultimately have "set q \<subseteq> set (p @ [x])" by blast
    with d snoc.prems(2) show False by (cases q) auto
  qed
  have fin: "seek_finish \<lparr>sp_server = SEEK_DONE, sp_sources = marked (p @ [x]) base\<rparr> =
      \<lparr>sp_server = SEEK_DONE, sp_sources = marked (p @ [x]) base\<rparr>" if "Server_Flushed \<in> set (p @ [x])"
  proof -
    have "\<not> list_all (\<lambda>(i, st). st = SEEKING) (marked (p @ [x]) base)"
      unfolding all_marked [OF assms(2)] using open_end that by (auto simp: list_all_iff)
    then show ?thesis by (simp add: seek_finish_def)
  qed
  have x: "x \<in> set (Position_Set # Server_Flushed # map Source_Started (map fst base))" using s by auto
  then consider i where "x = Source_Started i" | "x = Position_Set" | "x = Server_Flushed" by auto
  then show ?case
  proof cases
    case 1
    have "assoc_modify i (\<lambda>_. SEEKING) (marked p base) = marked (p @ [x]) base"
      by (auto simp: marked_def assoc_modify_def 1 split_beta)
    with 1 ih fin d show ?thesis by (cases "Server_Flushed \<in> set p") (auto simp: seek_finish_def)
  next
    case 2
    have "Server_Flushed \<notin> set p"
      using t d 2 by (auto simp: takeWhile_append dest: set_takeWhileD split: if_splits)
    then show ?thesis using 2 ih by (simp add: marked_def)
  next
    case 3
    have "Position_Set \<in> set p"
      using t d 3 by (auto simp: takeWhile_append dest: set_takeWhileD split: if_splits)
    moreover have "Server_Flushed \<notin> set p" using d 3 by simp
    moreover have "marked (p @ [x]) base = marked p base" using 3 by (simp add: marked_def)
    ultimately show ?thesis using 3 ih fin by simp
  qed
qed

lemma one_seek_complete:
  assumes "one_seek (map fst base) sigs" "list_all (\<lambda>(i, st). st = IDLE) base"
  shows "fold seek_act sigs \<lparr>sp_server = IDLE, sp_sources = base\<rparr> = \<lparr>sp_server = IDLE, sp_sources = base\<rparr>"
proof -
  have "sigs \<noteq> []" using assms(1) by (auto simp: one_seek_def)
  then obtain p x where px: "sigs = p @ [x]" by (cases sigs rule: rev_cases) auto
  have d: "distinct (p @ [x])" and s: "set (p @ [x]) = set (Position_Set # Server_Flushed # map Source_Started (map fst base))"
    and t: "Position_Set \<in> set (takeWhile (\<lambda>s. s \<noteq> Server_Flushed) (p @ [x]))"
    using assms(1) px by (simp_all add: one_seek_def)
  note pre = one_seek_prefix [OF assms px, simplified]
  have idle: "assoc_map (\<lambda>_. IDLE) (marked ys base) = base" for ys
    using assms(2) by (auto simp: marked_def assoc_map_def list_all_iff intro!: map_idI)
  have fin: "seek_finish \<lparr>sp_server = SEEK_DONE, sp_sources = marked (p @ [x]) base\<rparr> = \<lparr>sp_server = IDLE, sp_sources = base\<rparr>"
  proof -
    have "list_all (\<lambda>(i, st). Source_Started i \<in> set (p @ [x])) base"
      unfolding s by (auto simp: list_all_iff intro: rev_image_eqI)
    then have "list_all (\<lambda>(i, st). st = SEEKING) (marked (p @ [x]) base)" using all_marked [OF assms(2)] by blast
    then show ?thesis by (simp add: seek_finish_def idle)
  qed
  have "x \<in> set (Position_Set # Server_Flushed # map Source_Started (map fst base))" using s by auto
  then consider i where "x = Source_Started i" | "x = Position_Set" | "x = Server_Flushed" by auto
  then show ?thesis
  proof cases
    case 1
    have "assoc_modify i (\<lambda>_. SEEKING) (marked p base) = marked (p @ [x]) base"
      by (auto simp: marked_def assoc_modify_def 1 split_beta)
    moreover have "Server_Flushed \<in> set p" using s 1 by auto
    ultimately show ?thesis using fin 1 by (simp add: px pre)
  next
    case 2
    have "Server_Flushed \<in> set p" using s 2 by auto
    with t d 2 show ?thesis by (auto simp: takeWhile_append dest: set_takeWhileD split: if_splits)
  next
    case 3
    have "Position_Set \<in> set p" using s 3 by auto
    moreover have "Server_Flushed \<notin> set p" using d 3 by simp
    moreover have "marked (p @ [x]) base = marked p base" using 3 by (simp add: marked_def)
    ultimately show ?thesis using 3 fin by (simp add: px pre)
  qed
qed

section \<open>Guarantees\<close>

text \<open>
  C7. The client refines the seek protocol. In every run that does not stop the streaming, whatever its
  threads do and in whatever order, the seeking states of the server and of the sources are what the
  protocol makes of the signals of that run, and a source has a running puller exactly when the protocol
  does not have it seeking.
\<close>

theorem client_refines_seek_protocol:
  assumes "run_inv w" "list_all (\<lambda>ev. ev \<noteq> Stop_Streaming) evs"
  shows "yields (\<lambda>w'. seek_view w' = fold seek_act (seek_trace ora undef lost evs w) (seek_view w) \<and>
      list_all (\<lambda>(i, a). sq_running (bp_queue (as_bufferPuller a)) = (as_seekingState a \<noteq> SEEKING)) (m_attachedSources (client_of w')))
    (perform_all ora undef lost evs w)"
  using seek_refinement.run_refines [OF assms, of ora undef lost]
  by (rule yields_mono) (auto simp: run_inv_def source_ok_def list_all_iff)

lemma settled_view:
  assumes "run_inv w"
  shows "seek_settled w \<longleftrightarrow> sp_server (seek_view w) = IDLE \<and> list_all (\<lambda>(i, st). st = IDLE) (sp_sources (seek_view w))"
  using assms
  by (auto simp: seek_settled_def seek_view_def assoc_map_def list_all_iff run_inv_def source_ok_def split_beta)

lemma view_keys [simp]: "map fst (sp_sources (seek_view w)) = map fst (m_attachedSources (client_of w))"
  by (simp add: seek_view_def assoc_map_def comp_def split_beta)

lemma marked_lookup:
  assumes "assoc_map as_seekingState srcs = marked sigs base" "map_of srcs i = Some a" "Source_Started i \<in> set sigs"
  shows "as_seekingState a = SEEKING"
proof -
  have "map_of (marked sigs base) i = Some (as_seekingState a)"
    using assms(2) by (simp add: assms(1) [symmetric] map_of_assoc_map)
  then have "(i, as_seekingState a) \<in> set (marked sigs base)" by (rule map_of_SomeD)
  with assms(3) show ?thesis by (auto simp: marked_def)
qed

text \<open>
  C8. A seek completes. Let no seek be going on, and let a run have the signals of one seek: each attached
  source starts once, the position is set once and the server reports FLUSHED once after that, in any order
  otherwise, and with anything else in between. Then at the end no seek is going on, no source is seeking,
  and all pullers run. As long as a signal is still to come, every source that has started keeps its puller
  stopped.
\<close>

theorem one_seek_completes:
  assumes "run_inv w" "seek_settled w" "list_all (\<lambda>ev. ev \<noteq> Stop_Streaming) evs"
    "one_seek (map fst (m_attachedSources (client_of w))) (seek_trace ora undef lost evs w)"
  shows "yields seek_settled (perform_all ora undef lost evs w) \<and>
    (\<forall>evs1 evs2 w1. evs = evs1 @ evs2 \<longrightarrow> perform_all ora undef lost evs1 w = Inr w1 \<longrightarrow>
       seek_trace ora undef lost evs2 w1 \<noteq> [] \<longrightarrow>
       (\<forall>i a. Source_Started i \<in> set (seek_trace ora undef lost evs1 w) \<longrightarrow> map_of (m_attachedSources (client_of w1)) i = Some a \<longrightarrow>
          as_seekingState a = SEEKING \<and> \<not> sq_running (bp_queue (as_bufferPuller a))))"
proof (intro conjI allI impI)
  let ?base = "sp_sources (seek_view w)"
  have view: "seek_view w = \<lparr>sp_server = IDLE, sp_sources = ?base\<rparr>" "list_all (\<lambda>(i, st). st = IDLE) ?base"
    "sp_server (seek_view w) = IDLE"
    using assms(2) settled_view [OF assms(1)] by (simp_all add: seek_view_def)
  have one: "one_seek (map fst ?base) (seek_trace ora undef lost evs w)" using assms(4) by simp
  show "yields seek_settled (perform_all ora undef lost evs w)"
  proof (rule yields_mono [OF seek_refinement.run_refines [OF assms(1,3), of ora undef lost]])
    fix w' assume "run_inv w' \<and> seek_view w' = fold seek_act (seek_trace ora undef lost evs w) (seek_view w)"
    with one_seek_complete [OF one view(2)] view show "seek_settled w'" by (simp add: settled_view)
  qed
  fix evs1 evs2 w1 i a
  assume e: "evs = evs1 @ evs2" "perform_all ora undef lost evs1 w = Inr w1" "seek_trace ora undef lost evs2 w1 \<noteq> []"
    "Source_Started i \<in> set (seek_trace ora undef lost evs1 w)" "map_of (m_attachedSources (client_of w1)) i = Some a"
  have "seek_trace ora undef lost evs w = seek_trace ora undef lost evs1 w @ seek_trace ora undef lost evs2 w1"
    unfolding e(1) by (rule seek_refinement.trace_append [OF e(2)])
  note pre = one_seek_prefix [OF one view(2) this e(3)]
  have "list_all (\<lambda>ev. ev \<noteq> Stop_Streaming) evs1" using assms(3) e(1) by simp
  from seek_refinement.run_refines [OF assms(1) this, of ora undef lost] e(2)
  have w1: "run_inv w1" "seek_view w1 = fold seek_act (seek_trace ora undef lost evs1 w) (seek_view w)" by simp_all
  with pre view(1) have "sp_sources (seek_view w1) = marked (seek_trace ora undef lost evs1 w) ?base" by simp
  then have seeking: "as_seekingState a = SEEKING"
    by (intro marked_lookup [OF _ e(5,4)]) (simp add: seek_view_def)
  then show "as_seekingState a = SEEKING" .
  show "\<not> sq_running (bp_queue (as_bufferPuller a))"
    using source_okD [OF w1(1) e(5)] seeking by (simp add: source_ok_def)
qed

text \<open>
  C36. A failure of the server leaves the sources that were seeking behind. After FAILURE a source that
  had started seeking never gets its puller back, and refuses every request for data, in any run without
  a new seek: no FLUSHED, no other source that starts to seek, and nothing else resumes it.
\<close>

theorem failure_strands_seeking_source:
  assumes "run_inv w" "map_of (m_attachedSources (client_of w)) i = Some a" "as_seekingState a = SEEKING"
    "list_all (\<lambda>ev. ev \<noteq> Stop_Streaming \<and> ev \<noteq> Remove i \<and> (\<forall>p. ev \<noteq> Seek_To p)) evs"
  shows "yields (\<lambda>w'. \<exists>a'. map_of (m_attachedSources (client_of w')) i = Some a' \<and> as_seekingState a' = SEEKING \<and>
      \<not> sq_running (bp_queue (as_bufferPuller a')) \<and> (\<forall>n req. \<not> snd (requestPullBuffer i n req w')))
    (perform_all ora undef lost evs (handlePlaybackStateChange PS_FAILURE w))"
proof -
  let ?w = "handlePlaybackStateChange PS_FAILURE w"
  let ?behind = "\<lambda>sp. sp_server sp = IDLE \<and> map_of (sp_sources sp) i = Some SEEKING"
  have sig: "sig \<noteq> Position_Set \<and> sig \<noteq> Source_Removed i" if "sig \<in> set (seek_trace ora undef lost evs v)" for sig v
    using assms(4) that
  proof (induction evs arbitrary: v)
    case (Cons ev evs)
    have msg: "sig \<in> set (message_signals m) \<Longrightarrow> sig \<noteq> Position_Set \<and> sig \<noteq> Source_Removed i" for m
      by (cases m rule: message_signals.cases) auto
    show ?case
    proof (cases "sig \<in> set (seek_signals ora ev v)")
      case True
      with Cons.prems(1) msg show ?thesis by (cases ev) (auto simp: Let_def split: option.splits if_splits)
    next
      case False
      with Cons show ?thesis by (auto split: sum.splits)
    qed
  qed simp
  have act: "?behind (seek_act sig sp)" if "?behind sp" "sig \<noteq> Position_Set" "sig \<noteq> Source_Removed i" for sig sp
    using that by (cases sig) (auto simp: seek_finish_def map_of_assoc_modify map_of_assoc_emplace map_of_assoc_erase)
  have fold: "?behind (fold seek_act sigs sp)" if "?behind sp" "\<forall>sig \<in> set sigs. sig \<noteq> Position_Set \<and> sig \<noteq> Source_Removed i" for sigs sp
    using that act by (induction sigs arbitrary: sp) auto
  have "?behind (seek_view ?w)"
    using assms(2,3) seek_view_playback [of PS_FAILURE w] by (simp add: seek_view_def map_of_assoc_map)
  then have fin: "?behind (fold seek_act (seek_trace ora undef lost evs ?w) (seek_view ?w))" using fold sig by blast
  have "list_all (\<lambda>ev. ev \<noteq> Stop_Streaming) evs" using assms(4) by (simp add: list_all_iff)
  from seek_refinement.run_refines [OF run_inv_playback_state [OF assms(1)] this] show ?thesis
  proof (rule yields_mono)
    fix w' assume w': "run_inv w' \<and> seek_view w' = fold seek_act (seek_trace ora undef lost evs ?w) (seek_view ?w)"
    with fin have "?behind (seek_view w')" by simp
    then have "map_of (assoc_map as_seekingState (sources_of w')) i = Some SEEKING" by (simp add: seek_view_def)
    then obtain a' where a': "map_of (sources_of w') i = Some a'" "as_seekingState a' = SEEKING"
      by (auto simp: map_of_assoc_map)
    with source_okD [of w' i a'] w' have "\<not> sq_running (bp_queue (as_bufferPuller a'))" by (simp add: source_ok_def)
    with a' show "\<exists>a'. map_of (m_attachedSources (client_of w')) i = Some a' \<and> as_seekingState a' = SEEKING \<and>
      \<not> sq_running (bp_queue (as_bufferPuller a')) \<and> (\<forall>n req. \<not> snd (requestPullBuffer i n req w'))"
      by (auto simp: requestPullBuffer_def BufferPuller_requestPullBuffer_def sq_post_def Let_def)
  qed
qed

section \<open>Runs\<close>

theorem client_refines_seek_protocol_witness:
  "yields (\<lambda>w'. seek_view w' = fold seek_act (seek_trace numbering_pipeline 0 id seeking_run (started 0 0 quiet_sinks)) (seek_view (started 0 0 quiet_sinks)))
    (perform_all numbering_pipeline 0 id seeking_run (started 0 0 quiet_sinks))"
proof -
  have "run_inv (started 0 0 quiet_sinks)" using run_inv_started [of quiet_sinks] quiet_sinks_caps by simp
  moreover have "list_all (\<lambda>ev. ev \<noteq> Stop_Streaming) seeking_run" by (simp add: seeking_run_def)
  ultimately show ?thesis
    using client_refines_seek_protocol [of "started 0 0 quiet_sinks" seeking_run numbering_pipeline 0 id] by (auto elim: yields_mono)
qed

definition two_sources :: "client_event list" where
  "two_sources = [Attach video_source 0, Attach audio_source 1]"

definition seek_of_two :: "client_event list" where
  "seek_of_two = [Started_Seeking 1, Seek_To 5, Notify (Playback_State_Message PS_FLUSHED), Worker_Turn, Started_Seeking 2]"

lemma two_sources_result:
  "yields (\<lambda>w. map (\<lambda>(i, a). (i, as_seekingState a)) (m_attachedSources (client_of w)) = [(1, IDLE), (2, IDLE)] \<and> seek_settled w \<and>
     one_seek (map fst (m_attachedSources (client_of w))) (seek_trace numbering_pipeline 0 id seek_of_two w))
   (perform_all numbering_pipeline 0 id two_sources (started 0 0 quiet_sinks))"
  by code_simp

theorem one_seek_completes_witness:
  "\<exists>w. perform_all numbering_pipeline 0 id two_sources (started 0 0 quiet_sinks) = Inr w \<and>
     yields seek_settled (perform_all numbering_pipeline 0 id seek_of_two w)"
proof -
  from two_sources_result obtain w where w: "perform_all numbering_pipeline 0 id two_sources (started 0 0 quiet_sinks) = Inr w"
    "seek_settled w" "one_seek (map fst (m_attachedSources (client_of w))) (seek_trace numbering_pipeline 0 id seek_of_two w)"
    by (auto elim: yieldsE)
  have "run_inv (started 0 0 quiet_sinks)" using run_inv_started [of quiet_sinks] quiet_sinks_caps by simp
  from seek_refinement.run_invariant [OF this _ w(1)] have "run_inv w" by (simp add: two_sources_def)
  moreover have "list_all (\<lambda>ev. ev \<noteq> Stop_Streaming) seek_of_two" by (simp add: seek_of_two_def)
  ultimately show ?thesis using one_seek_completes [OF _ w(2) _ w(3)] w(1) by blast
qed

definition after_failure :: "client_event list" where
  "after_failure = [Notify (Playback_State_Message PS_FLUSHED), Worker_Turn, Started_Seeking 2, Notify (Need_Data_Message 1 3 7), Worker_Turn]"

theorem failure_strands_seeking_source_witness:
  "\<exists>w. perform_all numbering_pipeline 0 id seeking_run (started 0 0 quiet_sinks) = Inr w \<and>
     yields (\<lambda>w'. \<not> snd (requestPullBuffer 1 3 7 w'))
       (perform_all numbering_pipeline 0 id after_failure (handlePlaybackStateChange PS_FAILURE w))"
proof -
  from seeking_run_result obtain w where w: "perform_all numbering_pipeline 0 id seeking_run (started 0 0 quiet_sinks) = Inr w"
    "map (\<lambda>(i, a). (i, as_seekingState a)) (m_attachedSources (client_of w)) = [(1, SEEKING), (2, IDLE)]"
    by (auto elim: yieldsE)
  from w(2) obtain a where a: "map_of (m_attachedSources (client_of w)) 1 = Some a" "as_seekingState a = SEEKING"
    by (auto simp: map_eq_Cons_conv)
  have "run_inv (started 0 0 quiet_sinks)" using run_inv_started [of quiet_sinks] quiet_sinks_caps by simp
  from seek_refinement.run_invariant [OF this _ w(1)] have "run_inv w" by (simp add: seeking_run_def)
  moreover have "list_all (\<lambda>ev. ev \<noteq> Stop_Streaming \<and> ev \<noteq> Remove 1 \<and> (\<forall>p. ev \<noteq> Seek_To p)) after_failure"
    by (simp add: after_failure_def)
  ultimately have "yields (\<lambda>w'. \<not> snd (requestPullBuffer 1 3 7 w'))
       (perform_all numbering_pipeline 0 id after_failure (handlePlaybackStateChange PS_FAILURE w))"
    using failure_strands_seeking_source [of w 1 a after_failure numbering_pipeline 0 id] a by (auto elim: yields_mono)
  with w(1) show ?thesis by blast
qed

end
