(* ===== verification/Web_Audio_Client.thy ===== *)
theory Web_Audio_Client
  imports C_Strings Gst_Types Timer_Model
begin

text \<open>
  The web audio player client, \<open>GStreamerWebAudioPlayerClient.cpp\<close>, its header, and the backend
  \<open>WebAudioClientBackend.h\<close> it forwards to. Its operations run one at a time in the event loop of its
  message queue, which runs from the constructor to the destructor, so each is a function on the state
  of the client. Beside them there are the thread of the push timer and the server's notifications.

  The Rialto web audio player is not part of the repository. The player's answers are an argument: a
  function of the history of calls and of the call. So is what GStreamer does to the bytes of a buffer in
  \<open>gst_buffer_resize\<close> and \<open>gst_buffer_append\<close>. The loop of \<open>pushSamples\<close> need not end: \<open>None\<close> stands for
  an operation that does not return.
\<close>

section \<open>The player and the backend\<close>

datatype web_state =
  WEB_UNKNOWN | WEB_IDLE | WEB_PLAYING | WEB_PAUSED | WEB_END_OF_STREAM | WEB_FAILURE

record pcm_config =
  pcm_rate :: u32
  pcm_channels :: u32
  pcm_sampleSize :: u32
  pcm_isBigEndian :: bool
  pcm_isSigned :: bool
  pcm_isFloat :: bool

text \<open>The \<open>uint32_t\<close> of \<open>createWebAudioPlayer\<close> is the priority; \<open>writeBuffer\<close> is given the mapped bytes.\<close>

datatype web_call =
  Create_Player string u32 pcm_config
| Destroy_Player
| Web_Play
| Web_Pause
| Web_Set_Eos
| Get_Buffer_Available
| Get_Buffer_Delay
| Write_Buffer u32 "u8 list"
| Get_Device_Info
| Web_Set_Volume double_bits
| Web_Get_Volume

text \<open>
  An answer: the returned flag, the frames or the volume written to the output argument, and what
  \<open>getDeviceInfo\<close> writes to its three, if it writes them.
\<close>

record web_answer =
  wa_ok :: bool
  wa_frames :: u32
  wa_device :: "(u32 \<times> u32 \<times> bool) option"
  wa_volume :: double_bits

type_synonym web_player = "web_call list \<Rightarrow> web_call \<Rightarrow> web_answer"

text \<open>
  \<open>wb_player\<close>: \<open>m_webAudioPlayerBackend\<close> is not null. The history records the calls on the player, its
  creation and its destruction.
\<close>

record web_backend =
  wb_player :: bool
  wb_log :: "web_call list"

definition wb_call :: "web_player \<Rightarrow> web_call \<Rightarrow> web_backend \<Rightarrow> (web_backend \<times> web_answer) result" where
  "wb_call pl c b =
     (if wb_player b then Inr (b\<lparr>wb_log := wb_log b @ [c]\<rparr>, pl (wb_log b) c) else Inl Null_Deref)"

text \<open>The flag in the answer to \<open>Create_Player\<close> tells whether the factory returned a player.\<close>

definition createWebAudioBackend ::
  "web_player \<Rightarrow> string \<Rightarrow> u32 \<Rightarrow> pcm_config \<Rightarrow> web_backend \<Rightarrow> web_backend \<times> bool" where
  "createWebAudioBackend pl audioMimeType priority config b =
     (let c = Create_Player audioMimeType priority config; created = wa_ok (pl (wb_log b) c)
      in (b\<lparr>wb_player := created, wb_log := wb_log b @ [c]\<rparr>, created))"

definition destroyWebAudioBackend :: "web_backend \<Rightarrow> web_backend" where
  "destroyWebAudioBackend b =
     (if wb_player b then \<lparr>wb_player = False, wb_log = wb_log b @ [Destroy_Player]\<rparr> else b)"

section \<open>State of the client\<close>

text \<open>
  A queued buffer: its memory and the number of references to it. The queue owns one of them. A buffer
  without references has been freed.
\<close>

record web_buffer =
  wbuf_mem :: gst_memory
  wbuf_refs :: nat

record web_callbacks =
  errorCallback :: bool
  eosCallback :: bool
  stateChangedCallback :: bool

datatype web_callback = Error_Callback string | Eos_Callback | State_Changed_Callback web_state

record web_client =
  wc_backend :: web_backend
  m_isOpen :: bool
  m_dataBuffers :: "web_buffer list"
  m_pushSamplesTimer :: "timer option"
  m_preferredFrames :: u32
  m_maximumFrames :: u32
  m_supportDeferredPlay :: bool
  wc_isEos :: bool
  m_frameSize :: u32
  m_mimeType :: string
  m_config :: pcm_config
  m_callbacks :: web_callbacks

definition no_config :: pcm_config where
  "no_config = \<lparr>pcm_rate = 0, pcm_channels = 0, pcm_sampleSize = 0, pcm_isBigEndian = False,
     pcm_isSigned = False, pcm_isFloat = False\<rparr>"

definition new_web_client :: "web_callbacks \<Rightarrow> web_client" where
  "new_web_client callbacks = \<lparr>wc_backend = \<lparr>wb_player = False, wb_log = []\<rparr>, m_isOpen = False,
     m_dataBuffers = [], m_pushSamplesTimer = None, m_preferredFrames = 0, m_maximumFrames = 0,
     m_supportDeferredPlay = False, wc_isEos = False, m_frameSize = 0, m_mimeType = [], m_config = no_config,
     m_callbacks = callbacks\<rparr>"

text \<open>
  The surroundings: the player, \<open>gst_buffer_resize\<close> with its offset and size, and \<open>gst_buffer_append\<close>,
  both on the memory of the first buffer.
\<close>

record web_env =
  we_player :: web_player
  we_resize :: "web_buffer \<Rightarrow> nat \<Rightarrow> nat \<Rightarrow> gst_memory"
  we_append :: "gst_memory \<Rightarrow> gst_memory \<Rightarrow> gst_memory"

definition web_call_do :: "web_env \<Rightarrow> web_call \<Rightarrow> web_client \<Rightarrow> (web_client \<times> web_answer) result" where
  "web_call_do env call c =
     bind_result (wb_call (we_player env) call (wc_backend c)) (\<lambda>(b, a). Inr (c\<lparr>wc_backend := b\<rparr>, a))"

section \<open>Opening\<close>

definition parseGstStructureFormat :: "string \<Rightarrow> (u32 \<times> bool \<times> bool \<times> bool) option" where
  "parseGstStructureFormat format =
     (if length format \<noteq> 5 then None
      else (let (val, end, erange) = strtoul (take 2 (drop 1 format)) in
        if erange then None
        else (let sampleSize = ucast val; isBigEndian = (drop 3 format = ''BE''); f = format ! 0 in
          if f = CHR ''S'' then Some (sampleSize, isBigEndian, True, False)
          else if f = CHR ''U'' then Some (sampleSize, isBigEndian, False, False)
          else if f = CHR ''F'' then Some (sampleSize, isBigEndian, False, True)
          else None)))"

definition pcm_differs :: "pcm_config \<Rightarrow> pcm_config \<Rightarrow> bool" where
  "pcm_differs l r \<longleftrightarrow> pcm_rate l \<noteq> pcm_rate r \<or> pcm_channels l \<noteq> pcm_channels r \<or> pcm_sampleSize l \<noteq> pcm_sampleSize r \<or>
     pcm_isBigEndian l \<noteq> pcm_isBigEndian r \<or> pcm_isSigned l \<noteq> pcm_isSigned r \<or> pcm_isFloat l \<noteq> pcm_isFloat r"

definition isNewConfig :: "string \<Rightarrow> pcm_config \<Rightarrow> web_client \<Rightarrow> bool" where
  "isNewConfig audioMimeType pcm c =
     (if audioMimeType \<noteq> m_mimeType c then True
      else if audioMimeType \<noteq> ''audio/x-raw'' then True
      else if pcm_differs pcm (m_config c) then True
      else False)"

definition store_device_info :: "(u32 \<times> u32 \<times> bool) option \<Rightarrow> web_client \<Rightarrow> web_client" where
  "store_device_info d c =
     (case d of None \<Rightarrow> c
      | Some (p, m, s) \<Rightarrow> c\<lparr>m_preferredFrames := p, m_maximumFrames := m, m_supportDeferredPlay := s\<rparr>)"

definition open_body :: "web_env \<Rightarrow> string \<Rightarrow> pcm_config \<Rightarrow> web_client \<Rightarrow> (web_client \<times> bool) result" where
  "open_body env audioMimeType pcm c =
     (if \<not> m_isOpen c \<or> isNewConfig audioMimeType pcm c
      then (let b = (if m_isOpen c then destroyWebAudioBackend (wc_backend c) else wc_backend c);
                (b, created) = createWebAudioBackend (we_player env) audioMimeType 1 pcm b;
                c = c\<lparr>wc_backend := b\<rparr>
            in if created
               then bind_result (web_call_do env Get_Device_Info c) (\<lambda>(c, a).
                 Inr ((store_device_info (wa_device a) c)\<lparr>m_frameSize := (pcm_sampleSize pcm * pcm_channels pcm) div 8,
                   m_isOpen := True, m_config := pcm, m_mimeType := audioMimeType\<rparr>, True))
               else Inr (c\<lparr>m_isOpen := False\<rparr>, False))
      else Inr (c, False))"

text \<open>\<open>st\<close> is structure 0 of the caps.\<close>

definition web_open :: "web_env \<Rightarrow> gst_structure \<Rightarrow> web_client \<Rightarrow> (web_client \<times> bool) result" where
  "web_open env st c =
     (case gst_name st of
        None \<Rightarrow> Inl Null_Deref
      | Some name \<Rightarrow>
         (let audioMimeType = takeWhile (\<lambda>x. x \<noteq> CHR '' '') name;
              format = (case gst_string st ''format'' of None \<Rightarrow> [] | Some f \<Rightarrow> f)
          in if format = [] then Inr (c, False)
             else (case gst_int st ''rate'' of None \<Rightarrow> Inr (c, False) | Some rate \<Rightarrow>
                  (case gst_int st ''channels'' of None \<Rightarrow> Inr (c, False) | Some channels \<Rightarrow>
                  (case parseGstStructureFormat format of None \<Rightarrow> Inr (c, False)
                   | Some (sampleSize, isBigEndian, isSigned, isFloat) \<Rightarrow>
                      open_body env audioMimeType \<lparr>pcm_rate = rate, pcm_channels = channels, pcm_sampleSize = sampleSize,
                        pcm_isBigEndian = isBigEndian, pcm_isSigned = isSigned, pcm_isFloat = isFloat\<rparr> c)))))"

section \<open>The push timer\<close>

text \<open>
  The event loop destroys or cancels a timer from another thread than the timer's own: \<open>doCancel\<close> joins
  the thread. The callback \<open>notifyPushSamplesTimerExpired\<close> waits for the event loop, so a thread that is
  in its callback, or that has made its test of \<open>m_active\<close> and is bound to call it, cannot end before the event
  loop is done with what it is doing.
\<close>

definition timer_waits :: "timer \<Rightarrow> timer \<Rightarrow> bool" where
  "timer_waits t t' \<longleftrightarrow> timer_thread t t' \<and> tm_pc t \<noteq> In_Callback"

definition join_timer :: "timer option \<Rightarrow> unit result" where
  "join_timer t = (case t of None \<Rightarrow> Inr ()
     | Some t \<Rightarrow> if tm_pc t = Calling \<or> tm_pc t = In_Callback then Inl Deadlock else Inr ())"

text \<open>\<open>m_pushSamplesTimer = \<dots>\<close> and \<open>m_pushSamplesTimer.reset()\<close>.\<close>

definition set_push_timer :: "timer option \<Rightarrow> web_client \<Rightarrow> web_client result" where
  "set_push_timer t c = bind_result (join_timer (m_pushSamplesTimer c)) (\<lambda>_. Inr (c\<lparr>m_pushSamplesTimer := t\<rparr>))"

section \<open>Pushing samples\<close>

text \<open>The write of the whole frames of the front buffer, and whether it failed.\<close>

definition write_frames :: "web_env \<Rightarrow> u32 \<Rightarrow> gst_memory \<Rightarrow> web_client \<Rightarrow> (web_client \<times> bool) result" where
  "write_frames env framesToWrite mem c =
     (if framesToWrite > 0
      then (if \<not> mem_mappable mem then Inr (c, True)
            else bind_result (web_call_do env (Write_Buffer framesToWrite (mem_bytes mem)) c) (\<lambda>(c, a). Inr (c, \<not> wa_ok a)))
      else Inr (c, False))"

text \<open>
  What the queue becomes when data is left over. \<open>gst_buffer_append\<close> takes over both buffers; its result
  is the first one if the queue had the only reference, else a copy of it. The \<open>gst_buffer_unref\<close> that
  follows gives up a reference of the first buffer that the queue no longer owns.
\<close>

definition keep_leftover :: "web_env \<Rightarrow> u32 \<Rightarrow> u32 \<Rightarrow> u32 \<Rightarrow> web_buffer \<Rightarrow> web_buffer list \<Rightarrow> web_buffer list" where
  "keep_leftover env frameSize availableFrames framesToWrite buffer rest =
     (let bufferSize = (of_nat (length (mem_bytes (wbuf_mem buffer))) :: u64);
          leftoverData = (ucast (bufferSize - ucast (availableFrames * frameSize)) :: u32);
          mem = we_resize env buffer (unat (framesToWrite * frameSize)) (unat leftoverData)
      in if leftoverData div frameSize = 0 \<and> rest \<noteq> []
         then \<lparr>wbuf_mem = we_append env mem (wbuf_mem (hd rest)),
                wbuf_refs = (if wbuf_refs buffer = 1 then 0 else 1)\<rparr> # tl rest
         else buffer\<lparr>wbuf_mem := mem\<rparr> # rest)"

text \<open>One round of the loop: the client and \<open>availableFrames\<close>. \<open>size_t\<close> arithmetic is on 64 bits.\<close>

definition push_round :: "web_env \<Rightarrow> web_client \<Rightarrow> (web_client \<times> u32) result" where
  "push_round env c =
     bind_result (web_call_do env Get_Buffer_Available c) (\<lambda>(c, a).
     let availableFrames = wa_frames a in
     if \<not> wa_ok a then Inr (c\<lparr>m_dataBuffers := []\<rparr>, availableFrames)
     else if availableFrames = 0 then Inr (c, availableFrames)
     else (case m_dataBuffers c of
        [] \<Rightarrow> Inl Out_Of_Range
      | buffer # rest \<Rightarrow>
         (if wbuf_refs buffer = 0 then Inl Use_After_Free
          else if m_frameSize c = 0 then Inl Div_By_Zero
          else (let bufferSize = (of_nat (length (mem_bytes (wbuf_mem buffer))) :: u64);
                    framesToWrite = min availableFrames (ucast (bufferSize div ucast (m_frameSize c)))
                in bind_result (write_frames env framesToWrite (wbuf_mem buffer) c) (\<lambda>(c, writeFailure).
                   Inr (c\<lparr>m_dataBuffers :=
                       (if \<not> writeFailure \<and> ucast (framesToWrite * m_frameSize c) < bufferSize
                        then keep_leftover env (m_frameSize c) availableFrames framesToWrite buffer rest
                        else rest)\<rparr>, availableFrames))))))"

partial_function (option) push_loop :: "web_env \<Rightarrow> web_client \<Rightarrow> web_client result option" where
  "push_loop env c =
     (case push_round env c of
        Inl e \<Rightarrow> Some (Inl e)
      | Inr (c, availableFrames) \<Rightarrow>
          if m_dataBuffers c \<noteq> [] \<and> availableFrames \<noteq> 0 then push_loop env c else Some (Inr c))"

definition after_push :: "web_env \<Rightarrow> web_client \<Rightarrow> web_client result" where
  "after_push env c =
     (if m_dataBuffers c \<noteq> [] then set_push_timer (Some (timer_create ONE_SHOT True)) c
      else if wc_isEos c then bind_result (web_call_do env Web_Set_Eos c) (\<lambda>(c, _). Inr c)
      else Inr c)"

definition pushSamples :: "web_env \<Rightarrow> web_client \<Rightarrow> web_client result option" where
  "pushSamples env c =
     (if \<not> m_isOpen c \<or> m_dataBuffers c = [] then Some (Inr c)
      else map_option (\<lambda>r. bind_result r (after_push env)) (push_loop env c))"

section \<open>The other operations\<close>

definition web_close :: "web_client \<Rightarrow> (web_client \<times> bool) result" where
  "web_close c =
     bind_result (set_push_timer None (c\<lparr>wc_backend := destroyWebAudioBackend (wc_backend c)\<rparr>)) (\<lambda>c.
       Inr (c\<lparr>m_isOpen := False\<rparr>, True))"

definition forward_if_open :: "web_env \<Rightarrow> web_call \<Rightarrow> web_client \<Rightarrow> (web_client \<times> bool) result" where
  "forward_if_open env call c =
     (if m_isOpen c then bind_result (web_call_do env call c) (\<lambda>(c, a). Inr (c, wa_ok a)) else Inr (c, False))"

definition web_play :: "web_env \<Rightarrow> web_client \<Rightarrow> (web_client \<times> bool) result" where
  "web_play env = forward_if_open env Web_Play"

definition web_pause :: "web_env \<Rightarrow> web_client \<Rightarrow> (web_client \<times> bool) result" where
  "web_pause env = forward_if_open env Web_Pause"

definition returns_true :: "web_client result option \<Rightarrow> (web_client \<times> bool) result option" where
  "returns_true = map_option (\<lambda>r. bind_result r (\<lambda>c. Inr (c, True)))"

definition web_setEos :: "web_env \<Rightarrow> web_client \<Rightarrow> (web_client \<times> bool) result option" where
  "web_setEos env c =
     (if m_isOpen c \<and> \<not> wc_isEos c
      then (let c = c\<lparr>wc_isEos := True\<rparr>
            in if m_dataBuffers c = []
               then Some (bind_result (web_call_do env Web_Set_Eos c) (\<lambda>(c, a). Inr (c, wa_ok a)))
               else returns_true (pushSamples env c))
      else Some (Inr (c, False)))"

definition web_isOpen :: "web_client \<Rightarrow> (web_client \<times> bool) result" where
  "web_isOpen c = Inr (c, m_isOpen c)"

text \<open>\<open>None\<close>: a null buffer.\<close>

definition notifyNewSample :: "web_env \<Rightarrow> web_buffer option \<Rightarrow> web_client \<Rightarrow> (web_client \<times> bool) result option" where
  "notifyNewSample env buf c =
     (case buf of
        None \<Rightarrow> Some (Inr (c, False))
      | Some b \<Rightarrow>
         (case set_push_timer None c of
            Inl e \<Rightarrow> Some (Inl e)
          | Inr c \<Rightarrow> returns_true (pushSamples env (c\<lparr>m_dataBuffers := m_dataBuffers c @ [b]\<rparr>))))"

text \<open>
  The thread of the push timer: it wakes up and enters its callback, which posts a message to the event
  loop; the event loop runs \<open>pushSamples\<close>, and only then does the callback return and the thread end.
\<close>

definition timer_expires :: "web_client \<Rightarrow> web_client" where
  "timer_expires c =
     (case m_pushSamplesTimer c of
        Some t \<Rightarrow> (if tm_pc t = Sleeping \<and> tm_active t
                  then c\<lparr>m_pushSamplesTimer := Some (t\<lparr>tm_pc := In_Callback, tm_fired := Suc (tm_fired t)\<rparr>)\<rparr> else c)
      | None \<Rightarrow> c)"

text \<open>The jump is three steps of the timer's thread, with nothing of the event loop in between.\<close>

lemma timer_expires_steps:
  assumes "tm_pc t = Sleeping" "tm_active t" "tm_has_callback t"
  shows "timer_thread\<^sup>*\<^sup>* t (t\<lparr>tm_pc := In_Callback, tm_fired := Suc (tm_fired t)\<rparr>)"
  using assms timer_thread.timeout [of t] timer_thread.check [of "t\<lparr>tm_pc := Expired\<rparr>"]
    timer_thread.call [of "t\<lparr>tm_pc := Calling\<rparr>"]
  by (auto intro: rtranclp.rtrancl_into_rtrancl)

definition callback_ends :: "web_client \<Rightarrow> web_client" where
  "callback_ends c = c\<lparr>m_pushSamplesTimer := map_option (\<lambda>t. t\<lparr>tm_active := False, tm_pc := Ended\<rparr>) (m_pushSamplesTimer c)\<rparr>"

definition notifyPushSamplesTimerExpired :: "web_env \<Rightarrow> web_client \<Rightarrow> web_client result option" where
  "notifyPushSamplesTimerExpired env c =
     map_option (\<lambda>r. bind_result r (\<lambda>c. Inr (callback_ends c))) (pushSamples env c)"

text \<open>The callback that is called, if any.\<close>

definition notifyState :: "web_state \<Rightarrow> web_client \<Rightarrow> web_client \<times> web_callback option" where
  "notifyState state c =
     (case state of
        WEB_END_OF_STREAM \<Rightarrow> (c\<lparr>wc_isEos := False\<rparr>, if eosCallback (m_callbacks c) then Some Eos_Callback else None)
      | WEB_FAILURE \<Rightarrow> (c, if errorCallback (m_callbacks c)
                           then Some (Error_Callback ''Rialto server webaudio playback failed'') else None)
      | WEB_UNKNOWN \<Rightarrow> (c, None)
      | _ \<Rightarrow> (c, if stateChangedCallback (m_callbacks c) then Some (State_Changed_Callback state) else None))"

section \<open>Frames and bytes\<close>

text \<open>The sizes the loop computes, as natural numbers, for a buffer of less than \<open>2 ^ 32\<close> bytes.\<close>

lemma unat_min: "unat (min a b) = min (unat a) (unat b)"
  by (simp add: min_def word_le_nat_alt)

lemma unat_size:
  assumes "n < 2 ^ 32"
  shows "unat (of_nat n :: u64) = n"
  using assms by (simp add: unat_of_nat)

lemma unat_widen: "unat (ucast (x :: u32) :: u64) = unat x"
proof -
  have "unat x < 2 ^ 32" using unsigned_less [of x, where ?'a = nat] by simp
  then show ?thesis by (simp add: unsigned_ucast_eq take_bit_nat_eq_self_iff)
qed

lemma unat_frames:
  assumes "n < 2 ^ 32" "f \<noteq> (0 :: u32)"
  shows "unat (min a (ucast ((of_nat n :: u64) div ucast f)) :: u32) = min (unat a) (n div unat f)"
proof -
  have "unat ((of_nat n :: u64) div ucast f) = n div unat f"
    using assms by (simp add: unat_div_distrib unat_size unat_widen)
  moreover have "n div unat f < 2 ^ 32" using assms(1) by (meson div_le_dividend le_less_trans)
  ultimately have "unat (ucast ((of_nat n :: u64) div ucast f) :: u32) = n div unat f"
    by (simp add: unsigned_ucast_eq take_bit_nat_eq_self_iff)
  then show ?thesis by (simp add: unat_min)
qed

lemma unat_product:
  fixes a f :: u32
  assumes "unat a * unat f < 2 ^ 32"
  shows "unat (a * f) = unat a * unat f"
  using assms by (simp add: unat_word_ariths)

lemma unat_leftover:
  fixes a f :: u32
  assumes "n < 2 ^ 32" "unat a * unat f \<le> n"
  shows "unat (ucast ((of_nat n :: u64) - ucast (a * f)) :: u32) = n - unat a * unat f"
proof -
  have "unat (ucast (a * f) :: u64) = unat a * unat f"
    using assms by (simp add: unat_widen unat_product)
  then have "unat ((of_nat n :: u64) - ucast (a * f)) = n - unat a * unat f"
    using assms by (simp add: unat_sub word_le_nat_alt unat_size)
  with assms(1) show ?thesis by (simp add: unsigned_ucast_eq take_bit_nat_eq_self_iff)
qed

section \<open>Whole frames\<close>

text \<open>
  What the documentation of GStreamer says of \<open>gst_buffer_resize\<close> on a buffer with one reference: the
  bytes from the offset on, as many as the size, if the buffer has them.
\<close>

definition resize_documented :: "web_env \<Rightarrow> bool" where
  "resize_documented env \<longleftrightarrow> (\<forall>b off sz. wbuf_refs b = 1 \<and> off + sz \<le> length (mem_bytes (wbuf_mem b)) \<longrightarrow>
     we_resize env b off sz = (wbuf_mem b)\<lparr>mem_bytes := take sz (drop off (mem_bytes (wbuf_mem b)))\<rparr>)"

definition whole_buffer :: "u32 \<Rightarrow> web_buffer \<Rightarrow> bool" where
  "whole_buffer f b \<longleftrightarrow> wbuf_refs b = 1 \<and> mem_mappable (wbuf_mem b) \<and>
     unat f dvd length (mem_bytes (wbuf_mem b)) \<and> length (mem_bytes (wbuf_mem b)) < 2 ^ 32"

definition whole_frames :: "web_client \<Rightarrow> bool" where
  "whole_frames c \<longleftrightarrow> m_frameSize c \<noteq> 0 \<and> list_all (whole_buffer (m_frameSize c)) (m_dataBuffers c)"

text \<open>The audio the player has been given since the start, and with it the audio still queued.\<close>

definition written :: "nat \<Rightarrow> web_call list \<Rightarrow> u8 list" where
  "written fs log = concat (map (\<lambda>call. case call of Write_Buffer n d \<Rightarrow> take (unat n * fs) d | _ \<Rightarrow> []) log)"

definition queued :: "web_client \<Rightarrow> u8 list" where
  "queued c = concat (map (\<lambda>b. mem_bytes (wbuf_mem b)) (m_dataBuffers c))"

definition audio :: "web_client \<Rightarrow> u8 list" where
  "audio c = written (unat (m_frameSize c)) (wb_log (wc_backend c)) @ queued c"

definition push_work :: "web_client \<Rightarrow> nat" where
  "push_work c = length (queued c) + length (m_dataBuffers c)"

text \<open>A player that takes what it is offered and always tells how much that is.\<close>

definition reliable :: "web_player \<Rightarrow> bool" where
  "reliable pl \<longleftrightarrow> (\<forall>log. wa_ok (pl log Get_Buffer_Available) \<and> (\<forall>n d. wa_ok (pl log (Write_Buffer n d))))"

text \<open>What no part of the push changes.\<close>

definition push_frame :: "web_client \<Rightarrow> web_client \<Rightarrow> bool" where
  "push_frame c c' \<longleftrightarrow> m_isOpen c' = m_isOpen c \<and> m_frameSize c' = m_frameSize c \<and> wc_isEos c' = wc_isEos c \<and>
     m_pushSamplesTimer c' = m_pushSamplesTimer c \<and> wb_player (wc_backend c') = wb_player (wc_backend c)"

lemma written_append [simp]: "written fs (xs @ ys) = written fs xs @ written fs ys"
  by (simp add: written_def)

lemma web_call_do_player:
  "wb_player (wc_backend c) \<Longrightarrow> web_call_do env call c =
     Inr (c\<lparr>wc_backend := (wc_backend c)\<lparr>wb_log := wb_log (wc_backend c) @ [call]\<rparr>\<rparr>, we_player env (wb_log (wc_backend c)) call)"
  by (simp add: web_call_do_def wb_call_def)

text \<open>The front buffer after a write of \<open>framesToWrite\<close> frames.\<close>

lemma keep_leftover_whole:
  assumes "resize_documented env" "whole_buffer f b" "f \<noteq> 0" "a \<noteq> 0"
    "fw = min a (ucast ((of_nat (length (mem_bytes (wbuf_mem b))) :: u64) div ucast f))"
  shows "ucast (fw * f) < (of_nat (length (mem_bytes (wbuf_mem b))) :: u64) \<longleftrightarrow> unat fw * unat f < length (mem_bytes (wbuf_mem b))"
    and "unat fw * unat f < length (mem_bytes (wbuf_mem b)) \<Longrightarrow> 0 < unat fw \<and> keep_leftover env f a fw b rest =
      b\<lparr>wbuf_mem := (wbuf_mem b)\<lparr>mem_bytes := drop (unat fw * unat f) (mem_bytes (wbuf_mem b))\<rparr>\<rparr> # rest"
proof -
  let ?n = "length (mem_bytes (wbuf_mem b))"
  have n: "?n < 2 ^ 32" "unat f dvd ?n" "wbuf_refs b = 1" using assms(2) by (simp_all add: whole_buffer_def)
  have f0: "0 < unat f" using assms(3) by (simp add: unat_gt_0)
  have fw: "unat fw = min (unat a) (?n div unat f)" using unat_frames [OF n(1) assms(3)] assms(5) by simp
  then have le: "unat fw * unat f \<le> ?n" by (metis div_times_less_eq_dividend dual_order.trans min.cobounded2 mult_le_mono1)
  with n(1) have prod: "unat (fw * f) = unat fw * unat f" by (simp add: unat_product)
  show "ucast (fw * f) < (of_nat ?n :: u64) \<longleftrightarrow> unat fw * unat f < ?n"
    using n(1) by (simp add: word_less_nat_alt unat_widen prod unat_size)
  assume less: "unat fw * unat f < ?n"
  have "unat fw \<noteq> ?n div unat f" using less n(2) by auto
  with fw have a: "unat fw = unat a" by linarith
  have left: "unat (ucast ((of_nat ?n :: u64) - ucast (a * f)) :: u32) = ?n - unat fw * unat f"
    using unat_leftover [OF n(1)] le a by simp
  have "unat f \<le> ?n - unat fw * unat f"
    using less n(2) by (metis dvd_diff_nat dvd_imp_le dvd_triv_right zero_less_diff)
  then have "(ucast ((of_nat ?n :: u64) - ucast (a * f)) :: u32) div f \<noteq> 0"
    using left f0 by (metis div_eq_0_iff unat_0 unat_div_distrib not_less nat_neq_iff)
  moreover have "we_resize env b (unat (fw * f)) (?n - unat fw * unat f) =
      (wbuf_mem b)\<lparr>mem_bytes := drop (unat fw * unat f) (mem_bytes (wbuf_mem b))\<rparr>"
    using assms(1) n(3) le by (simp add: resize_documented_def prod)
  ultimately show "0 < unat fw \<and> keep_leftover env f a fw b rest =
      b\<lparr>wbuf_mem := (wbuf_mem b)\<lparr>mem_bytes := drop (unat fw * unat f) (mem_bytes (wbuf_mem b))\<rparr>\<rparr> # rest"
    using a assms(4) by (simp add: keep_leftover_def Let_def left unat_gt_0)
qed

lemma write_frames_player:
  assumes "wb_player (wc_backend c)" "mem_mappable mem"
  obtains failed b where "write_frames env n mem c = Inr (c\<lparr>wc_backend := b\<rparr>, failed)" "wb_player b"
    "wb_log b = wb_log (wc_backend c) @ (if 0 < n then [Write_Buffer n (mem_bytes mem)] else [])"
    "reliable (we_player env) \<Longrightarrow> \<not> failed"
proof (cases "0 < n")
  case True
  with assms show thesis
    by (intro that [of "(wc_backend c)\<lparr>wb_log := wb_log (wc_backend c) @ [Write_Buffer n (mem_bytes mem)]\<rparr>"])
      (auto simp: write_frames_def web_call_do_player reliable_def)
next
  case False
  with assms show thesis by (intro that [of "wc_backend c"]) (simp_all add: write_frames_def)
qed

lemma push_round_whole:
  assumes "resize_documented env" "whole_frames c" "wb_player (wc_backend c)" "m_dataBuffers c \<noteq> []"
  shows "yields (\<lambda>(c', avail). whole_frames c' \<and> push_frame c c' \<and>
      (reliable (we_player env) \<longrightarrow> audio c' = audio c) \<and>
      (if m_dataBuffers c' \<noteq> [] \<and> avail \<noteq> 0 then push_work c' < push_work c
       else m_dataBuffers c' \<noteq> [] \<longrightarrow> (\<exists>log. wb_log (wc_backend c') = log @ [Get_Buffer_Available] \<and>
         wa_frames (we_player env log Get_Buffer_Available) = 0)))
    (push_round env c)"
proof -
  let ?log = "wb_log (wc_backend c)" and ?f = "m_frameSize c"
  let ?a = "we_player env ?log Get_Buffer_Available"
  let ?avail = "wa_frames ?a"
  let ?c = "c\<lparr>wc_backend := (wc_backend c)\<lparr>wb_log := ?log @ [Get_Buffer_Available]\<rparr>\<rparr>"
  obtain b rest where bs: "m_dataBuffers c = b # rest" using assms(4) by (cases "m_dataBuffers c") auto
  let ?bytes = "mem_bytes (wbuf_mem b)"
  have w: "whole_buffer ?f b" "?f \<noteq> 0" "list_all (whole_buffer ?f) rest" "mem_mappable (wbuf_mem b)" "wbuf_refs b = 1"
    using assms(2) bs by (auto simp: whole_frames_def whole_buffer_def)
  have none: "written fs (Get_Buffer_Available # xs) = written fs xs" for fs xs by (simp add: written_def)
  show ?thesis
  proof (cases "wa_ok ?a \<and> ?avail \<noteq> 0")
    case False
    with assms(2-4) none [of _ "[]"] show ?thesis
      by (cases "wa_ok ?a")
        (auto simp: push_round_def web_call_do_player push_frame_def whole_frames_def audio_def queued_def reliable_def written_def)
  next
    case True
    define fw where "fw = min ?avail (ucast ((of_nat (length ?bytes) :: u64) div ucast ?f))"
    have kl: "ucast (fw * ?f) < (of_nat (length ?bytes) :: u64) \<longleftrightarrow> unat fw * unat ?f < length ?bytes"
      "unat fw * unat ?f < length ?bytes \<Longrightarrow> 0 < unat fw \<and> keep_leftover env ?f ?avail fw b rest =
        b\<lparr>wbuf_mem := (wbuf_mem b)\<lparr>mem_bytes := drop (unat fw * unat ?f) ?bytes\<rparr>\<rparr> # rest"
      using keep_leftover_whole [OF assms(1) w(1,2), of ?avail fw] True fw_def by blast+
    have player: "wb_player (wc_backend ?c)" using assms(3) by simp
    obtain failed b' where wr: "write_frames env fw (wbuf_mem b) ?c = Inr (?c\<lparr>wc_backend := b'\<rparr>, failed)" "wb_player b'"
      "wb_log b' = wb_log (wc_backend ?c) @ (if 0 < fw then [Write_Buffer fw ?bytes] else [])"
      "reliable (we_player env) \<Longrightarrow> \<not> failed"
      by (rule write_frames_player [OF player w(4)]) blast
    let ?more = "\<not> failed \<and> unat fw * unat ?f < length ?bytes"
    let ?bs = "if ?more then keep_leftover env ?f ?avail fw b rest else rest"
    have round: "push_round env c = Inr (?c\<lparr>wc_backend := b', m_dataBuffers := ?bs\<rparr>, ?avail)"
      using True assms(3) bs w(2,5) wr(1)
      by (simp add: push_round_def web_call_do_player fw_def [symmetric] kl(1) Let_def)
    have wrote: "written (unat ?f) (wb_log b') = written (unat ?f) ?log @ take (unat fw * unat ?f) ?bytes"
      using wr(3) by (cases "fw = 0") (simp_all add: written_def word_neq_0_conv)
    show ?thesis
    proof (cases ?more)
      case True
      then have bs': "?bs = b\<lparr>wbuf_mem := (wbuf_mem b)\<lparr>mem_bytes := drop (unat fw * unat ?f) ?bytes\<rparr>\<rparr> # rest"
        and pos: "0 < unat fw * unat ?f" using kl(2) w(2) by (simp_all add: unat_gt_0)
      with w wrote wr(2) bs True assms(3) \<open>wa_ok ?a \<and> ?avail \<noteq> 0\<close> show ?thesis unfolding round bs'
        by (auto simp: whole_frames_def whole_buffer_def push_frame_def audio_def queued_def push_work_def intro: dvd_diff_nat)
    next
      case False
      have "reliable (we_player env) \<Longrightarrow> take (unat fw * unat ?f) ?bytes = ?bytes" using False wr(4) by auto
      with False w wrote wr(2) bs assms(3) \<open>wa_ok ?a \<and> ?avail \<noteq> 0\<close> show ?thesis unfolding round
        by (auto simp: whole_frames_def push_frame_def audio_def queued_def push_work_def)
    qed
  qed
qed

lemma push_loop_whole:
  assumes "resize_documented env"
  shows "whole_frames c \<Longrightarrow> wb_player (wc_backend c) \<Longrightarrow> m_dataBuffers c \<noteq> [] \<Longrightarrow>
    \<exists>c'. push_loop env c = Some (Inr c') \<and> whole_frames c' \<and> push_frame c c' \<and>
      (reliable (we_player env) \<longrightarrow> audio c' = audio c) \<and>
      (m_dataBuffers c' \<noteq> [] \<longrightarrow> (\<exists>log. wb_log (wc_backend c') = log @ [Get_Buffer_Available] \<and>
         wa_frames (we_player env log Get_Buffer_Available) = 0))"
proof (induction "push_work c" arbitrary: c rule: less_induct)
  case less
  from push_round_whole [OF assms less.prems] obtain c1 avail where r: "push_round env c = Inr (c1, avail)"
    "whole_frames c1" "push_frame c c1" "reliable (we_player env) \<longrightarrow> audio c1 = audio c"
    "if m_dataBuffers c1 \<noteq> [] \<and> avail \<noteq> 0 then push_work c1 < push_work c
     else m_dataBuffers c1 \<noteq> [] \<longrightarrow> (\<exists>log. wb_log (wc_backend c1) = log @ [Get_Buffer_Available] \<and>
       wa_frames (we_player env log Get_Buffer_Available) = 0)"
    by (rule yieldsE) blast
  show ?case
  proof (cases "m_dataBuffers c1 \<noteq> [] \<and> avail \<noteq> 0")
    case False
    with r show ?thesis by (subst push_loop.simps) auto
  next
    case True
    have p: "wb_player (wc_backend c1)" using r(3) less.prems(2) by (simp add: push_frame_def)
    from less.hyps [OF _ r(2) p] r(5) True obtain c' where
      "push_loop env c1 = Some (Inr c')" "whole_frames c'" "push_frame c1 c'"
      "reliable (we_player env) \<longrightarrow> audio c' = audio c1"
      "m_dataBuffers c' \<noteq> [] \<longrightarrow> (\<exists>log. wb_log (wc_backend c') = log @ [Get_Buffer_Available] \<and>
         wa_frames (we_player env log Get_Buffer_Available) = 0)" by auto
    moreover have "push_loop env c = push_loop env c1" using r(1) True by (subst push_loop.simps) simp
    ultimately show ?thesis using r(3,4) by (auto simp: push_frame_def)
  qed
qed

section \<open>Guarantees of the push\<close>

definition in_callback :: "web_client \<Rightarrow> bool" where
  "in_callback c = (case m_pushSamplesTimer c of None \<Rightarrow> False | Some t \<Rightarrow> tm_pc t = Calling \<or> tm_pc t = In_Callback)"

lemma set_push_timer_cases:
  "set_push_timer t c = (if in_callback c then Inl Deadlock else Inr (c\<lparr>m_pushSamplesTimer := t\<rparr>))"
  by (simp add: set_push_timer_def join_timer_def in_callback_def split: option.split)

lemma after_push_cases:
  assumes "wb_player (wc_backend c)" "\<not> in_callback c"
  shows "after_push env c = Inr (if m_dataBuffers c \<noteq> [] then c\<lparr>m_pushSamplesTimer := Some (timer_create ONE_SHOT True)\<rparr>
     else if wc_isEos c then c\<lparr>wc_backend := (wc_backend c)\<lparr>wb_log := wb_log (wc_backend c) @ [Web_Set_Eos]\<rparr>\<rparr> else c)"
  using assms by (simp add: after_push_def set_push_timer_cases web_call_do_player)

text \<open>
  C20. Pushing whole frames. On an open client whose queue holds whole frames, a new buffer of whole
  frames is accepted and the call returns, whatever the player answers. What the player has been given
  and what is still queued are then together what they were before, followed by the new bytes (if the
  player is reliable): nothing is lost, repeated or reordered. If anything is still queued, the player
  had just said that it has no room, and a fresh timer is running; if nothing is and the end of the
  stream has been announced, it is passed on after the last write.
\<close>

theorem new_sample_pushed:
  assumes "resize_documented env" "whole_frames c" "whole_buffer (m_frameSize c) b"
    and "m_isOpen c" "wb_player (wc_backend c)" "\<not> in_callback c"
  shows "\<exists>c'. notifyNewSample env (Some b) c = Some (Inr (c', True)) \<and> whole_frames c' \<and>
    (reliable (we_player env) \<longrightarrow> audio c' = audio c @ mem_bytes (wbuf_mem b)) \<and>
    (if m_dataBuffers c' \<noteq> []
     then m_pushSamplesTimer c' = Some (timer_create ONE_SHOT True) \<and>
       (\<exists>log. wb_log (wc_backend c') = log @ [Get_Buffer_Available] \<and> wa_frames (we_player env log Get_Buffer_Available) = 0)
     else m_pushSamplesTimer c' = None \<and> (wc_isEos c \<longrightarrow> last (wb_log (wc_backend c')) = Web_Set_Eos))"
proof -
  let ?c = "c\<lparr>m_pushSamplesTimer := None, m_dataBuffers := m_dataBuffers c @ [b]\<rparr>"
  have "whole_frames ?c" using assms(2,3) by (simp add: whole_frames_def)
  moreover have "wb_player (wc_backend ?c)" "m_dataBuffers ?c \<noteq> []" using assms(5) by simp_all
  ultimately obtain c1 where c1: "push_loop env ?c = Some (Inr c1)" "whole_frames c1" "push_frame ?c c1"
    "reliable (we_player env) \<longrightarrow> audio c1 = audio ?c"
    "m_dataBuffers c1 \<noteq> [] \<longrightarrow> (\<exists>log. wb_log (wc_backend c1) = log @ [Get_Buffer_Available] \<and>
         wa_frames (we_player env log Get_Buffer_Available) = 0)"
    using push_loop_whole [OF assms(1)] by blast
  have f: "wb_player (wc_backend c1)" "\<not> in_callback c1" "m_pushSamplesTimer c1 = None" "wc_isEos c1 = wc_isEos c"
    using c1(3) assms(5) by (simp_all add: push_frame_def in_callback_def)
  obtain c2 where c2: "after_push env c1 = Inr c2"
    "c2 = (if m_dataBuffers c1 \<noteq> [] then c1\<lparr>m_pushSamplesTimer := Some (timer_create ONE_SHOT True)\<rparr>
     else if wc_isEos c1 then c1\<lparr>wc_backend := (wc_backend c1)\<lparr>wb_log := wb_log (wc_backend c1) @ [Web_Set_Eos]\<rparr>\<rparr> else c1)"
    using after_push_cases [OF f(1,2)] by simp
  have "notifyNewSample env (Some b) c = Some (Inr (c2, True))"
    using assms(4,6) c1(1) c2(1) by (simp add: notifyNewSample_def set_push_timer_cases returns_true_def pushSamples_def)
  moreover have "whole_frames c2" "audio c2 = audio c1" "m_dataBuffers c2 = m_dataBuffers c1"
    using c1(2) by (simp_all add: c2(2) whole_frames_def audio_def queued_def written_def)
  ultimately show ?thesis using c1(4,5) f(3,4) c2(2) by (auto simp: audio_def queued_def)
qed

text \<open>A player with room for three frames at first and for none later, and GStreamer as documented.\<close>

definition three_frames :: web_player where
  "three_frames log call = \<lparr>wa_ok = True, wa_frames = (if Get_Buffer_Available \<in> set log then 0 else 3),
     wa_device = Some (1, 2, False), wa_volume = 0\<rparr>"

definition gst_env :: "web_player \<Rightarrow> web_env" where
  "gst_env pl = \<lparr>we_player = pl,
     we_resize = (\<lambda>b off sz. let m = wbuf_mem b in
       if wbuf_refs b = 1 \<and> off + sz \<le> length (mem_bytes m) then m\<lparr>mem_bytes := take sz (drop off (mem_bytes m))\<rparr> else m),
     we_append = (\<lambda>m n. m\<lparr>mem_bytes := mem_bytes m @ mem_bytes n\<rparr>)\<rparr>"

lemma gst_env_documented: "resize_documented (gst_env pl)"
  by (simp add: resize_documented_def gst_env_def Let_def)

text \<open>A client opened for stereo samples of 16 bits, frames of four bytes.\<close>

definition stereo_caps :: gst_structure where
  "stereo_caps = (empty_structure ''audio/x-raw'')\<lparr>gst_string := [''format'' \<mapsto> ''S16LE''],
     gst_int := [''rate'' \<mapsto> 48000, ''channels'' \<mapsto> 2]\<rparr>"

definition opened :: web_client where
  "opened = (new_web_client \<lparr>errorCallback = True, eosCallback = True, stateChangedCallback = True\<rparr>)
     \<lparr>wc_backend := \<lparr>wb_player = True, wb_log = [Create_Player ''audio/x-raw'' 1
          \<lparr>pcm_rate = 48000, pcm_channels = 2, pcm_sampleSize = 16, pcm_isBigEndian = False, pcm_isSigned = True, pcm_isFloat = False\<rparr>,
        Get_Device_Info]\<rparr>,
      m_isOpen := True, m_preferredFrames := 1, m_maximumFrames := 2, m_frameSize := 4, m_mimeType := ''audio/x-raw'',
      m_config := \<lparr>pcm_rate = 48000, pcm_channels = 2, pcm_sampleSize = 16, pcm_isBigEndian = False, pcm_isSigned = True, pcm_isFloat = False\<rparr>\<rparr>"

lemma opened_result:
  "web_open (gst_env three_frames) stereo_caps
     (new_web_client \<lparr>errorCallback = True, eosCallback = True, stateChangedCallback = True\<rparr>) = Inr (opened, True)"
  by (simp add: web_open_def stereo_caps_def empty_structure_def parseGstStructureFormat_def strtoul_def skip_sign_def
      is_space_def is_digit_def decimal_value_def open_body_def createWebAudioBackend_def web_call_do_def wb_call_def
      gst_env_def three_frames_def store_device_info_def opened_def new_web_client_def no_config_def Let_def)

definition bytes_buffer :: "u8 list \<Rightarrow> web_buffer" where
  "bytes_buffer bs = \<lparr>wbuf_mem = \<lparr>mem_mappable = True, mem_bytes = bs\<rparr>, wbuf_refs = 1\<rparr>"

theorem new_sample_pushed_witness:
  "\<exists>c'. notifyNewSample (gst_env three_frames) (Some (bytes_buffer [1,2,3,4,5,6,7,8,9,10,11,12,13,14,15,16])) opened = Some (Inr (c', True)) \<and>
     audio c' = [1,2,3,4,5,6,7,8,9,10,11,12,13,14,15,16]"
proof -
  let ?b = "bytes_buffer [1,2,3,4,5,6,7,8,9,10,11,12,13,14,15,16]"
  have len: "length (mem_bytes (wbuf_mem ?b)) = 16" by (simp add: bytes_buffer_def)
  have b: "whole_buffer (m_frameSize opened) ?b"
    unfolding whole_buffer_def len by (simp add: opened_def bytes_buffer_def)
  have "whole_frames opened" "m_isOpen opened" "wb_player (wc_backend opened)" "\<not> in_callback opened"
    by (simp_all add: opened_def whole_frames_def new_web_client_def in_callback_def)
  from new_sample_pushed [OF gst_env_documented [of three_frames] this(1) b this(2-4)] obtain c' where
    "notifyNewSample (gst_env three_frames) (Some ?b) opened = Some (Inr (c', True))"
    "reliable (we_player (gst_env three_frames)) \<longrightarrow> audio c' = audio opened @ mem_bytes (wbuf_mem ?b)" by blast
  moreover have "reliable (we_player (gst_env three_frames))" by (simp add: reliable_def gst_env_def three_frames_def)
  moreover have "audio opened = []"
    by (simp add: audio_def queued_def written_def opened_def new_web_client_def)
  ultimately show ?thesis by (simp add: bytes_buffer_def)
qed

section \<open>A leftover that is never pushed\<close>

text \<open>
  \<open>gst_buffer_resize\<close> leaves a buffer alone that has not the room asked for: \<open>cap\<close> bounds the memory
  behind a buffer of at most \<open>cap\<close> bytes.
\<close>

definition resize_rejects :: "nat \<Rightarrow> web_env \<Rightarrow> bool" where
  "resize_rejects cap env \<longleftrightarrow> (\<forall>b off sz. length (mem_bytes (wbuf_mem b)) \<le> cap \<and> cap < off + sz \<longrightarrow> we_resize env b off sz = wbuf_mem b)"

text \<open>A player with room for at least one frame whenever it is asked, and for less than 2 GB.\<close>

definition always_room :: "u32 \<Rightarrow> web_player \<Rightarrow> bool" where
  "always_room f pl \<longleftrightarrow> (\<forall>log. let a = pl log Get_Buffer_Available in
     wa_ok a \<and> wa_frames a \<noteq> 0 \<and> unat (wa_frames a) * unat f \<le> 2 ^ 31)"

text \<open>The queue holds one buffer, with less than a frame.\<close>

definition stuck :: "web_client \<Rightarrow> bool" where
  "stuck c \<longleftrightarrow> wb_player (wc_backend c) \<and> (\<exists>b. m_dataBuffers c = [b] \<and> wbuf_refs b \<noteq> 0 \<and>
     0 < length (mem_bytes (wbuf_mem b)) \<and> length (mem_bytes (wbuf_mem b)) < unat (m_frameSize c))"

lemma keep_leftover_stuck:
  assumes "resize_rejects cap env" "cap \<le> 2 ^ 31" "0 < n" "n < unat f" "unat f \<le> cap" "n = length (mem_bytes (wbuf_mem b))"
    "a \<noteq> 0" "unat a * unat f \<le> 2 ^ 31"
  shows "keep_leftover env f a 0 b [] = [b]"
proof -
  have f: "unat f < 2 ^ 32" using unsigned_less [of f, where ?'a = nat] by simp
  have "1 \<le> unat a" using assms(7) by (simp add: unat_gt_0 Suc_le_eq)
  then have "unat f \<le> unat a * unat f" by simp
  with assms(4) have af: "n < unat a * unat f" by linarith
  have p: "unat (ucast (a * f) :: u64) = unat a * unat f" using assms(8) by (simp add: unat_widen unat_product)
  have n: "unat (of_nat n :: u64) = n" using assms(4) f by (simp add: unat_size)
  let ?d = "(of_nat n :: u64) - ucast (a * f)"
  have "unat ?d = 2 ^ 64 + n - unat a * unat f"
    using af by (simp add: unat_sub_if_size p n word_size)
  then have "unat ?d = (2 ^ 32 - 1) * 2 ^ 32 + (2 ^ 32 + n - unat a * unat f)" using assms(8) by simp
  then have "unat ?d mod 2 ^ 32 = (2 ^ 32 + n - unat a * unat f) mod 2 ^ 32" by (simp only: mod_mult_self3)
  also have "\<dots> = 2 ^ 32 + n - unat a * unat f" using af by (intro mod_less) simp
  finally have "unat (ucast ?d :: u32) = 2 ^ 32 + n - unat a * unat f"
    by (simp add: unsigned_ucast_eq take_bit_eq_mod)
  then have "cap < 0 + unat (ucast ?d :: u32)" using assms(2,3,8) by simp
  moreover have "length (mem_bytes (wbuf_mem b)) \<le> cap" using assms(4-6) by simp
  ultimately have "we_resize env b 0 (unat (ucast ?d :: u32)) = wbuf_mem b"
    using assms(1) unfolding resize_rejects_def by blast
  then show ?thesis using assms(6) by (simp add: keep_leftover_def Let_def)
qed

lemma push_round_stuck:
  assumes "resize_rejects cap env" "cap \<le> 2 ^ 31" "always_room (m_frameSize c) (we_player env)" "stuck c"
    "unat (m_frameSize c) \<le> cap"
  shows "\<exists>c' avail. push_round env c = Inr (c', avail) \<and> avail \<noteq> 0 \<and> stuck c' \<and> m_frameSize c' = m_frameSize c"
proof -
  let ?f = "m_frameSize c" and ?a = "wa_frames (we_player env (wb_log (wc_backend c)) Get_Buffer_Available)"
  obtain b where b: "m_dataBuffers c = [b]" "wbuf_refs b \<noteq> 0" "0 < length (mem_bytes (wbuf_mem b))"
    "length (mem_bytes (wbuf_mem b)) < unat ?f" "wb_player (wc_backend c)" using assms(4) by (auto simp: stuck_def)
  let ?n = "length (mem_bytes (wbuf_mem b))"
  have a: "wa_ok (we_player env (wb_log (wc_backend c)) Get_Buffer_Available)" "?a \<noteq> 0" "unat ?a * unat ?f \<le> 2 ^ 31"
    using assms(3) by (auto simp: always_room_def Let_def)
  have f: "unat ?f < 2 ^ 32" using unsigned_less [of ?f, where ?'a = nat] by simp
  then have n: "?n < 2 ^ 32" using b(4) by simp
  have f0: "?f \<noteq> 0" using b(4) by auto
  have "unat (min ?a (ucast ((of_nat ?n :: u64) div ucast ?f)) :: u32) = 0" using unat_frames [OF n f0] b(4) by simp
  then have fw: "(min ?a (ucast ((of_nat ?n :: u64) div ucast ?f)) :: u32) = 0" by (simp only: unat_eq_0)
  have less: "ucast (0 * ?f) < (of_nat ?n :: u64)" using b(3) n by (simp add: word_less_nat_alt unat_size)
  let ?c = "c\<lparr>wc_backend := (wc_backend c)\<lparr>wb_log := wb_log (wc_backend c) @ [Get_Buffer_Available]\<rparr>\<rparr>"
  have "push_round env c = Inr (?c, ?a)"
    using a b f0 less keep_leftover_stuck [OF assms(1,2) b(3,4) assms(5) refl a(2,3)]
    by (simp add: push_round_def web_call_do_player fw write_frames_def Let_def del: min_less_iff_conj)
  with b a(2) show ?thesis by (auto simp: stuck_def)
qed

lemma push_loop_stuck:
  assumes "resize_rejects cap env" "cap \<le> 2 ^ 31"
  shows "push_loop env c = Some r \<Longrightarrow> always_room (m_frameSize c) (we_player env) \<longrightarrow> unat (m_frameSize c) \<le> cap \<longrightarrow> \<not> stuck c"
proof (rule push_loop.raw_induct [where P = "\<lambda>env' c r. env' = env \<longrightarrow> always_room (m_frameSize c) (we_player env) \<longrightarrow> unat (m_frameSize c) \<le> cap \<longrightarrow> \<not> stuck c",
      THEN mp, OF _ _ refl])
  fix loop env' c r
  assume IH: "\<And>env' c r. loop env' c = Some r \<Longrightarrow> env' = env \<longrightarrow> always_room (m_frameSize c) (we_player env) \<longrightarrow> unat (m_frameSize c) \<le> cap \<longrightarrow> \<not> stuck c"
    and r: "(case push_round env' c of Inl e \<Rightarrow> Some (Inl e)
      | Inr (c, availableFrames) \<Rightarrow>
          if m_dataBuffers c \<noteq> [] \<and> availableFrames \<noteq> 0 then loop env' c else Some (Inr c)) = Some r"
  show "env' = env \<longrightarrow> always_room (m_frameSize c) (we_player env) \<longrightarrow> unat (m_frameSize c) \<le> cap \<longrightarrow> \<not> stuck c"
  proof (intro impI notI)
    assume "env' = env" "always_room (m_frameSize c) (we_player env)" "unat (m_frameSize c) \<le> cap" "stuck c"
    with push_round_stuck [OF assms, of c] obtain c' avail where "push_round env' c = Inr (c', avail)" "avail \<noteq> 0"
      "stuck c'" "m_frameSize c' = m_frameSize c" by blast
    moreover from this have "m_dataBuffers c' \<noteq> []" by (auto simp: stuck_def)
    ultimately show False using IH [of env' c'] r \<open>env' = env\<close> \<open>always_room (m_frameSize c) (we_player env)\<close>
        \<open>unat (m_frameSize c) \<le> cap\<close> by simp
  qed
qed

text \<open>
  C24. A leftover of less than a frame hangs the event loop. If the only buffer of an open client ends
  with less than a frame and the player always has room, \<open>notifyNewSample\<close> never returns: the size of
  the leftover wraps around, \<open>gst_buffer_resize\<close> refuses it, and the loop goes on with the same buffer.
\<close>

theorem leftover_never_returns:
  assumes "resize_rejects cap env" "cap \<le> 2 ^ 31" "unat (m_frameSize c) \<le> cap" "always_room (m_frameSize c) (we_player env)"
    and "m_isOpen c" "wb_player (wc_backend c)" "m_dataBuffers c = []" "\<not> in_callback c"
    and "wbuf_refs b \<noteq> 0" "0 < length (mem_bytes (wbuf_mem b))" "length (mem_bytes (wbuf_mem b)) < unat (m_frameSize c)"
  shows "notifyNewSample env (Some b) c = None"
proof -
  let ?c = "c\<lparr>m_pushSamplesTimer := None, m_dataBuffers := [b]\<rparr>"
  have "stuck ?c" using assms(6,9-11) by (simp add: stuck_def)
  then have "push_loop env ?c = None"
    using push_loop_stuck [OF assms(1,2), of ?c] assms(3,4) by (cases "push_loop env ?c") auto
  then show ?thesis
    using assms(5,7,8) by (simp add: notifyNewSample_def set_push_timer_cases returns_true_def pushSamples_def)
qed

theorem leftover_never_returns_witness:
  "notifyNewSample (gst_env (\<lambda>_ _. \<lparr>wa_ok = True, wa_frames = 3, wa_device = None, wa_volume = 0\<rparr>)) (Some (bytes_buffer [1,2])) opened = None"
proof -
  let ?pl = "\<lambda>_ _. \<lparr>wa_ok = True, wa_frames = 3, wa_device = None, wa_volume = 0\<rparr>"
  show ?thesis
    by (rule leftover_never_returns [where cap = 4])
      (simp_all add: resize_rejects_def always_room_def opened_def new_web_client_def in_callback_def bytes_buffer_def gst_env_def Let_def)
qed

section \<open>The expired timer\<close>

text \<open>
  \<open>join_timer\<close> against the timer's own steps: after \<open>doCancel\<close> the thread of a timer can end without
  leaving its callback exactly if it is neither in it nor bound to call it.
\<close>

lemma inactive_timer_ends:
  "\<not> tm_active t \<Longrightarrow> tm_pc t \<noteq> Calling \<Longrightarrow> tm_pc t \<noteq> In_Callback \<Longrightarrow> \<exists>t'. timer_waits\<^sup>*\<^sup>* t t' \<and> tm_pc t' = Ended"
proof (induction "timer_rank (tm_pc t)" arbitrary: t rule: less_induct)
  case less
  show ?case
  proof (cases "tm_pc t = Ended")
    case False
    then obtain t1 where t1: "timer_thread t t1" using timer_thread_progress by blast
    have "tm_pc t1 \<noteq> Calling" "tm_pc t1 \<noteq> In_Callback" using less.prems t1 by (auto elim: timer_thread.cases)
    with less.hyps timer_thread_rank [OF t1 less.prems(1)] obtain t' where "timer_waits\<^sup>*\<^sup>* t1 t'" "tm_pc t' = Ended" by blast
    moreover have "timer_waits t t1" using t1 less.prems(3) by (simp add: timer_waits_def)
    ultimately show ?thesis by (blast intro: converse_rtranclp_into_rtranclp)
  qed blast
qed

lemma join_timer_iff:
  "join_timer (Some t) = Inr () \<longleftrightarrow> (\<exists>t'. timer_waits\<^sup>*\<^sup>* (doCancel False t) t' \<and> tm_pc t' = Ended)"
proof (cases "tm_pc t = Calling \<or> tm_pc t = In_Callback")
  case True
  have "tm_pc t' = Calling \<or> tm_pc t' = In_Callback" if "timer_waits\<^sup>*\<^sup>* (doCancel False t) t'" for t'
    using that by (induction rule: rtranclp_induct) (auto simp: timer_waits_def True elim: timer_thread.cases)
  with True show ?thesis by (fastforce simp: join_timer_def)
next
  case False
  then show ?thesis using inactive_timer_ends [of "doCancel False t"] by (simp add: join_timer_def)
qed

text \<open>
  C23. The push timer deadlocks the event loop. Once the timer has expired with samples queued, its
  thread waits for the event loop. If the player still has no room, the event loop replaces the timer
  and thereby joins that thread, which cannot end; a new sample or a \<open>close\<close> that comes first joins it
  as well.
\<close>

theorem push_timer_deadlocks:
  assumes "m_isOpen c" "wb_player (wc_backend c)" "m_dataBuffers c \<noteq> []" "m_pushSamplesTimer c = Some t" "tm_pc t = In_Callback"
    and "let a = we_player env (wb_log (wc_backend c)) Get_Buffer_Available in wa_ok a \<and> wa_frames a = 0"
  shows "notifyPushSamplesTimerExpired env c = Some (Inl Deadlock) \<and> notifyNewSample env (Some b) c = Some (Inl Deadlock) \<and>
    web_close c = Inl Deadlock \<and> (\<nexists>t'. timer_waits\<^sup>*\<^sup>* (doCancel False t) t' \<and> tm_pc t' = Ended)"
proof -
  have "push_loop env c = Some (Inr (c\<lparr>wc_backend := (wc_backend c)\<lparr>wb_log := wb_log (wc_backend c) @ [Get_Buffer_Available]\<rparr>\<rparr>))"
    using assms(2,6) by (subst push_loop.simps) (simp add: push_round_def web_call_do_player Let_def)
  with assms(1,3-5) have "notifyPushSamplesTimerExpired env c = Some (Inl Deadlock)"
    by (simp add: notifyPushSamplesTimerExpired_def pushSamples_def after_push_def set_push_timer_cases in_callback_def)
  moreover have "join_timer (Some t) \<noteq> Inr ()" using assms(5) by (simp add: join_timer_def)
  ultimately show ?thesis
    using assms(4,5) join_timer_iff by (simp add: notifyNewSample_def web_close_def set_push_timer_cases in_callback_def)
qed

definition no_room :: web_player where
  "no_room log call = \<lparr>wa_ok = True, wa_frames = 0, wa_device = None, wa_volume = 0\<rparr>"

definition waiting_client :: web_client where
  "waiting_client = opened\<lparr>wc_backend := (wc_backend opened)\<lparr>wb_log := wb_log (wc_backend opened) @ [Get_Buffer_Available]\<rparr>,
     m_dataBuffers := [bytes_buffer [1,2,3,4]], m_pushSamplesTimer := Some (timer_create ONE_SHOT True)\<rparr>"

theorem push_timer_deadlocks_witness:
  "notifyNewSample (gst_env no_room) (Some (bytes_buffer [1,2,3,4])) opened = Some (Inr (waiting_client, True)) \<and>
   notifyPushSamplesTimerExpired (gst_env no_room) (timer_expires waiting_client) = Some (Inl Deadlock)"
proof
  show "notifyNewSample (gst_env no_room) (Some (bytes_buffer [1,2,3,4])) opened = Some (Inr (waiting_client, True))"
    by (simp add: notifyNewSample_def set_push_timer_cases in_callback_def returns_true_def pushSamples_def push_loop.simps
        push_round_def web_call_do_player after_push_def opened_def new_web_client_def waiting_client_def gst_env_def no_room_def Let_def)
  show "notifyPushSamplesTimerExpired (gst_env no_room) (timer_expires waiting_client) = Some (Inl Deadlock)"
    using push_timer_deadlocks [where c = "timer_expires waiting_client" and env = "gst_env no_room"]
    by (simp add: timer_expires_def waiting_client_def timer_create_def opened_def new_web_client_def gst_env_def no_room_def)
qed

section \<open>No null pointers\<close>

text \<open>What can happen to a client, in any order; \<open>Expire\<close> and \<open>Callback\<close> are the timer's thread.\<close>

datatype web_action =
  Open gst_structure | Close | Play | Pause | Set_Eos | New_Sample "web_buffer option" | Expire | Callback | Notify web_state

definition drop_flag :: "(web_client \<times> bool) result \<Rightarrow> web_client result" where
  "drop_flag r = bind_result r (\<lambda>(c, _). Inr c)"

fun web_act :: "web_env \<Rightarrow> web_action \<Rightarrow> web_client \<Rightarrow> web_client result option" where
  "web_act env (Open st) c = Some (drop_flag (web_open env st c))"
| "web_act env Close c = Some (drop_flag (web_close c))"
| "web_act env Play c = Some (drop_flag (web_play env c))"
| "web_act env Pause c = Some (drop_flag (web_pause env c))"
| "web_act env Set_Eos c = map_option drop_flag (web_setEos env c)"
| "web_act env (New_Sample b) c = map_option drop_flag (notifyNewSample env b c)"
| "web_act env Expire c = Some (Inr (timer_expires c))"
| "web_act env Callback c = (if in_callback c then notifyPushSamplesTimerExpired env c else Some (Inr c))"
| "web_act env (Notify st) c = Some (Inr (fst (notifyState st c)))"

fun web_run :: "web_env \<Rightarrow> web_action list \<Rightarrow> web_client \<Rightarrow> web_client result option" where
  "web_run env [] c = Some (Inr c)"
| "web_run env (a # as) c =
     (case web_act env a c of None \<Rightarrow> None | Some (Inl e) \<Rightarrow> Some (Inl e) | Some (Inr c) \<Rightarrow> web_run env as c)"

definition sound :: "('a \<Rightarrow> bool) \<Rightarrow> 'a result \<Rightarrow> bool" where
  "sound P r = (case r of Inl e \<Rightarrow> e \<noteq> Null_Deref \<and> e \<noteq> Out_Of_Range | Inr x \<Rightarrow> P x)"

lemma sound_simps [simp]: "sound P (Inr x) = P x" "sound P (Inl e) \<longleftrightarrow> e \<noteq> Null_Deref \<and> e \<noteq> Out_Of_Range"
  by (simp_all add: sound_def)

lemma sound_bind: "sound P r \<Longrightarrow> (\<And>x. P x \<Longrightarrow> sound Q (h x)) \<Longrightarrow> sound Q (bind_result r h)"
  by (cases r) simp_all

definition client_sound :: "web_client \<Rightarrow> bool" where
  "client_sound c \<longleftrightarrow> m_isOpen c = wb_player (wc_backend c)"

lemma push_round_sound:
  assumes "wb_player (wc_backend c)" "m_dataBuffers c \<noteq> []"
  shows "sound (\<lambda>(c', _). push_frame c c') (push_round env c)"
  using assms
  by (cases "m_dataBuffers c")
    (auto simp: push_round_def web_call_do_player write_frames_def push_frame_def Let_def)

lemma push_loop_sound:
  "push_loop env c = Some r \<Longrightarrow> wb_player (wc_backend c) \<longrightarrow> m_dataBuffers c \<noteq> [] \<longrightarrow> sound (push_frame c) r"
proof (rule push_loop.raw_induct [where P = "\<lambda>env c r. wb_player (wc_backend c) \<longrightarrow> m_dataBuffers c \<noteq> [] \<longrightarrow> sound (push_frame c) r"])
  fix loop env c r
  assume IH: "\<And>env c r. loop env c = Some r \<Longrightarrow> wb_player (wc_backend c) \<longrightarrow> m_dataBuffers c \<noteq> [] \<longrightarrow> sound (push_frame c) r"
    and r: "(case push_round env c of Inl e \<Rightarrow> Some (Inl e)
      | Inr (c, availableFrames) \<Rightarrow>
          if m_dataBuffers c \<noteq> [] \<and> availableFrames \<noteq> 0 then loop env c else Some (Inr c)) = Some r"
  show "wb_player (wc_backend c) \<longrightarrow> m_dataBuffers c \<noteq> [] \<longrightarrow> sound (push_frame c) r"
  proof (intro impI)
    assume c: "wb_player (wc_backend c)" "m_dataBuffers c \<noteq> []"
    note round = push_round_sound [OF c, of env]
    show "sound (push_frame c) r"
    proof (cases "push_round env c")
      case (Inl e)
      with r round show ?thesis by auto
    next
      case (Inr x)
      then obtain c1 avail where x: "push_round env c = Inr (c1, avail)" "push_frame c c1" using round by (cases x) simp
      show ?thesis
      proof (cases "m_dataBuffers c1 \<noteq> [] \<and> avail \<noteq> 0")
        case True
        with IH [of env c1 r] r x c(1) have "sound (push_frame c1) r" by (simp add: push_frame_def)
        with x(2) show ?thesis by (cases r) (simp_all add: push_frame_def)
      next
        case False
        with r x show ?thesis by auto
      qed
    qed
  qed
qed

lemma sound_drop_flag: "sound (\<lambda>(c, _). P c) r \<Longrightarrow> sound P (drop_flag r)"
  by (cases r) (auto simp: drop_flag_def)

lemma after_push_sound: "wb_player (wc_backend c) \<Longrightarrow> m_isOpen c \<Longrightarrow> sound client_sound (after_push env c)"
  by (simp add: after_push_def set_push_timer_cases web_call_do_player client_sound_def)

lemma pushSamples_sound:
  assumes "client_sound c" "pushSamples env c = Some r"
  shows "sound client_sound r"
proof (cases "m_isOpen c \<and> m_dataBuffers c \<noteq> []")
  case False
  with assms show ?thesis by (auto simp: pushSamples_def)
next
  case True
  with assms obtain l where l: "push_loop env c = Some l" "r = bind_result l (after_push env)"
    by (auto simp: pushSamples_def)
  have "sound (push_frame c) l" using push_loop_sound [OF l(1)] True assms(1) by (simp add: client_sound_def)
  moreover have "wb_player (wc_backend c)" "m_isOpen c" using True assms(1) by (simp_all add: client_sound_def)
  ultimately show ?thesis
    unfolding l(2) by (auto elim!: sound_bind intro!: after_push_sound simp: push_frame_def)
qed

lemma returns_true_sound:
  assumes "client_sound c" "returns_true (pushSamples env c) = Some r"
  shows "sound (\<lambda>(c, _). client_sound c) r"
proof -
  obtain l where l: "pushSamples env c = Some l" "r = bind_result l (\<lambda>c. Inr (c, True))"
    using assms(2) by (auto simp: returns_true_def)
  show ?thesis unfolding l(2) using pushSamples_sound [OF assms(1) l(1)] by (rule sound_bind) simp
qed

lemma forward_sound: "client_sound c \<Longrightarrow> sound (\<lambda>(c, _). client_sound c) (forward_if_open env call c)"
  by (simp add: forward_if_open_def web_call_do_player client_sound_def)

lemma open_sound:
  assumes "client_sound c" "gst_name st \<noteq> None"
  shows "sound (\<lambda>(c, _). client_sound c) (web_open env st c)"
proof -
  have "sound (\<lambda>(c, _). client_sound c) (open_body env m p c)" for m p
    using assms(1)
    by (auto simp: open_body_def client_sound_def createWebAudioBackend_def destroyWebAudioBackend_def web_call_do_player
        store_device_info_def Let_def split: option.split)
  with assms show ?thesis by (auto simp: web_open_def Let_def split: option.split)
qed

lemma setEos_sound:
  assumes "client_sound c" "web_setEos env c = Some r"
  shows "sound (\<lambda>(c, _). client_sound c) r"
proof (cases "m_isOpen c \<and> \<not> wc_isEos c \<and> m_dataBuffers c \<noteq> []")
  case False
  with assms show ?thesis
    by (auto simp: web_setEos_def Let_def web_call_do_player client_sound_def split: if_splits)
next
  case True
  with assms returns_true_sound [of "c\<lparr>wc_isEos := True\<rparr>" env r] show ?thesis
    by (simp add: web_setEos_def Let_def client_sound_def)
qed

lemma new_sample_sound:
  assumes "client_sound c" "notifyNewSample env b c = Some r"
  shows "sound (\<lambda>(c, _). client_sound c) r"
proof (cases b)
  case (Some buf)
  with assms returns_true_sound [of "c\<lparr>m_pushSamplesTimer := None, m_dataBuffers := m_dataBuffers c @ [buf]\<rparr>" env r] show ?thesis
    by (auto simp: notifyNewSample_def set_push_timer_cases client_sound_def split: if_splits)
qed (use assms in \<open>auto simp: notifyNewSample_def\<close>)

lemma callback_sound:
  assumes "client_sound c" "notifyPushSamplesTimerExpired env c = Some r"
  shows "sound client_sound r"
proof -
  obtain l where l: "pushSamples env c = Some l" "r = bind_result l (\<lambda>c. Inr (callback_ends c))"
    using assms(2) by (auto simp: notifyPushSamplesTimerExpired_def)
  show ?thesis
    unfolding l(2) using pushSamples_sound [OF assms(1) l(1)] by (rule sound_bind) (simp add: callback_ends_def client_sound_def)
qed

fun has_name :: "web_action \<Rightarrow> bool" where
  "has_name (Open st) = (gst_name st \<noteq> None)"
| "has_name _ = True"

lemma web_act_sound:
  assumes "client_sound c" "has_name a" "web_act env a c = Some r"
  shows "sound client_sound r"
proof (cases a)
  case (Open st)
  with assms show ?thesis by (auto intro: sound_drop_flag open_sound)
next
  case Close
  with assms show ?thesis
    by (auto simp: web_close_def set_push_timer_cases drop_flag_def client_sound_def destroyWebAudioBackend_def)
next
  case Play
  with assms show ?thesis by (auto simp: web_play_def intro: sound_drop_flag forward_sound)
next
  case Pause
  with assms show ?thesis by (auto simp: web_pause_def intro: sound_drop_flag forward_sound)
next
  case Set_Eos
  with assms show ?thesis by (auto intro: sound_drop_flag setEos_sound)
next
  case (New_Sample b)
  with assms show ?thesis by (auto intro: sound_drop_flag new_sample_sound)
next
  case Expire
  with assms show ?thesis by (auto simp: timer_expires_def client_sound_def split: option.split)
next
  case Callback
  with assms show ?thesis by (auto intro: callback_sound split: if_splits)
next
  case (Notify st)
  with assms show ?thesis by (auto simp: notifyState_def client_sound_def split: web_state.split)
qed

text \<open>
  The web audio client never uses a player it does not have. Whatever happens to a client, in any
  order, it dereferences no null pointer and takes no buffer from an empty queue, and it has a player
  exactly while it is open. (An operation may still not return, or end in another fault.)
\<close>

theorem web_client_has_player:
  assumes "list_all has_name as" "web_run env as (new_web_client callbacks) = Some r"
  shows "r \<noteq> Inl Null_Deref \<and> r \<noteq> Inl Out_Of_Range \<and> (\<forall>c. r = Inr c \<longrightarrow> m_isOpen c = wb_player (wc_backend c))"
proof -
  have run: "sound client_sound r" if "web_run env as c = Some r" "client_sound c" "list_all has_name as" for as c
    using that
  proof (induction as arbitrary: c)
    case (Cons a as)
    then obtain x where x: "web_act env a c = Some x" by (auto split: option.splits)
    have "sound client_sound x" using web_act_sound [OF _ _ x] Cons.prems by simp
    with Cons x show ?case by (cases x) auto
  qed auto
  have "client_sound (new_web_client callbacks)" by (simp add: client_sound_def new_web_client_def)
  from run [OF assms(2) this assms(1)] show ?thesis by (auto simp: sound_def client_sound_def)
qed

lemmas open_simps = web_open_def stereo_caps_def empty_structure_def parseGstStructureFormat_def strtoul_def skip_sign_def
  is_space_def is_digit_def decimal_value_def open_body_def createWebAudioBackend_def web_call_do_player
  store_device_info_def new_web_client_def no_config_def

definition session :: "web_action list" where
  "session = [Open stereo_caps, New_Sample (Some (bytes_buffer [1,2,3,4])), Play, Notify WEB_PLAYING, Close, Pause]"

definition all_callbacks :: web_callbacks where
  "all_callbacks = \<lparr>errorCallback = True, eosCallback = True, stateChangedCallback = True\<rparr>"

lemma session_result:
  "\<exists>c. web_run (gst_env no_room) session (new_web_client all_callbacks) = Some (Inr c) \<and> \<not> m_isOpen c \<and> length (m_dataBuffers c) = 1"
  by (simp add: session_def drop_flag_def open_simps gst_env_def no_room_def notifyNewSample_def set_push_timer_cases in_callback_def
      returns_true_def pushSamples_def push_loop.simps push_round_def after_push_def web_play_def web_pause_def forward_if_open_def
      notifyState_def web_close_def destroyWebAudioBackend_def timer_create_def Let_def)

theorem web_client_has_player_witness:
  "\<exists>c. web_run (gst_env no_room) session (new_web_client all_callbacks) = Some (Inr c) \<and>
     \<not> m_isOpen c \<and> \<not> wb_player (wc_backend c) \<and> length (m_dataBuffers c) = 1"
proof -
  have "list_all has_name session" by (simp add: session_def stereo_caps_def empty_structure_def)
  from web_client_has_player [OF this] session_result show ?thesis by blast
qed

section \<open>The format of the caps\<close>

definition format_text :: "bool \<Rightarrow> bool \<Rightarrow> nat \<Rightarrow> bool \<Rightarrow> string" where
  "format_text isSigned isFloat sampleSize isBigEndian =
     [if isFloat then CHR ''F'' else if isSigned then CHR ''S'' else CHR ''U'', digit_char (sampleSize div 10),
      digit_char (sampleSize mod 10)] @ (if isBigEndian then ''BE'' else ''LE'')"

text \<open>
  The sample formats of raw audio are read back as they are named: \<open>S\<close>, \<open>U\<close> or \<open>F\<close> for signed,
  unsigned or float samples, two digits for their size in bits, and the byte order. A format of
  another length, such as \<open>S8\<close>, or of another kind, is refused.
\<close>

theorem format_roundtrip:
  "(\<forall>n s f e. n < 100 \<and> (f \<longrightarrow> \<not> s) \<longrightarrow> parseGstStructureFormat (format_text s f n e) = Some (of_nat n, e, s, f)) \<and>
   (\<forall>t. length t \<noteq> 5 \<or> t ! 0 \<notin> {CHR ''S'', CHR ''U'', CHR ''F''} \<longrightarrow> parseGstStructureFormat t = None)"
proof (intro conjI allI impI)
  fix n :: nat and s f e
  assume a: "n < 100 \<and> (f \<longrightarrow> \<not> s)"
  let ?ds = "[digit_char (n div 10), digit_char (n mod 10)]"
  have d: "n div 10 < 10" "n mod 10 < 10" using a by auto
  then have v: "decimal_value ?ds = n" by (simp add: decimal_value_def of_digit_char)
  have "strtoul ?ds = (of_nat n, [], False)"
    using strtoul_digits [of ?ds] a d unfolding v by (simp add: is_digit_digit_char)
  moreover have "(ucast (of_nat n :: u64) :: u32) = of_nat n"
    using take_bit_nat_eq_self [of n 64] a by (simp add: unsigned_of_nat)
  ultimately show "parseGstStructureFormat (format_text s f n e) = Some (of_nat n, e, s, f)"
    using a by (auto simp: parseGstStructureFormat_def format_text_def numeral_2_eq_2 numeral_3_eq_3)
next
  fix t :: string
  assume "length t \<noteq> 5 \<or> t ! 0 \<notin> {CHR ''S'', CHR ''U'', CHR ''F''}"
  then show "parseGstStructureFormat t = None"
    by (auto simp: parseGstStructureFormat_def split: prod.split)
qed

theorem format_roundtrip_witness:
  "parseGstStructureFormat ''F32BE'' = Some (32, True, False, True) \<and> parseGstStructureFormat ''U8'' = None"
proof -
  have "parseGstStructureFormat (format_text False True 32 True) = Some (of_nat 32, True, False, True)"
    by (rule conjunct1 [OF format_roundtrip, rule_format]) simp
  moreover have "format_text False True 32 True = ''F32BE''" by code_simp
  moreover have "parseGstStructureFormat ''U8'' = None" by (rule conjunct2 [OF format_roundtrip, rule_format]) simp
  ultimately show ?thesis by simp
qed

section \<open>Two more faults\<close>

definition one_frame :: web_player where
  "one_frame log call = \<lparr>wa_ok = True, wa_frames = 1, wa_device = None, wa_volume = 0\<rparr>"

text \<open>
  Six bytes and then four, with frames of four bytes and room for one frame: the two bytes left over are
  merged with the next buffer, the result is released, and the next round uses it.
\<close>

lemma merged_buffer_is_freed:
  "pushSamples (gst_env one_frame) (opened\<lparr>m_dataBuffers := [bytes_buffer [1,2,3,4,5,6], bytes_buffer [7,8,9,10]]\<rparr>) =
     Some (Inl Use_After_Free)"
  by (simp add: pushSamples_def push_loop.simps push_round_def web_call_do_player write_frames_def keep_leftover_def
      gst_env_def one_frame_def opened_def new_web_client_def bytes_buffer_def Let_def)

text \<open>Mono samples of four bits: a frame has no byte, and the first sample divides by zero.\<close>

definition small_caps :: gst_structure where
  "small_caps = (empty_structure ''audio/x-raw'')\<lparr>gst_string := [''format'' \<mapsto> ''S04LE''],
     gst_int := [''rate'' \<mapsto> 8000, ''channels'' \<mapsto> 1]\<rparr>"

lemma small_frames_divide_by_zero:
  "web_run (gst_env one_frame) [Open small_caps, New_Sample (Some (bytes_buffer [1,2]))] (new_web_client all_callbacks) =
     Some (Inl Div_By_Zero)"
  by (simp add: drop_flag_def open_simps small_caps_def gst_env_def one_frame_def notifyNewSample_def set_push_timer_cases
      in_callback_def returns_true_def pushSamples_def push_loop.simps push_round_def bytes_buffer_def Let_def)

end
