(* ===== verification/Web_Audio_Sink.thy ===== *)
theory Web_Audio_Sink
  imports Web_Audio_Client Base_Sink
begin

text \<open>
  The web audio sink, \<open>RialtoGStreamerWebAudioSink.cpp\<close>: a GStreamer element with a web audio client, a
  control client, and a flag that remembers that it was asked to play before it knew the caps. Its
  operations are functions on its state; those that end in the push loop of the client may not return.
  What the parent class does with an element is an argument.
\<close>

section \<open>State\<close>

record web_sink =
  ws_element :: gst_element
  ws_sinkPad :: bool
  m_webAudioClient :: "web_client option"
  m_rialtoControlClient :: "control_backend option"
  m_isPlayingDelayed :: bool
  ws_isStateCommitNeeded :: bool

record web_sink_env =
  wse_client :: web_env
  wse_parent_change :: "gst_state_change \<Rightarrow> gst_element \<Rightarrow> gst_element \<times> gst_state_change_return"
  wse_parent_send_event :: "gst_element \<Rightarrow> gst_element \<times> bool"
  wse_event_default :: "gst_element \<Rightarrow> gst_element \<times> bool"

definition web_post :: "bus_message \<Rightarrow> web_sink \<Rightarrow> web_sink" where
  "web_post msg s = s\<lparr>ws_element := (ws_element s)\<lparr>el_bus := el_bus (ws_element s) @ [msg]\<rparr>\<rparr>"

definition rialto_web_audio_async_start :: "web_sink \<Rightarrow> web_sink" where
  "rialto_web_audio_async_start s = web_post Async_Start (s\<lparr>ws_isStateCommitNeeded := True\<rparr>)"

definition rialto_web_audio_async_done :: "web_sink \<Rightarrow> web_sink" where
  "rialto_web_audio_async_done s = web_post Async_Done (s\<lparr>ws_isStateCommitNeeded := False\<rparr>)"

section \<open>Callbacks of the client\<close>

definition rialto_web_audio_sink_eos_handler :: "web_sink \<Rightarrow> web_sink" where
  "rialto_web_audio_sink_eos_handler s =
     (let currentState = el_state (ws_element s)
      in if currentState \<noteq> GST_STATE_PAUSED \<and> currentState \<noteq> GST_STATE_PLAYING
         then web_post (Error_Message ''Web audio sink received EOS in non-playing state'') s
         else web_post Eos_Message s)"

definition rialto_web_audio_sink_error_handler :: "string \<Rightarrow> web_sink \<Rightarrow> web_sink" where
  "rialto_web_audio_sink_error_handler msg s = web_post (Error_Message msg) s"

definition rialto_web_audio_sink_rialto_state_changed_handler :: "web_state \<Rightarrow> web_sink \<Rightarrow> web_sink" where
  "rialto_web_audio_sink_rialto_state_changed_handler state s =
     (let e = ws_element s; current = el_state e; nxt = el_next e; pending = el_pending e
      in if ws_isStateCommitNeeded s \<and>
            (state = WEB_PAUSED \<and> nxt = GST_STATE_PAUSED \<or> state = WEB_PLAYING \<and> nxt = GST_STATE_PLAYING)
         then (let postNext = (if nxt = pending then GST_STATE_VOID_PENDING else pending);
                   s = s\<lparr>ws_element := e\<lparr>el_state := nxt, el_next := postNext,
                         el_pending := GST_STATE_VOID_PENDING, el_return := GST_STATE_CHANGE_SUCCESS\<rparr>\<rparr>
               in rialto_web_audio_async_done (web_post (State_Changed current nxt pending) s))
         else s)"

fun run_callback :: "web_callback \<Rightarrow> web_sink \<Rightarrow> web_sink" where
  "run_callback Eos_Callback s = rialto_web_audio_sink_eos_handler s"
| "run_callback (State_Changed_Callback st) s = rialto_web_audio_sink_rialto_state_changed_handler st s"
| "run_callback (Error_Callback msg) s = rialto_web_audio_sink_error_handler msg s"

text \<open>A notification of the server: the client calls back into the sink.\<close>

definition server_notifies :: "web_state \<Rightarrow> web_sink \<Rightarrow> web_sink" where
  "server_notifies st s =
     (case m_webAudioClient s of
        None \<Rightarrow> s
      | Some c \<Rightarrow>
         (let (c, cb) = notifyState st c; s = s\<lparr>m_webAudioClient := Some c\<rparr>
          in case cb of None \<Rightarrow> s | Some cb \<Rightarrow> run_callback cb s))"

section \<open>Calls on the client\<close>

definition call_web_client :: "(web_client \<Rightarrow> (web_client \<times> 'a) result) \<Rightarrow> web_sink \<Rightarrow> (web_sink \<times> 'a) result" where
  "call_web_client f s =
     (case m_webAudioClient s of
        None \<Rightarrow> Inl Null_Deref
      | Some c \<Rightarrow> bind_result (f c) (\<lambda>(c, x). Inr (s\<lparr>m_webAudioClient := Some c\<rparr>, x)))"

definition call_web_client_loop ::
  "(web_client \<Rightarrow> (web_client \<times> 'a) result option) \<Rightarrow> web_sink \<Rightarrow> (web_sink \<times> 'a) result option" where
  "call_web_client_loop f s =
     (case m_webAudioClient s of
        None \<Rightarrow> Some (Inl Null_Deref)
      | Some c \<Rightarrow> map_option (\<lambda>r. bind_result r (\<lambda>(c, x). Inr (s\<lparr>m_webAudioClient := Some c\<rparr>, x))) (f c))"

section \<open>State changes\<close>

text \<open>\<open>play\<close> or \<open>pause\<close>, and the start of the asynchronous change if it succeeded.\<close>

definition change_by :: "(web_client \<Rightarrow> (web_client \<times> bool) result) \<Rightarrow> web_sink \<Rightarrow> (web_sink \<times> gst_state_change_return) result" where
  "change_by f s =
     bind_result (call_web_client f s) (\<lambda>(s, ok).
       if \<not> ok then Inr (s, GST_STATE_CHANGE_FAILURE)
       else Inr (rialto_web_audio_async_start s, GST_STATE_CHANGE_ASYNC))"

definition web_change_state_switch ::
  "web_sink_env \<Rightarrow> application_state list \<Rightarrow> gst_state_change \<Rightarrow> web_sink \<Rightarrow> (web_sink \<times> gst_state_change_return) result" where
  "web_change_state_switch env arriving transition s =
     (case transition of
        NULL_TO_READY \<Rightarrow>
          (case m_rialtoControlClient s of
             None \<Rightarrow> Inl Null_Deref
           | Some ctl \<Rightarrow>
              (let (running, ctl) = waitForRunning arriving ctl
               in Inr (s\<lparr>m_rialtoControlClient := Some ctl\<rparr>,
                    if running then GST_STATE_CHANGE_SUCCESS else GST_STATE_CHANGE_FAILURE)))
      | PAUSED_TO_PLAYING \<Rightarrow>
          bind_result (call_web_client web_isOpen s) (\<lambda>(s, is_open).
            if \<not> is_open
            then Inr (rialto_web_audio_async_start (s\<lparr>m_isPlayingDelayed := True\<rparr>), GST_STATE_CHANGE_ASYNC)
            else change_by (web_play (wse_client env)) s)
      | PLAYING_TO_PAUSED \<Rightarrow> change_by (web_pause (wse_client env)) s
      | PAUSED_TO_READY \<Rightarrow>
          bind_result (call_web_client web_close s) (\<lambda>(s, ok).
            Inr (s, if ok then GST_STATE_CHANGE_SUCCESS else GST_STATE_CHANGE_FAILURE))
      | READY_TO_NULL \<Rightarrow>
          (case m_rialtoControlClient s of
             None \<Rightarrow> Inl Null_Deref
           | Some ctl \<Rightarrow> Inr (s\<lparr>m_rialtoControlClient := Some (removeControlBackend ctl)\<rparr>, GST_STATE_CHANGE_SUCCESS))
      | _ \<Rightarrow> Inr (s, GST_STATE_CHANGE_SUCCESS))"

definition rialto_web_audio_sink_change_state ::
  "web_sink_env \<Rightarrow> application_state list \<Rightarrow> gst_state_change \<Rightarrow> web_sink \<Rightarrow> (web_sink \<times> gst_state_change_return) result" where
  "rialto_web_audio_sink_change_state env arriving transition s =
     bind_result (web_change_state_switch env arriving transition s) (\<lambda>(s, result).
       if result = GST_STATE_CHANGE_SUCCESS
       then (let (el, stateChangeRet) = wse_parent_change env transition (ws_element s); s = s\<lparr>ws_element := el\<rparr>
             in Inr (s, if stateChangeRet = GST_STATE_CHANGE_FAILURE then stateChangeRet else result))
       else Inr (s, result))"

section \<open>Events, samples and properties\<close>

datatype web_event = WEB_EVENT_EOS | WEB_EVENT_CAPS gst_structure | WEB_EVENT_OTHER

definition rialto_web_audio_sink_send_event :: "web_sink_env \<Rightarrow> web_sink \<Rightarrow> web_sink \<times> bool" where
  "rialto_web_audio_sink_send_event env s =
     (let (el, ok) = wse_parent_send_event env (ws_element s) in (s\<lparr>ws_element := el\<rparr>, ok))"

definition web_caps_event :: "web_sink_env \<Rightarrow> gst_structure \<Rightarrow> web_sink \<Rightarrow> (web_sink \<times> bool) result" where
  "web_caps_event env caps s =
     bind_result (call_web_client (web_open (wse_client env) caps) s) (\<lambda>(s, ok).
       if \<not> ok then Inr (s, False)
       else if m_isPlayingDelayed s
       then bind_result (call_web_client (web_play (wse_client env)) s) (\<lambda>(s, ok).
              if \<not> ok then Inr (s, False) else Inr (s\<lparr>m_isPlayingDelayed := False\<rparr>, True))
       else Inr (s, True))"

definition rialto_web_audio_sink_event :: "web_sink_env \<Rightarrow> web_event \<Rightarrow> web_sink \<Rightarrow> (web_sink \<times> bool) result option" where
  "rialto_web_audio_sink_event env event s =
     (case event of
        WEB_EVENT_EOS \<Rightarrow> call_web_client_loop (web_setEos (wse_client env)) s
      | WEB_EVENT_CAPS caps \<Rightarrow> Some (web_caps_event env caps s)
      | WEB_EVENT_OTHER \<Rightarrow>
          (let (el, ok) = wse_event_default env (ws_element s) in Some (Inr (s\<lparr>ws_element := el\<rparr>, ok))))"

definition rialto_web_audio_sink_chain ::
  "web_sink_env \<Rightarrow> web_buffer option \<Rightarrow> web_sink \<Rightarrow> (web_sink \<times> gst_flow_return) result option" where
  "rialto_web_audio_sink_chain env buf s =
     map_option (\<lambda>r. bind_result r (\<lambda>(s, res). Inr (s, if res then GST_FLOW_OK else GST_FLOW_ERROR)))
       (call_web_client_loop (notifyNewSample (wse_client env) buf) s)"

datatype web_prop = PROP_TS_OFFSET | WEB_PROP_INVALID

text \<open>\<open>ts-offset\<close> is accepted and ignored: no value is written or read.\<close>

fun rialto_web_audio_sink_get_property :: "web_prop \<Rightarrow> web_sink \<Rightarrow> prop_value option" where
  "rialto_web_audio_sink_get_property PROP_TS_OFFSET s = None"
| "rialto_web_audio_sink_get_property WEB_PROP_INVALID s = None"

fun rialto_web_audio_sink_set_property :: "web_prop \<Rightarrow> prop_value \<Rightarrow> web_sink \<Rightarrow> web_sink" where
  "rialto_web_audio_sink_set_property PROP_TS_OFFSET v s = s"
| "rialto_web_audio_sink_set_property WEB_PROP_INVALID v s = s"

section \<open>Construction\<close>

definition rialto_web_audio_sink_initialise_sinkpad :: "bool \<Rightarrow> bool \<Rightarrow> web_sink \<Rightarrow> web_sink \<times> bool" where
  "rialto_web_audio_sink_initialise_sinkpad has_template pad_created s =
     (if \<not> has_template then (s, False)
      else if \<not> pad_created then (s, False)
      else (s\<lparr>ws_sinkPad := True\<rparr>, True))"

text \<open>The private structure as constructed and then filled; the control backend is what its constructor made.\<close>

definition rialto_web_audio_sink_init :: "bool \<Rightarrow> bool \<Rightarrow> control_backend \<Rightarrow> gst_element \<Rightarrow> web_sink" where
  "rialto_web_audio_sink_init has_template pad_created control el =
     fst (rialto_web_audio_sink_initialise_sinkpad has_template pad_created
       \<lparr>ws_element = el, ws_sinkPad = False,
         m_webAudioClient = Some (new_web_client \<lparr>errorCallback = True, eosCallback = True, stateChangedCallback = True\<rparr>),
         m_rialtoControlClient = Some control, m_isPlayingDelayed = False, ws_isStateCommitNeeded = False\<rparr>)"

definition rialto_web_audio_sink_finalize :: "web_sink \<Rightarrow> web_sink" where
  "rialto_web_audio_sink_finalize s = s\<lparr>m_webAudioClient := None, m_rialtoControlClient := None\<rparr>"

definition rialto_web_audio_sink_setup_supported_caps :: string where
  "rialto_web_audio_sink_setup_supported_caps = ''audio/x-raw''"

section \<open>Completion of state changes\<close>

text \<open>The contract of \<open>async_element\<close> holds for the web audio sink too.\<close>

definition web_completes :: "web_state \<Rightarrow> gst_state \<Rightarrow> bool" where
  "web_completes st nxt \<longleftrightarrow> st = WEB_PAUSED \<and> nxt = GST_STATE_PAUSED \<or> st = WEB_PLAYING \<and> nxt = GST_STATE_PLAYING"

interpretation web_async: async_element ws_element ws_isStateCommitNeeded
  rialto_web_audio_sink_rialto_state_changed_handler web_completes
  by unfold_locales
    (auto simp: rialto_web_audio_sink_rialto_state_changed_handler_def web_completes_def committed_def
      rialto_web_audio_async_done_def web_post_def Let_def)

interpretation web_ending: ending_element ws_element ws_isStateCommitNeeded
  rialto_web_audio_sink_rialto_state_changed_handler web_completes rialto_web_audio_sink_eos_handler
  "''Web audio sink received EOS in non-playing state''"
  by unfold_locales
    (auto simp: rialto_web_audio_sink_eos_handler_def web_post_def web_completes_def paused_or_playing Let_def)

text \<open>Both kinds of sink report the end of the stream once the server has completed the change to PAUSED or PLAYING.\<close>

theorem eos_after_completion:
  "m_isStateCommitNeeded s \<Longrightarrow> list_ex (\<lambda>st. completes st (el_next (element s))) sts \<Longrightarrow>
   last (el_bus (element (rialto_mse_base_sink_eos_handler (fold rialto_mse_base_sink_rialto_state_changed_handler sts s)))) =
     Eos_Message"
  "ws_isStateCommitNeeded t \<Longrightarrow> list_ex (\<lambda>st. web_completes st (el_next (ws_element t))) wsts \<Longrightarrow>
   last (el_bus (ws_element (rialto_web_audio_sink_eos_handler
     (fold rialto_web_audio_sink_rialto_state_changed_handler wsts t)))) = Eos_Message"
  by (rule mse_ending.ended_after_completion web_ending.ended_after_completion; assumption)+

text \<open>Of any number of notifications the first that matches completes the pending change, and only that.\<close>

theorem web_state_change_completed_once:
  "let s' = fold rialto_web_audio_sink_rialto_state_changed_handler sts s;
       hit = ws_isStateCommitNeeded s \<and> list_ex (\<lambda>st. web_completes st (el_next (ws_element s))) sts
   in ws_isStateCommitNeeded s' = (ws_isStateCommitNeeded s \<and> \<not> hit) \<and>
      (if hit then ws_element s' = committed (ws_element s) else s' = s)"
  by (rule web_async.completed_once)

section \<open>Guarantees\<close>

text \<open>A web audio sink as an MSE sink: its element and its pending state change.\<close>

definition mse_view :: "web_sink \<Rightarrow> base_sink \<Rightarrow> base_sink" where
  "mse_view s b = b\<lparr>element := ws_element s, m_isStateCommitNeeded := ws_isStateCommitNeeded s\<rparr>"

definition playback_of :: "web_state \<Rightarrow> playback_state" where
  "playback_of st = (case st of WEB_PAUSED \<Rightarrow> PS_PAUSED | WEB_PLAYING \<Rightarrow> PS_PLAYING | _ \<Rightarrow> PS_OTHER)"

text \<open>
  Both kinds of sink run the same protocol of asynchronous state changes. Seen as an MSE sink, a web
  audio sink starts a change, completes it on a notification of the server, or ignores the
  notification, exactly as the MSE base sink does.
\<close>

theorem web_sink_completes_like_mse:
  "mse_view (rialto_web_audio_sink_rialto_state_changed_handler st s) b =
     rialto_mse_base_sink_rialto_state_changed_handler (playback_of st) (mse_view s b) \<and>
   mse_view (rialto_web_audio_async_start s) b = rialto_mse_base_async_start (mse_view s b) \<and>
   mse_view (rialto_web_audio_async_done s) b = rialto_mse_base_async_done (mse_view s b)"
  by (cases st)
    (auto simp: mse_view_def playback_of_def rialto_web_audio_sink_rialto_state_changed_handler_def
      rialto_mse_base_sink_rialto_state_changed_handler_def rialto_web_audio_async_start_def rialto_web_audio_async_done_def
      rialto_mse_base_async_start_def rialto_mse_base_async_done_def web_post_def post_message_def Let_def)

lemma open_true:
  assumes "web_open env st c = Inr (c', True)"
  shows "m_isOpen c'" "wb_player (wc_backend c')" "m_callbacks c' = m_callbacks c" "m_pushSamplesTimer c' = m_pushSamplesTimer c"
proof -
  have "m_isOpen c' \<and> wb_player (wc_backend c') \<and> m_callbacks c' = m_callbacks c \<and> m_pushSamplesTimer c' = m_pushSamplesTimer c"
    using assms
    by (auto simp: web_open_def open_body_def createWebAudioBackend_def store_device_info_def web_call_do_player Let_def
        split: option.splits if_splits prod.splits)
  then show "m_isOpen c'" "wb_player (wc_backend c')" "m_callbacks c' = m_callbacks c" "m_pushSamplesTimer c' = m_pushSamplesTimer c"
    by simp_all
qed

lemma play_open:
  assumes "m_isOpen c" "wb_player (wc_backend c)" "wa_ok (we_player env (wb_log (wc_backend c)) Web_Play)"
  shows "web_play env c = Inr (c\<lparr>wc_backend := (wc_backend c)\<lparr>wb_log := wb_log (wc_backend c) @ [Web_Play]\<rparr>\<rparr>, True)"
  using assms by (simp add: web_play_def forward_if_open_def web_call_do_player)

text \<open>The caps of a sink that was asked to play before: the player is opened and told to play.\<close>

lemma delayed_caps:
  assumes "m_webAudioClient s = Some c" "m_isPlayingDelayed s" "web_open (wse_client env) caps c = Inr (c1, True)"
    "wa_ok (we_player (wse_client env) (wb_log (wc_backend c1)) Web_Play)"
  shows "web_caps_event env caps s = Inr (s\<lparr>m_isPlayingDelayed := False,
     m_webAudioClient := Some (c1\<lparr>wc_backend := (wc_backend c1)\<lparr>wb_log := wb_log (wc_backend c1) @ [Web_Play]\<rparr>\<rparr>)\<rparr>, True)"
  using assms(1-3) play_open [OF open_true(1,2) [OF assms(3)] assms(4)]
  by (simp add: web_caps_event_def call_web_client_def)

lemma same_client: "m_webAudioClient s = Some c \<Longrightarrow> s\<lparr>m_webAudioClient := Some c\<rparr> = s"
  by (cases s) simp

text \<open>
  Playing before the caps are known. A sink that is sent to PLAYING while its client is closed
  announces an asynchronous change and sends nothing to the player. The caps then open the player and
  start it, and when the server reports that it plays the element is in PLAYING and the change is
  completed on the bus.
\<close>

theorem delayed_play:
  assumes "m_webAudioClient s = Some c" "\<not> m_isOpen c" "stateChangedCallback (m_callbacks c)"
    and "el_next (ws_element s) = GST_STATE_PLAYING"
    and "web_open (wse_client env) caps c = Inr (c1, True)"
      "wa_ok (we_player (wse_client env) (wb_log (wc_backend c1)) Web_Play)"
  shows "\<exists>s1 s2 c2. rialto_web_audio_sink_change_state env arriving PAUSED_TO_PLAYING s = Inr (s1, GST_STATE_CHANGE_ASYNC) \<and>
    m_webAudioClient s1 = Some c \<and>
    rialto_web_audio_sink_event env (WEB_EVENT_CAPS caps) s1 = Some (Inr (s2, True)) \<and>
    m_webAudioClient s2 = Some c2 \<and> wb_log (wc_backend c2) = wb_log (wc_backend c1) @ [Web_Play] \<and> \<not> m_isPlayingDelayed s2 \<and>
    (let e = ws_element s; s3 = server_notifies WEB_PLAYING s2
     in el_state (ws_element s3) = GST_STATE_PLAYING \<and> \<not> ws_isStateCommitNeeded s3 \<and>
        el_bus (ws_element s3) = el_bus e @ [Async_Start, State_Changed (el_state e) GST_STATE_PLAYING (el_pending e), Async_Done])"
proof -
  let ?s1 = "rialto_web_audio_async_start (s\<lparr>m_isPlayingDelayed := True\<rparr>)"
  have "rialto_web_audio_sink_change_state env arriving PAUSED_TO_PLAYING s = Inr (?s1, GST_STATE_CHANGE_ASYNC)"
    using assms(1,2)
    by (simp add: same_client web_isOpen_def rialto_web_audio_sink_change_state_def web_change_state_switch_def call_web_client_def)
  moreover have s1: "m_webAudioClient ?s1 = Some c" "m_isPlayingDelayed ?s1"
    using assms(1) by (simp_all add: rialto_web_audio_async_start_def web_post_def)
  moreover note delayed_caps [OF s1 assms(5,6)]
  ultimately show ?thesis
    using assms(3,4) open_true(3) [OF assms(5)]
    by (simp add: rialto_web_audio_sink_event_def server_notifies_def notifyState_def rialto_web_audio_async_start_def
        rialto_web_audio_async_done_def rialto_web_audio_sink_rialto_state_changed_handler_def web_post_def Let_def)
qed

text \<open>A sink on its way from PAUSED to PLAYING, GStreamer and a player that agree to everything.\<close>

definition yes_player :: web_player where
  "yes_player log call = \<lparr>wa_ok = True, wa_frames = 100, wa_device = Some (1, 2, False), wa_volume = 0\<rparr>"

definition web_example_env :: web_sink_env where
  "web_example_env = \<lparr>wse_client = gst_env yes_player, wse_parent_change = (\<lambda>_ e. (e, GST_STATE_CHANGE_SUCCESS)),
     wse_parent_send_event = (\<lambda>e. (e, True)), wse_event_default = (\<lambda>e. (e, True))\<rparr>"

definition web_example_sink :: web_sink where
  "web_example_sink = rialto_web_audio_sink_init True True \<lparr>cb_state = RUNNING, cb_control = True\<rparr>
     \<lparr>el_state = GST_STATE_PAUSED, el_next = GST_STATE_PLAYING, el_pending = GST_STATE_PLAYING,
      el_return = GST_STATE_CHANGE_ASYNC, el_bus = []\<rparr>"

lemma example_client: "m_webAudioClient web_example_sink = Some (new_web_client all_callbacks)"
  by (simp add: web_example_sink_def rialto_web_audio_sink_init_def rialto_web_audio_sink_initialise_sinkpad_def all_callbacks_def)

lemma yes_opens: "web_open (wse_client web_example_env) stereo_caps (new_web_client all_callbacks) =
    Inr (opened\<lparr>m_callbacks := all_callbacks\<rparr>, True)"
  by (simp add: open_simps opened_def all_callbacks_def web_example_env_def gst_env_def yes_player_def Let_def)

theorem delayed_play_witness:
  "\<exists>s1 s2. rialto_web_audio_sink_change_state web_example_env [] PAUSED_TO_PLAYING web_example_sink = Inr (s1, GST_STATE_CHANGE_ASYNC) \<and>
     rialto_web_audio_sink_event web_example_env (WEB_EVENT_CAPS stereo_caps) s1 = Some (Inr (s2, True)) \<and>
     el_state (ws_element (server_notifies WEB_PLAYING s2)) = GST_STATE_PLAYING"
proof -
  have "\<not> m_isOpen (new_web_client all_callbacks)" "stateChangedCallback (m_callbacks (new_web_client all_callbacks))"
    "el_next (ws_element web_example_sink) = GST_STATE_PLAYING"
    "wa_ok (we_player (wse_client web_example_env) (wb_log (wc_backend (opened\<lparr>m_callbacks := all_callbacks\<rparr>))) Web_Play)"
    by (simp_all add: new_web_client_def all_callbacks_def web_example_sink_def rialto_web_audio_sink_init_def
        rialto_web_audio_sink_initialise_sinkpad_def web_example_env_def gst_env_def yes_player_def)
  from delayed_play [OF example_client this(1-3) yes_opens this(4), of "[]"] show ?thesis by (auto simp: Let_def)
qed

text \<open>
  C25. A request to play outlives a stop. A sink that was sent to PLAYING before its caps were known, and
  then back to READY, still remembers the request and the pending change: when it is only sent to
  PAUSED again, the caps start the player.
\<close>

theorem delayed_play_survives_stop:
  assumes "m_webAudioClient s = Some c" "m_isPlayingDelayed s" "\<not> in_callback c"
    and "\<And>t e. snd (wse_parent_change env t e) = GST_STATE_CHANGE_SUCCESS"
    and "web_open (wse_client env) caps (c\<lparr>wc_backend := destroyWebAudioBackend (wc_backend c), m_pushSamplesTimer := None,
           m_isOpen := False\<rparr>) = Inr (c1, True)"
      "wa_ok (we_player (wse_client env) (wb_log (wc_backend c1)) Web_Play)"
  shows "yields (\<lambda>(s', ok). ok \<and> ws_isStateCommitNeeded s' = ws_isStateCommitNeeded s \<and>
      (\<exists>c'. m_webAudioClient s' = Some c' \<and> wb_log (wc_backend c') = wb_log (wc_backend c1) @ [Web_Play]))
    (bind_result (rialto_web_audio_sink_change_state env arriving PAUSED_TO_READY s) (\<lambda>(s, r).
     bind_result (rialto_web_audio_sink_change_state env arriving READY_TO_PAUSED s) (\<lambda>(s, r).
       web_caps_event env caps s)))"
proof -
  let ?c = "c\<lparr>wc_backend := destroyWebAudioBackend (wc_backend c), m_pushSamplesTimer := None, m_isOpen := False\<rparr>"
  obtain e1 where e1: "wse_parent_change env PAUSED_TO_READY (ws_element s) = (e1, GST_STATE_CHANGE_SUCCESS)"
    using assms(4) by (cases "wse_parent_change env PAUSED_TO_READY (ws_element s)") (metis snd_conv)
  obtain e2 where e2: "wse_parent_change env READY_TO_PAUSED e1 = (e2, GST_STATE_CHANGE_SUCCESS)"
    using assms(4) by (cases "wse_parent_change env READY_TO_PAUSED e1") (metis snd_conv)
  let ?s1 = "s\<lparr>m_webAudioClient := Some ?c, ws_element := e1\<rparr>" and ?s2 = "s\<lparr>m_webAudioClient := Some ?c, ws_element := e2\<rparr>"
  have "rialto_web_audio_sink_change_state env arriving PAUSED_TO_READY s = Inr (?s1, GST_STATE_CHANGE_SUCCESS)"
    using assms(1,3) e1
    by (simp add: rialto_web_audio_sink_change_state_def web_change_state_switch_def call_web_client_def web_close_def
        set_push_timer_cases in_callback_def)
  moreover have "rialto_web_audio_sink_change_state env arriving READY_TO_PAUSED ?s1 = Inr (?s2, GST_STATE_CHANGE_SUCCESS)"
    using e2 by (simp add: rialto_web_audio_sink_change_state_def web_change_state_switch_def)
  moreover have "m_webAudioClient ?s2 = Some ?c" "m_isPlayingDelayed ?s2" using assms(2) by simp_all
  note delayed_caps [OF this assms(5,6)]
  ultimately show ?thesis by simp
qed

theorem delayed_play_survives_stop_witness:
  "yields (\<lambda>(s', ok). ok \<and> (\<exists>c'. m_webAudioClient s' = Some c' \<and> Web_Play \<in> set (wb_log (wc_backend c'))))
    (bind_result (rialto_web_audio_sink_change_state web_example_env [] PAUSED_TO_READY (web_example_sink\<lparr>m_isPlayingDelayed := True\<rparr>)) (\<lambda>(s, r).
     bind_result (rialto_web_audio_sink_change_state web_example_env [] READY_TO_PAUSED s) (\<lambda>(s, r).
       web_caps_event web_example_env stereo_caps s)))"
proof -
  let ?c = "new_web_client all_callbacks"
  have "m_webAudioClient (web_example_sink\<lparr>m_isPlayingDelayed := True\<rparr>) = Some ?c" using example_client by simp
  moreover have "\<not> in_callback ?c" by (simp add: in_callback_def new_web_client_def)
  moreover have "snd (wse_parent_change web_example_env t e) = GST_STATE_CHANGE_SUCCESS" for t e by (simp add: web_example_env_def)
  moreover have "?c\<lparr>wc_backend := destroyWebAudioBackend (wc_backend ?c), m_pushSamplesTimer := None, m_isOpen := False\<rparr> = ?c"
    by (simp add: new_web_client_def destroyWebAudioBackend_def)
  moreover have "wa_ok (we_player (wse_client web_example_env) log Web_Play)" for log
    by (simp add: web_example_env_def gst_env_def yes_player_def)
  ultimately show ?thesis
    using delayed_play_survives_stop [of "web_example_sink\<lparr>m_isPlayingDelayed := True\<rparr>" ?c web_example_env stereo_caps _ "[]"] yes_opens
    by (auto elim!: yields_mono)
qed

end
