(* ===== verification/Sink_Lifecycle.thy ===== *)
theory Sink_Lifecycle
  imports Sink_System Web_Audio_Sink
begin

text \<open>
  The two ends of a sink: the parameters its class initialiser declares (\<open>rialto_mse_base_sink_class_init\<close>,
  \<open>rialto_mse_audio_sink_class_init\<close>, \<open>rialto_mse_video_sink_class_init\<close>, \<open>rialto_web_audio_sink_class_init\<close>), with what
  the declared ranges come to in a running system, and its destruction (\<open>rialto_mse_base_sink_finalize\<close>), with
  what is left of the clients.
\<close>

section \<open>What a release frees\<close>

text \<open>No thread of the client runs or has work, and its pipeline is gone.\<close>

definition freed :: "client \<Rightarrow> bool" where
  "freed cl \<longleftrightarrow> m_streamingStopped cl \<and> m_clientBackend cl = None \<and>
     \<not> sq_running (m_backendQueue cl) \<and> sq_items (m_backendQueue cl) = [] \<and>
     list_all (\<lambda>(i, a). source_halted a) (m_attachedSources cl)"

lemma freed_stopped: "stopped_inv v \<Longrightarrow> m_clientBackend (client_of v) = None \<Longrightarrow> freed (client_of v)"
  by (simp add: stopped_inv_def freed_def)

text \<open>From \<open>w\<close> to \<open>w'\<close> no client is taken into the map, and those that left it are freed.\<close>

definition only_frees :: "world \<Rightarrow> world \<Rightarrow> bool" where
  "only_frees w w' \<longleftrightarrow> (\<forall>c. (owned w' c \<longrightarrow> owned w c) \<and> (owned w c \<and> \<not> owned w' c \<longrightarrow> freed (clients w' c)) \<and>
     (\<not> owned w c \<longrightarrow> clients w' c = clients w c))"

lemma only_frees_refl [simp]: "only_frees w w"
  by (simp add: only_frees_def)

lemma only_frees_trans: "only_frees w w' \<Longrightarrow> only_frees w' w'' \<Longrightarrow> only_frees w w''"
  unfolding only_frees_def by metis

lemma release_frees:
  assumes inv: "world_inv N w"
  shows "yields (only_frees w) (releaseMediaPlayerClient ora undef k w)"
proof (cases rule: manager_cases [OF inv, of k])
  case 1
  then show ?thesis by (simp add: releaseMediaPlayerClient_def)
next
  case (2 p i)
  then have p: "m_currentGstBinParent (managers w k) = Some p" by simp
  have io: "infos_ok w" using inv by (simp add: world_inv_def)
  show ?thesis
  proof (cases "inf_refCount i - 1 = 0")
    case True
    with release_result [OF inv p 2(2)] obtain v where v: "stopped_inv v" "m_clientBackend (client_of v) = None"
      "releaseMediaPlayerClient ora undef k w = Inr (set_manager k new_manager
        ((put_mse (inf_client i) v w)\<lparr>m_mediaPlayerClientsInfo := assoc_erase p (m_mediaPlayerClientsInfo w)\<rparr>))"
      by auto
    have "list_ex (\<lambda>(q, j). inf_client j = c) (assoc_erase p (m_mediaPlayerClientsInfo w))"
      if c: "owned w c" "c \<noteq> inf_client i" for c
    proof -
      from c(1) obtain q j where "info_of w q = Some j" "inf_client j = c" using owned_info [OF io] by blast
      with c(2) 2(2) have "map_of (assoc_erase p (m_mediaPlayerClientsInfo w)) q = Some j"
        by (auto simp: map_of_assoc_erase)
      then show ?thesis using \<open>inf_client j = c\<close> by (auto simp: list_ex_iff dest: map_of_SomeD)
    qed
    moreover have "owned w (inf_client i)" using 2(2) owned_info [OF io] by blast
    moreover have "list_ex (\<lambda>(q, j). inf_client j = c) (assoc_erase p (m_mediaPlayerClientsInfo w)) \<Longrightarrow> owned w c" for c
      by (auto simp: owned_def list_ex_iff assoc_erase_def)
    ultimately show ?thesis using v freed_stopped [OF v(1,2)]
      by (auto simp: only_frees_def owned_def set_manager_def put_mse_def)
  next
    case False
    with release_result [OF inv p 2(2), of ora undef] show ?thesis
      using owned_modify [where w = w and p = p and g = "\<lambda>j. j\<lparr>inf_refCount := inf_refCount i - 1,
           inf_controller := (if inf_controller j = Some k then None else inf_controller j)\<rparr>"]
      by (auto simp: only_frees_def set_manager_def owned_def fun_eq_iff)
  qed
qed

section \<open>Parameter specifications\<close>

text \<open>
  What the class initialisers declare of a property: its type, its least and greatest value where it has
  them, and its default. A double is its bits.
\<close>

datatype param_spec =
  Spec_String "string option"
| Spec_Boolean bool
| Spec_Int i32 i32 i32
| Spec_Uint u32 u32 u32
| Spec_Int64 i64 i64 i64
| Spec_Double double_bits double_bits double_bits

definition base_class_params :: "(base_prop \<times> string \<times> param_spec) list" where
  "base_class_params =
     [(PROP_LOCATION, ''location'', Spec_String None),
      (PROP_HANDLE_RESET_TIME_MESSAGE, ''handle-reset-time-message'', Spec_Boolean False),
      (PROP_IS_SINGLE_PATH_STREAM, ''single-path-stream'', Spec_Boolean False),
      (PROP_N_STREAMS, ''streams-number'', Spec_Int 1 0x7FFFFFFF 1),
      (PROP_HAS_DRM, ''has-drm'', Spec_Boolean True)]"

definition audio_class_params :: "(audio_prop \<times> string \<times> param_spec) list" where
  "audio_class_params =
     [(PROP_VOLUME, ''volume'', Spec_Double 0 double_one double_one),
      (PROP_MUTE, ''mute'', Spec_Boolean False)]"

definition video_class_params :: "(video_prop \<times> string \<times> param_spec) list" where
  "video_class_params =
     [(PROP_WINDOW_SET, ''rectangle'', Spec_String None),
      (PROP_MAX_VIDEO_WIDTH, ''maxVideoWidth'', Spec_Uint 0 3840 DEFAULT_MAX_VIDEO_WIDTH),
      (PROP_MAX_VIDEO_HEIGHT, ''maxVideoHeight'', Spec_Uint 0 2160 DEFAULT_MAX_VIDEO_HEIGHT),
      (PROP_FRAME_STEP_ON_PREROLL, ''frame-step-on-preroll'', Spec_Boolean False)]"

definition web_class_params :: "(web_prop \<times> string \<times> param_spec) list" where
  "web_class_params =
     [(PROP_TS_OFFSET, ''ts-offset'', Spec_Int64 0x8000000000000000 0x7FFFFFFFFFFFFFFF 0)]"

text \<open>
  A class: its description (long name, classification, description, author), the properties it installs
  besides those of its parent, and the caps of its pad template. The functions it overrides are the
  operations of the sink theories, and the signal of the base class is emitted in
  \<open>rialto_mse_base_handle_rialto_server_sent_buffer_underflow\<close>. \<open>capabilities\<close>: the mime types the server
  supports for a type of source, if a capabilities object could be created.
\<close>

record 'p sink_class =
  cls_details :: "string \<times> string \<times> string \<times> string"
  cls_params :: "('p \<times> string \<times> param_spec) list"
  cls_template :: "string list option"

definition rialto_mse_base_sink_class_init :: "base_prop sink_class" where
  "rialto_mse_base_sink_class_init =
     \<lparr>cls_details = (''Rialto MSE base sink'', ''Generic'', ''A sink for Rialto'', ''Sky''),
      cls_params = base_class_params, cls_template = None\<rparr>"

definition rialto_mse_audio_sink_class_init ::
  "(media_source_type \<Rightarrow> string list) option \<Rightarrow> audio_prop sink_class" where
  "rialto_mse_audio_sink_class_init capabilities =
     \<lparr>cls_details = (''Rialto Audio Sink'', ''Decoder/Audio/Sink/Audio'', ''Communicates with Rialto Server'', ''Sky''),
      cls_params = audio_class_params,
      cls_template = class_caps (map_option (\<lambda>supported. supported TYPE_AUDIO) capabilities)\<rparr>"

definition rialto_mse_video_sink_class_init ::
  "(media_source_type \<Rightarrow> string list) option \<Rightarrow> video_prop sink_class" where
  "rialto_mse_video_sink_class_init capabilities =
     \<lparr>cls_details = (''Rialto Video Sink'', ''Decoder/Video/Sink/Video'', ''Communicates with Rialto Server'', ''Sky''),
      cls_params = video_class_params,
      cls_template = class_caps (map_option (\<lambda>supported. supported TYPE_VIDEO) capabilities)\<rparr>"

definition rialto_web_audio_sink_class_init :: "web_prop sink_class" where
  "rialto_web_audio_sink_class_init =
     \<lparr>cls_details = (''Rialto Web Audio Sink'', ''Decoder/Audio/Sink/Audio'', ''Communicates with Rialto Server'', ''Sky''),
      cls_params = web_class_params,
      cls_template = Some [rialto_web_audio_sink_setup_supported_caps]\<rparr>"

text \<open>No property of a subclass hides one of the base class, and no pad template offers caps twice.\<close>

lemma class_names_distinct:
  "distinct (map (fst \<circ> snd) (cls_params rialto_mse_base_sink_class_init) @
     map (fst \<circ> snd) (cls_params (rialto_mse_audio_sink_class_init capabilities)))"
  "distinct (map (fst \<circ> snd) (cls_params rialto_mse_base_sink_class_init) @
     map (fst \<circ> snd) (cls_params (rialto_mse_video_sink_class_init capabilities)))"
  by (simp_all add: rialto_mse_base_sink_class_init_def rialto_mse_audio_sink_class_init_def
      rialto_mse_video_sink_class_init_def base_class_params_def audio_class_params_def video_class_params_def)

lemma class_templates_distinct:
  "pred_option distinct (cls_template (rialto_mse_audio_sink_class_init capabilities))"
  "pred_option distinct (cls_template (rialto_mse_video_sink_class_init capabilities))"
  by (cases capabilities; simp add: rialto_mse_audio_sink_class_init_def rialto_mse_video_sink_class_init_def
      class_caps_def rialto_mse_sink_setup_supported_caps_def distinct_supported_caps)+

definition spec_of :: "('p \<times> string \<times> param_spec) list \<Rightarrow> 'p \<Rightarrow> param_spec option" where
  "spec_of params p = map_option snd (map_of params p)"

text \<open>
  The values a specification admits. The least doubles declared are 0, and the bits of doubles that are
  not negative are in the order of the doubles; the negative zero is admitted too.
\<close>

fun admits :: "param_spec \<Rightarrow> prop_value \<Rightarrow> bool" where
  "admits (Spec_String _) (V_String _) = True"
| "admits (Spec_String _) V_Null = True"
| "admits (Spec_Boolean _) (V_Bool _) = True"
| "admits (Spec_Int lo hi _) (V_Int n) = (sint lo \<le> sint n \<and> sint n \<le> sint hi)"
| "admits (Spec_Uint lo hi _) (V_Uint n) = (lo \<le> n \<and> n \<le> hi)"
| "admits (Spec_Double lo hi _) (V_Double d) = (d = 0x8000000000000000 \<or> (lo \<le> d \<and> d \<le> hi))"
| "admits _ _ = False"

fun spec_default :: "param_spec \<Rightarrow> prop_value option" where
  "spec_default (Spec_String d) = Some (case d of None \<Rightarrow> V_Null | Some x \<Rightarrow> V_String x)"
| "spec_default (Spec_Boolean d) = Some (V_Bool d)"
| "spec_default (Spec_Int _ _ d) = Some (V_Int d)"
| "spec_default (Spec_Uint _ _ d) = Some (V_Uint d)"
| "spec_default (Spec_Int64 _ _ d) = None"
| "spec_default (Spec_Double _ _ d) = Some (V_Double d)"

definition value_admitted :: "('p \<times> string \<times> param_spec) list \<Rightarrow> 'p \<Rightarrow> prop_value \<Rightarrow> bool" where
  "value_admitted params p v = (case spec_of params p of None \<Rightarrow> False | Some sp \<Rightarrow> admits sp v)"

lemma prop_typed_admits: "prop_typed p v \<longleftrightarrow> v \<noteq> V_Null \<and> value_admitted base_class_params p v"
  using sint_lt [of "case v of V_Int n \<Rightarrow> n | _ \<Rightarrow> 0"]
  by (cases p; cases v) (auto simp: value_admitted_def spec_of_def base_class_params_def)

lemma fresh_base_defaults:
  "spec_of base_class_params p = Some sp \<Longrightarrow>
   rialto_mse_base_sink_get_property p (rialto_mse_base_sink_init ctl (new_private g)) =
     (if p = PROP_LOCATION then Some (V_String []) else spec_default sp)"
  by (cases p) (auto simp: spec_of_def base_class_params_def rialto_mse_base_sink_init_def new_private_def)

lemma fresh_size_is_no_default:
  "rialto_mse_video_sink_get_property g k PROP_MAX_VIDEO_WIDTH new_video_private w = Inr (w, Some (V_Uint 0))"
  "map_option spec_default (spec_of video_class_params PROP_MAX_VIDEO_WIDTH) = Some (Some (V_Uint 3840))"
  by (simp_all add: rialto_mse_video_sink_get_property_def new_video_private_def spec_of_def video_class_params_def
      DEFAULT_MAX_VIDEO_WIDTH_def)

text \<open>GObject hands over only values the specification of the property admits.\<close>

fun set_admitted :: "sink_action \<Rightarrow> bool" where
  "set_admitted (Set_Property k p v) =
     (case p of
        Base_Prop bp \<Rightarrow> value_admitted base_class_params bp v
      | Audio_Prop ap \<Rightarrow> value_admitted audio_class_params ap v
      | Video_Prop vp \<Rightarrow> value_admitted video_class_params vp v)"
| "set_admitted _ = True"

definition sizes_in_range :: "video_private \<Rightarrow> bool" where
  "sizes_in_range priv \<longleftrightarrow> maxWidth priv \<le> 3840 \<and> maxHeight priv \<le> 2160"

lemma sizes_set:
  assumes "sizes_in_range priv" "value_admitted video_class_params p v"
    "rialto_mse_video_sink_set_property env k p v priv w = Inr (priv', w')"
  shows "sizes_in_range priv'"
  using assms
  by (cases p; cases v)
    (auto simp: rialto_mse_video_sink_set_property_def value_admitted_def spec_of_def video_class_params_def
      sizes_in_range_def Let_def bind_result_Inr split: option.splits if_splits)

section \<open>The limits of a new pipeline\<close>

text \<open>The pipeline of the client was created with these limits, where zero stands for the default.\<close>

definition limited :: "u32 \<Rightarrow> u32 \<Rightarrow> client \<Rightarrow> bool" where
  "limited mw mh cl \<longleftrightarrow> (\<exists>rest. m_clientBackend cl = Some \<lparr>m_mediaPlayerBackend = Some
     (Create_Pipeline (if mw = 0 then 3840 else mw) (if mh = 0 then 2160 else mh) # rest)\<rparr>)"

definition new_clients_limited :: "u32 \<Rightarrow> u32 \<Rightarrow> world \<Rightarrow> world \<Rightarrow> bool" where
  "new_clients_limited mw mh w w' \<longleftrightarrow> (\<forall>c. owned w' c \<and> \<not> owned w c \<longrightarrow> limited mw mh (clients w' c))"

lemma create_limits:
  "yields (new_clients_limited mw mh w) (createMediaPlayerClient ora created k parent mw mh w)"
proof (cases "info_of w parent")
  case (Some info)
  then show ?thesis
    using owned_modify [where w = w and p = parent and g = "\<lambda>i. i\<lparr>inf_refCount := inf_refCount i + 1\<rparr>"]
    by (simp add: createMediaPlayerClient_def new_clients_limited_def set_manager_def owned_def fun_eq_iff)
next
  case None
  then show ?thesis
    by (auto simp: createMediaPlayerClient_def createBackend_def callInEventLoop_def new_client_def
        createMediaPlayerBackend_def isMediaPlayerBackendCreated_def backend_do_def forward_def sq_start_def sq_new_def
        new_client_backend_def Let_def new_clients_limited_def limited_def owned_def set_manager_def put_mse_def
        DEFAULT_MAX_VIDEO_WIDTH_def DEFAULT_MAX_VIDEO_HEIGHT_def)
qed

lemma attach_limits:
  assumes "world_inv N w"
  shows "yields (\<lambda>(w', ok). new_clients_limited mw mh w w') (attachMediaPlayerClient ora undef created k parent mw mh w)"
proof -
  have "yields (new_clients_limited mw mh w) (bind_result (releaseMediaPlayerClient ora undef k w)
      (createMediaPlayerClient ora created k parent mw mh))"
  proof (rule yields_bind [OF release_frees [OF assms]])
    fix w1 assume "only_frees w w1"
    then show "yields (new_clients_limited mw mh w) (createMediaPlayerClient ora created k parent mw mh w1)"
      by (intro yields_mono [OF create_limits]) (auto simp: new_clients_limited_def only_frees_def)
  qed
  then show ?thesis unfolding attachMediaPlayerClient_def
    by (intro yields_bind [where P = "new_clients_limited mw mh w"])
      (auto simp: create_limits new_clients_limited_def split: option.split)
qed

lemma through_infos:
  "yields (\<lambda>w'. owned w' = owned w \<and> (\<forall>d. m_clientBackend (clients w' d) = m_clientBackend (clients w d)))
    (through (Some c) (setVideoStreamsInfo n b) w)"
  by (simp add: through_def call_client_def setVideoStreamsInfo_def callInEventLoop_def Let_def mse_of_def put_mse_def
      owned_def fun_eq_iff)

lemma video_ready_limits:
  assumes "world_inv N w"
  shows "yields (\<lambda>(w', ok). new_clients_limited (maxWidth priv) (maxHeight priv) w w') (video_ready_to_paused env pl priv k w)"
proof -
  have t: "yields (\<lambda>(w', ok). new_clients_limited mw mh w w') (bind_result (through (Some c) (setVideoStreamsInfo n b) v) (\<lambda>w. Inr (w, True)))"
    if "new_clients_limited mw mh w v" for mw mh c n b v
    by (rule yields_bind [OF through_infos]) (use that in \<open>auto simp: new_clients_limited_def limited_def\<close>)
  show ?thesis unfolding video_ready_to_paused_def Let_def
    by (rule yields_bind [OF attach_limits [OF assms]]) (auto split: option.split prod.split intro: t)
qed

lemma in_world_video: "in_world f sys r = Inr sys' \<Longrightarrow> sys_video sys' = sys_video sys"
  by (auto simp: in_world_def bind_result_Inr)

lemma act_video:
  assumes "act su a sys = Inr sys'" "\<And>k p v. a \<noteq> Set_Property k (Video_Prop p) v"
  shows "sys_video sys' = sys_video sys"
  using assms
  by (cases a) (auto simp: Let_def bind_result_Inr dest: in_world_video split: sink_prop.splits if_splits)

lemma sizes_act:
  assumes "act su a sys = Inr sys'" "set_admitted a" "\<forall>k. sizes_in_range (sys_video sys k)"
  shows "\<forall>k. sizes_in_range (sys_video sys' k)"
proof (cases "\<exists>k p v. a = Set_Property k (Video_Prop p) v")
  case True
  then obtain k p v where a: "a = Set_Property k (Video_Prop p) v" by blast
  with assms(1) obtain priv w where set: "rialto_mse_video_sink_set_property (su_env su) k p v (sys_video sys k) (sys_world sys) = Inr (priv, w)"
    and sys': "sys' = \<lparr>sys_world = w, sys_video = (sys_video sys)(k := priv)\<rparr>"
    by (auto simp: bind_result_Inr)
  have "sizes_in_range priv" by (rule sizes_set [OF _ _ set]) (use a assms(2,3) in simp_all)
  with sys' assms(3) show ?thesis by simp
next
  case False
  with act_video [OF assms(1)] assms(3) show ?thesis by simp
qed

interpretation sized_system: safe_system "act su" "act_all su"
  "\<lambda>a. action_ok N a \<and> set_admitted a \<and> N < 2 ^ 32 \<and> keeps_caps (su_env su)"
  "\<lambda>s. world_inv N (sys_world s) \<and> (\<forall>k. sizes_in_range (sys_video s k))"
  for su N
proof unfold_locales
  fix s :: sink_system and a
  assume inv: "world_inv N (sys_world s) \<and> (\<forall>k. sizes_in_range (sys_video s k))"
    and ok: "action_ok N a \<and> set_admitted a \<and> N < 2 ^ 32 \<and> keeps_caps (su_env su)"
  obtain s' where "act su a s = Inr s'" "world_inv N (sys_world s')"
    using inv_act [of N s a su] inv ok by (auto elim!: yieldsE)
  with sizes_act [of su a s s'] inv ok
  show "yields (\<lambda>s. world_inv N (sys_world s) \<and> (\<forall>k. sizes_in_range (sys_video s k))) (act su a s)" by simp
qed

lemma reads_admitted:
  assumes "world_inv N w" "sizes_in_range priv"
  shows "yields (\<lambda>(w', x). case x of None \<Rightarrow> p = PROP_WINDOW_SET \<or> p = VIDEO_PROP_INVALID
      | Some v \<Rightarrow> value_admitted video_class_params p v)
    (rialto_mse_video_sink_get_property garbage k p priv w)"
  using assms(2)
  by (cases p)
    (auto simp: rialto_mse_video_sink_get_property_def sizes_in_range_def value_admitted_def spec_of_def
      video_class_params_def split: option.split intro!: yields_bind [OF inv_call [OF assms(1) _ keeps_running_rectangle(2)]])

definition within_4k :: "client \<Rightarrow> bool" where
  "within_4k cl \<longleftrightarrow> (\<exists>W H rest. m_clientBackend cl = Some \<lparr>m_mediaPlayerBackend = Some (Create_Pipeline W H # rest)\<rparr> \<and>
     1 \<le> W \<and> W \<le> 3840 \<and> 1 \<le> H \<and> H \<le> 2160)"

lemma limited_within: "limited mw mh cl \<Longrightarrow> mw \<le> 3840 \<Longrightarrow> mh \<le> 2160 \<Longrightarrow> within_4k cl"
proof -
  have one: "1 \<le> (if m = 0 then d else m)" if "d \<noteq> 0" for m d :: u32
    using that by (auto simp: word_le_nat_alt Suc_le_eq unat_gt_0)
  have "within_4k cl" if "mw \<le> 3840" "mh \<le> 2160" "m_clientBackend cl = Some \<lparr>m_mediaPlayerBackend = Some
     (Create_Pipeline (if mw = 0 then 3840 else mw) (if mh = 0 then 2160 else mh) # rest)\<rparr>" for rest
  proof -
    have "(if mw = 0 then 3840 else mw) \<le> 3840" "(if mh = 0 then 2160 else mh) \<le> 2160" using that(1,2) by simp_all
    with one [of 3840 mw] one [of 2160 mh] that(3) show ?thesis unfolding within_4k_def
      by (intro exI [of _ "if mw = 0 then 3840 else mw"] exI [of _ "if mh = 0 then 2160 else mh"] exI [of _ rest]) simp
  qed
  then show "limited mw mh cl \<Longrightarrow> mw \<le> 3840 \<Longrightarrow> mh \<le> 2160 \<Longrightarrow> within_4k cl" unfolding limited_def by blast
qed

text \<open>
  C40. Video limits. If GObject hands over only values within the declared ranges, then whatever happens
  to the sinks of a system, in any order: every property read from a video sink is a value its own
  declaration admits (the rectangle can only be read while there is a client), and whenever a video sink
  goes from READY to PAUSED, every pipeline created for it is limited to between 1 and 3840 times between 1
  and 2160 pixels, the sink's own limits of 0 standing for the greatest values.
\<close>

theorem video_limits_kept:
  assumes "N < 2 ^ 32" "keeps_caps (su_env su)" "list_all (\<lambda>a. action_ok N a \<and> set_admitted a) as"
  shows "yields (\<lambda>s.
      (\<forall>k p. yields (\<lambda>(_, x). case x of None \<Rightarrow> p = PROP_WINDOW_SET \<or> p = VIDEO_PROP_INVALID
              | Some v \<Rightarrow> value_admitted video_class_params p v)
         (rialto_mse_video_sink_get_property (su_garbage su) k p (sys_video s k) (sys_world s))) \<and>
      (\<forall>k. yields (\<lambda>(w', _). \<forall>c. owned w' c \<and> \<not> owned (sys_world s) c \<longrightarrow> within_4k (clients w' c))
         (video_ready_to_paused (su_env su) (su_place su k) (sys_video s k) k (sys_world s))))
    (act_all su as (start_system su garbage ctl))"
proof (rule yields_mono [OF sized_system.run_safe [where N = N and su = su]], goal_cases)
  case 1
  show ?case using inv_start by (simp add: start_system_def sizes_in_range_def new_video_private_def)
next
  case 2
  show ?case using assms by (simp add: list_all_iff)
next
  case (3 s)
  then have "yields (\<lambda>(w', _). \<forall>c. owned w' c \<and> \<not> owned (sys_world s) c \<longrightarrow> within_4k (clients w' c))
      (video_ready_to_paused (su_env su) (su_place su k) (sys_video s k) k (sys_world s))" for k
    by (intro yields_mono [OF video_ready_limits [of N]])
      (auto simp: sizes_in_range_def new_clients_limited_def intro: limited_within)
  with 3 show ?case by (auto intro!: reads_admitted)
qed

definition video_setup :: sink_setup where
  "video_setup = example_setup\<lparr>su_video := (\<lambda>_. True)\<rparr>"

definition narrow_run :: "sink_action list" where
  "narrow_run = [Set_Property 0 (Video_Prop PROP_MAX_VIDEO_WIDTH) (V_Uint 1280)]"

definition narrow_start :: sink_system where
  "narrow_start = start_system video_setup segment_init (\<lambda>_. \<lparr>cb_state = INACTIVE, cb_control = True\<rparr>)"

lemma narrow_ready:
  "yields (\<lambda>s. maxWidth (sys_video s 0) = 1280 \<and> \<not> owned (sys_world s) 0 \<and>
     yields (\<lambda>(w', ok). ok \<and> owned w' 0)
       (video_ready_to_paused (su_env video_setup) (su_place video_setup 0) (sys_video s 0) 0 (sys_world s)))
    (act_all video_setup narrow_run narrow_start)"
  by code_simp

theorem video_limits_kept_witness:
  "yields (\<lambda>s. maxWidth (sys_video s 0) = 1280 \<and>
     yields (\<lambda>(w', _). within_4k (clients w' 0))
       (video_ready_to_paused (su_env video_setup) (su_place video_setup 0) (sys_video s 0) 0 (sys_world s)))
    (act_all video_setup narrow_run narrow_start)"
proof -
  have "(1::nat) < 2 ^ 32" "keeps_caps (su_env video_setup)"
    "list_all (\<lambda>a. action_ok 1 a \<and> set_admitted a) narrow_run"
    using preroll_ok(2) by (simp_all add: narrow_run_def value_admitted_def spec_of_def video_class_params_def video_setup_def)
  note kept = video_limits_kept [OF this, of segment_init "\<lambda>_. \<lparr>cb_state = INACTIVE, cb_control = True\<rparr>", folded narrow_start_def]
  obtain s where s: "act_all video_setup narrow_run narrow_start = Inr s" and r: "maxWidth (sys_video s 0) = 1280"
    "\<not> owned (sys_world s) 0"
    "yields (\<lambda>(w', ok). ok \<and> owned w' 0)
       (video_ready_to_paused (su_env video_setup) (su_place video_setup 0) (sys_video s 0) 0 (sys_world s))"
    using narrow_ready by (auto elim!: yieldsE)
  from kept s have "yields (\<lambda>(w', _). \<forall>c. owned w' c \<and> \<not> owned (sys_world s) c \<longrightarrow> within_4k (clients w' c))
      (video_ready_to_paused (su_env video_setup) (su_place video_setup 0) (sys_video s 0) 0 (sys_world s))" by simp
  with s r show ?thesis by (auto elim!: yieldsE)
qed

section \<open>Destruction\<close>

text \<open>
  GStreamer destroys an element when nothing refers to it any more, so no thread of its pad is in it. The
  destructor of the private structure empties the queue; then the members are destroyed, among them the
  manager, which releases its client. What the remaining members hold is gone with them and not
  represented (the control client is a member of its own, which no release reads).
\<close>

definition destroy_manager :: "pipeline \<Rightarrow> i32 \<Rightarrow> nat \<Rightarrow> world \<Rightarrow> world result" where
  "destroy_manager ora undef k w = releaseMediaPlayerClient ora undef k w"

definition destroy_private :: "pipeline \<Rightarrow> i32 \<Rightarrow> nat \<Rightarrow> world \<Rightarrow> world result" where
  "destroy_private ora undef k w = destroy_manager ora undef k (on_sink k clearBuffersUnlocked w)"

definition rialto_mse_base_sink_finalize :: "pipeline \<Rightarrow> i32 \<Rightarrow> nat \<Rightarrow> world \<Rightarrow> world result" where
  "rialto_mse_base_sink_finalize ora undef k w = destroy_private ora undef k w"

lemmas finalize_defs = rialto_mse_base_sink_finalize_def destroy_private_def destroy_manager_def

fun finalize_all :: "pipeline \<Rightarrow> i32 \<Rightarrow> nat list \<Rightarrow> world \<Rightarrow> world result" where
  "finalize_all ora undef [] w = Inr w"
| "finalize_all ora undef (k # ks) w =
     bind_result (rialto_mse_base_sink_finalize ora undef k w) (finalize_all ora undef ks)"

lemma sink_ok_clear: "sink_ok s \<Longrightarrow> sink_ok (clearBuffersUnlocked s)"
  using queue_inv_clear [of s] by (simp add: sink_ok_def clearBuffersUnlocked_def notify_need_data_def)

lemma finalize_step:
  assumes "world_inv N w"
  shows "yields (\<lambda>w'. world_inv N w' \<and> managers w' = (managers w)(k := new_manager) \<and> only_frees w w')
    (rialto_mse_base_sink_finalize ora undef k w)"
proof -
  have inv: "world_inv N (on_sink k clearBuffersUnlocked w)"
    using world_inv_on_sink [OF assms sink_ok_clear] .
  obtain w' where "rialto_mse_base_sink_finalize ora undef k w = Inr w'" "world_inv N w'"
    "managers w' = (managers w)(k := new_manager)"
    using release_cases [OF inv, of k ora undef] by (auto simp: finalize_defs on_sink_def elim!: yieldsE)
  with release_frees [OF inv, of ora undef k] show ?thesis
    by (simp add: finalize_defs only_frees_def owned_def on_sink_def)
qed

text \<open>Each destroyed sink joins those whose manager holds no client any more.\<close>

interpretation finalize_system: guarded_system "rialto_mse_base_sink_finalize ora undef" "finalize_all ora undef"
  "\<lambda>_. True" "\<lambda>_ _. True" insert
  "\<lambda>destroyed w. world_inv N w \<and> only_frees since w \<and> (\<forall>k \<in> destroyed. managers w k = new_manager)"
  for ora undef N since
proof unfold_locales
  fix destroyed k w
  assume "world_inv N w \<and> only_frees since w \<and> (\<forall>k \<in> destroyed. managers w k = new_manager)"
  then show "yields (\<lambda>w. world_inv N w \<and> only_frees since w \<and> (\<forall>k \<in> insert k destroyed. managers w k = new_manager))
      (rialto_mse_base_sink_finalize ora undef k w)"
    by (intro yields_mono [OF finalize_step [of N]]) (auto intro: only_frees_trans)
qed simp_all

lemma finalize_all_inv:
  assumes "world_inv N w"
  shows "yields (\<lambda>w'. world_inv N w' \<and> only_frees w w' \<and> (\<forall>k \<in> set ks. managers w' k = new_manager))
    (finalize_all ora undef ks w)"
  using finalize_system.run_kept [where N = N and since = w and g = "{}" and s = w and as = ks] assms
  by (simp add: union_set_fold [symmetric] list_all_iff)

text \<open>
  C28. Nothing is left behind. From any state that sinks, pipelines and threads can reach, destroying all
  sinks in any order, without any state change before it, does not fault and leaves no entry in the shared
  map: no sink reaches a client any more, and every client that was in use has stopped streaming, its event
  loop and the pullers of its sources do not run and hold no message, and its pipeline is gone.
\<close>

theorem finalized_sinks_free_clients:
  assumes "N < 2 ^ 32" "keeps_caps (su_env su)" "list_all (action_ok N) as"
    and "act_all su as (start_system su garbage ctl) = Inr s" "\<And>k. k < N \<Longrightarrow> k \<in> set ks"
  shows "yields (\<lambda>w'. m_mediaPlayerClientsInfo w' = [] \<and> (\<forall>k. getMediaPlayerClient k w' = None) \<and>
      (\<forall>c. owned (sys_world s) c \<longrightarrow> freed (clients w' c)))
    (finalize_all (env_pipeline (su_env su)) (env_undef (su_env su)) ks (sys_world s))"
proof -
  have inv: "world_inv N (sys_world s)"
    using inv_act_all [OF assms(1,2) inv_start assms(3), of su garbage ctl] assms(4) by simp
  show ?thesis
  proof (rule yields_mono [OF finalize_all_inv [OF inv]], elim conjE)
    fix w' assume w': "world_inv N w'" "only_frees (sys_world s) w'"
      "\<forall>k \<in> set ks. managers w' k = new_manager"
    have none: "managers w' k = new_manager" for k
      using w'(3) assms(5) [of k] by (cases rule: manager_cases [OF w'(1), of k]) auto
    then have "attached_to p w' = {}" for p by (simp add: attached_to_def new_manager_def)
    then have "info_of w' p = None" for p
      using w'(1) by (cases "info_of w' p") (auto simp: world_inv_def infos_ok_def info_ok_def)
    then have "m_mediaPlayerClientsInfo w' = []" by (metis map_of_eq_empty_iff ext)
    with none w'(2) show "m_mediaPlayerClientsInfo w' = [] \<and> (\<forall>k. getMediaPlayerClient k w' = None) \<and>
      (\<forall>c. owned (sys_world s) c \<longrightarrow> freed (clients w' c))"
      by (auto simp: getMediaPlayerClient_def lock_client_def new_manager_def only_frees_def owned_def)
  qed
qed

theorem finalized_sinks_free_clients_witness:
  "\<exists>s. act_all example_setup preroll_run preroll_start = Inr s \<and> getMediaPlayerClient 0 (sys_world s) = Some 0 \<and>
     pipeline_alive (mse_of 0 (sys_world s)) \<and>
     yields (\<lambda>w'. freed (clients w' 0))
       (finalize_all (env_pipeline example_env) (env_undef example_env) [0] (sys_world s))"
proof -
  obtain s where s: "act_all example_setup preroll_run preroll_start = Inr s" and p: "prerolled (sys_world s)"
    by (rule yieldsE [OF preroll_result])
  have c: "getMediaPlayerClient 0 (sys_world s) = Some 0" "owned (sys_world s) 0"
    using p by (simp_all add: prerolled_def getMediaPlayerClient_def lock_client_def owned_def)
  have n: "(1::nat) < 2 ^ 32" by simp
  have "world_inv 1 (sys_world s)"
    using inv_act_all [OF n preroll_ok(2) inv_start preroll_ok(1)] s unfolding preroll_start_def by (metis yields_simps(1))
  then have "pipeline_alive (mse_of 0 (sys_world s))" using run_inv_alive [OF owned_run [OF _ c(2)]] by blast
  moreover have "yields (\<lambda>w'. freed (clients w' 0))
      (finalize_all (env_pipeline (su_env example_setup)) (env_undef (su_env example_setup)) [0] (sys_world s))"
    by (rule yields_mono [OF finalized_sinks_free_clients [OF n preroll_ok(2,1) s [unfolded preroll_start_def]]])
      (use c(2) in auto)
  ultimately show ?thesis using s c(1) by (auto simp: example_setup_def)
qed

end
