(* ===== verification/Plugin.thy ===== *)
theory Plugin
  imports C_Strings
begin

text \<open>
  The entry point of the plugin, \<open>RialtoGSteamerPlugin.cpp\<close>: it chooses the rank of the three sinks from
  two environment variables and registers them. What \<open>getenv\<close> returns, whether \<open>errno\<close> holds \<open>ERANGE\<close>
  when the function is entered, and what \<open>gst_element_register\<close> answers are arguments.
\<close>

definition GST_RANK_PRIMARY :: u32 where
  "GST_RANK_PRIMARY = 256"

text \<open>The code does not clear \<open>errno\<close> before \<open>strtoul\<close>; the value is cut to a \<open>guint\<close>.\<close>

definition sink_rank :: "string option \<Rightarrow> string option \<Rightarrow> bool \<Rightarrow> u32" where
  "sink_rank socketPathStr sinkRankStr errno_erange =
     (let sinkRank = (if socketPathStr \<noteq> None then GST_RANK_PRIMARY + 100 else 0)
      in case sinkRankStr of
           None \<Rightarrow> sinkRank
         | Some s \<Rightarrow>
            (let (val, end, erange) = strtoul s
             in if end \<noteq> [] \<or> erange \<or> errno_erange then sinkRank else ucast val))"

text \<open>The registrations that are attempted, in order, and the result; \<open>&&\<close> stops at the first failure.\<close>

fun register_all :: "(string \<Rightarrow> u32 \<Rightarrow> bool) \<Rightarrow> u32 \<Rightarrow> string list \<Rightarrow> (string \<times> u32) list \<times> bool" where
  "register_all gst_element_register rank [] = ([], True)"
| "register_all gst_element_register rank (n # ns) =
     (if gst_element_register n rank
      then (let (rs, ok) = register_all gst_element_register rank ns in ((n, rank) # rs, ok))
      else ([(n, rank)], False))"

definition rialto_mse_sinks_init ::
  "string option \<Rightarrow> string option \<Rightarrow> bool \<Rightarrow> (string \<Rightarrow> u32 \<Rightarrow> bool) \<Rightarrow> (string \<times> u32) list \<times> bool" where
  "rialto_mse_sinks_init socketPathStr sinkRankStr errno_erange gst_element_register =
     (let sinkRank = sink_rank socketPathStr sinkRankStr errno_erange
      in if sinkRank = 0 then ([], True)
         else register_all gst_element_register sinkRank [''rialtomsevideosink'', ''rialtomseaudiosink'', ''rialtowebaudiosink''])"

lemma sink_rank_digits:
  assumes "ds \<noteq> []" "list_all is_digit ds" "decimal_value ds < 2 ^ 64"
  shows "sink_rank path (Some ds) False = of_nat (decimal_value ds)"
proof -
  have "(ucast (of_nat (decimal_value ds) :: u64) :: u32) = of_nat (decimal_value ds)"
    using take_bit_nat_eq_self [of "decimal_value ds" 64] assms(3) by (simp add: unsigned_of_nat)
  with assms show ?thesis by (simp add: sink_rank_def strtoul_digits)
qed

text \<open>
  The rank of the sinks. A rank printed in decimal is taken as it is, and the three sinks are
  registered with it, video first; rank 0 registers nothing and succeeds. A text with anything after
  the number, or a number out of range, leaves the default: 356 with a socket path, else 0. A number
  that does not fit 32 bits is cut: \<open>2 ^ 32\<close> disables the sinks like 0.
\<close>

theorem plugin_registers_ranked_sinks:
  "(\<forall>n. n < 2 ^ 32 \<longrightarrow> rialto_mse_sinks_init path (Some (decimal n)) False (\<lambda>_ _. True) =
      (if n = 0 then [] else [(''rialtomsevideosink'', of_nat n), (''rialtomseaudiosink'', of_nat n), (''rialtowebaudiosink'', of_nat n)], True)) \<and>
   (\<forall>s. (fst (snd (strtoul s)) \<noteq> [] \<or> snd (snd (strtoul s)) \<or> errno) \<longrightarrow>
      sink_rank path (Some s) errno = (if path = None then 0 else 356)) \<and>
   rialto_mse_sinks_init path (Some (decimal (2 ^ 32))) False reg = ([], True)"
proof (intro conjI allI impI)
  fix n :: nat assume n: "n < 2 ^ 32"
  then have "sink_rank path (Some (decimal n)) False = of_nat n"
    using sink_rank_digits [OF decimal_nonempty decimal_digits, of n] by (simp add: decimal_value_decimal)
  moreover have "(of_nat n :: u32) = 0 \<longleftrightarrow> n = 0"
    using n nat_dvd_not_less [of n "2 ^ 32"] by (cases "n = 0") (simp_all add: word_of_nat_eq_0_iff)
  ultimately show "rialto_mse_sinks_init path (Some (decimal n)) False (\<lambda>_ _. True) =
      (if n = 0 then [] else [(''rialtomsevideosink'', of_nat n), (''rialtomseaudiosink'', of_nat n), (''rialtowebaudiosink'', of_nat n)], True)"
    by (simp add: rialto_mse_sinks_init_def)
next
  fix s :: string assume "fst (snd (strtoul s)) \<noteq> [] \<or> snd (snd (strtoul s)) \<or> errno"
  then show "sink_rank path (Some s) errno = (if path = None then 0 else 356)"
    by (auto simp: sink_rank_def GST_RANK_PRIMARY_def split: prod.split)
next
  have "sink_rank path (Some (decimal (2 ^ 32))) False = 0"
    using sink_rank_digits [OF decimal_nonempty decimal_digits, of "2 ^ 32"] by (simp add: decimal_value_decimal)
  then show "rialto_mse_sinks_init path (Some (decimal (2 ^ 32))) False reg = ([], True)"
    by (simp add: rialto_mse_sinks_init_def)
qed

theorem plugin_registers_ranked_sinks_witness:
  "rialto_mse_sinks_init None (Some ''260'') False (\<lambda>_ _. True) =
     ([(''rialtomsevideosink'', 260), (''rialtomseaudiosink'', 260), (''rialtowebaudiosink'', 260)], True) \<and>
   sink_rank (Some ''/tmp/rialto'') (Some ''256x'') False = 356"
proof
  have d: "decimal 260 = ''260''" by code_simp
  have "rialto_mse_sinks_init None (Some (decimal 260)) False (\<lambda>_ _. True) =
      (if (260::nat) = 0 then [] else [(''rialtomsevideosink'', of_nat 260), (''rialtomseaudiosink'', of_nat 260), (''rialtowebaudiosink'', of_nat 260)], True)"
    by (rule conjunct1 [OF plugin_registers_ranked_sinks, rule_format]) simp
  then show "rialto_mse_sinks_init None (Some ''260'') False (\<lambda>_ _. True) =
     ([(''rialtomsevideosink'', 260), (''rialtomseaudiosink'', 260), (''rialtowebaudiosink'', 260)], True)" by (simp add: d)
  have "fst (snd (strtoul ''256x'')) \<noteq> []"
    by (simp add: strtoul_def skip_sign_def is_space_def is_digit_def decimal_value_def Let_def)
  then have "sink_rank (Some ''/tmp/rialto'') (Some ''256x'') False = (if Some ''/tmp/rialto'' = None then 0 else 356)"
    by (intro conjunct1 [OF conjunct2 [OF plugin_registers_ranked_sinks], rule_format]) simp
  then show "sink_rank (Some ''/tmp/rialto'') (Some ''256x'') False = 356" by simp
qed

end
