(* ===== verification/Notifications.thy ===== *)
theory Notifications
  imports Sink_Protocol Seek_Protocol "HOL-Library.Sublist"
begin

text \<open>
  What the server tells its clients, on its way to the sinks. A notification is posted to the event loop of the
  client, which hands it to the sinks of the sources it concerns. A sink is shown to be told every
  notification for it, once and in the order the server sent them, and nothing else, whatever the
  pullers do meanwhile.
\<close>

section \<open>Which source plays for which sink\<close>

definition routes :: "client \<Rightarrow> (i32 \<times> nat) list" where
  "routes cl = map (\<lambda>(i, a). (i, as_rialtoSink a)) (m_attachedSources cl)"

definition routes_to :: "nat \<Rightarrow> client \<Rightarrow> i32 list" where
  "routes_to k cl = map fst (filter (\<lambda>(i, k'). k' = k) (routes cl))"

lemma routes_modify:
  "(\<And>a. as_rialtoSink (f a) = as_rialtoSink a) \<Longrightarrow>
     map (\<lambda>(i, a). (i, as_rialtoSink a)) (assoc_modify j f xs) = map (\<lambda>(i, a). (i, as_rialtoSink a)) xs"
  "(\<And>a. as_rialtoSink (f a) = as_rialtoSink a) \<Longrightarrow>
     map (\<lambda>(i, a). (i, as_rialtoSink a)) (assoc_map f xs) = map (\<lambda>(i, a). (i, as_rialtoSink a)) xs"
  by (induction xs) (auto simp: assoc_modify_def assoc_map_def)

lemma routes_start [simp]: "routes (startPullingDataIfSeekFinished cl) = routes cl"
  by (simp add: routes_def startPullingDataIfSeekFinished_def start_puller_def routes_modify)

lemma routes_update [simp]:
  "routes (cl\<lparr>m_serverSeekingState := st\<rparr>) = routes cl"
  "routes (cl\<lparr>m_position := p\<rparr>) = routes cl"
  "routes (cl\<lparr>m_duration := p\<rparr>) = routes cl"
  "routes (cl\<lparr>m_backendQueue := q\<rparr>) = routes cl"
  by (simp_all add: routes_def)

lemma routes_puller [simp]: "routes (client_of (set_puller_queue i q w)) = routes (client_of w)"
  by (simp add: routes_def set_puller_queue_def routes_modify)

lemma routes_same: "m_attachedSources cl' = m_attachedSources cl \<Longrightarrow> routes cl' = routes cl"
  by (simp add: routes_def)

lemma routes_toI: "(i, a) \<in> set (m_attachedSources cl) \<Longrightarrow> i \<in> set (routes_to (as_rialtoSink a) cl)"
  by (force simp: routes_to_def routes_def)

lemma routes_toD: "i \<in> set (routes_to k cl) \<Longrightarrow> \<exists>a. (i, a) \<in> set (m_attachedSources cl) \<and> as_rialtoSink a = k"
  by (auto simp: routes_to_def routes_def)

lemma for_sinks_at: "sinks (for_sinks f w) k = (f ^^ length (routes_to k (client_of w))) (sinks w k)"
proof -
  have "sinks (fold (\<lambda>(i, a). upd_sink (as_rialtoSink a) f) xs u) k =
      (f ^^ length (filter (\<lambda>(i, k'). k' = k) (map (\<lambda>(i, a). (i, as_rialtoSink a)) xs))) (sinks u k)" for xs u
    by (induction xs arbitrary: u) (auto simp: case_prod_beta funpow_swap1)
  then show ?thesis by (simp add: for_sinks_def routes_to_def routes_def)
qed

section \<open>What a sink is told\<close>

text \<open>
  What a notification does to the sink of source \<open>i\<close>. The effect of \<open>FLUSHED\<close> and \<open>FAILURE\<close> depends on whether
  the server is seeking (\<open>m_serverSeekingState\<close> is \<open>SEEKING\<close>), and both end it: that is the first component.
\<close>

fun told :: "i32 \<Rightarrow> backend_message \<Rightarrow> bool \<times> base_sink \<Rightarrow> bool \<times> base_sink" where
  "told i (Playback_State_Message st) (seeking, s) =
     (case st of
        PS_PAUSED \<Rightarrow> (seeking, rialto_mse_base_handle_rialto_server_state_changed st s)
      | PS_PLAYING \<Rightarrow> (seeking, rialto_mse_base_handle_rialto_server_state_changed st s)
      | PS_END_OF_STREAM \<Rightarrow> (seeking, rialto_mse_base_handle_rialto_server_eos s)
      | PS_FLUSHED \<Rightarrow> (False, if seeking then rialto_mse_base_handle_rialto_server_completed_seek s else s)
      | PS_FAILURE \<Rightarrow> (False, rialto_mse_base_handle_rialto_server_error
          (if seeking then rialto_mse_base_handle_rialto_server_completed_seek s else s))
      | PS_OTHER \<Rightarrow> (seeking, s))"
| "told i (Qos_Message j processed dropped) (seeking, s) =
     (seeking, if j = i then rialto_mse_base_handle_rialto_server_sent_qos processed dropped s else s)"
| "told i (Buffer_Underflow_Message j) (seeking, s) =
     (seeking, if j = i then rialto_mse_base_handle_rialto_server_sent_buffer_underflow s else s)"
| "told i _ v = v"

text \<open>
  What the application sees of a sink: its element with the bus, its signals, and what the handlers look at;
  and the wait of a seek, which a thread of the application is in.
\<close>

definition shown :: "base_sink \<Rightarrow> gst_element \<times> bool \<times> nat \<times> bool \<times> bool \<times> bool \<times> qos_format option \<times> bool \<times> bool" where
  "shown s = (element s, m_isStateCommitNeeded s, sink_signals s, m_seekWaiting s, cb_stateChanged s, cb_eos s, cb_qos s, cb_error s,
     cb_seekCompleted s)"

definition seen :: "nat \<Rightarrow> mse \<Rightarrow> bool \<times> base_sink" where
  "seen k w = (m_serverSeekingState (client_of w) = SEEKING, sinks w k)"

definition looks :: "bool \<times> base_sink \<Rightarrow> bool \<times> gst_element \<times> bool \<times> nat \<times> bool \<times> bool \<times> bool \<times> qos_format option \<times> bool \<times> bool" where
  "looks v = (fst v, shown (snd v))"

lemma shown_quiet [simp]:
  "shown (set_front_buffer b s) = shown s" "shown (rialto_mse_base_sink_pop_sample s) = shown s"
  by (simp_all add: shown_def set_front_buffer_def queue_op_defs Let_def)

lemma shown_handlers:
  assumes "shown s = shown t"
  shows "shown (rialto_mse_base_handle_rialto_server_completed_seek s) = shown (rialto_mse_base_handle_rialto_server_completed_seek t)"
    "shown (rialto_mse_base_handle_rialto_server_error s) = shown (rialto_mse_base_handle_rialto_server_error t)"
    "shown (rialto_mse_base_handle_rialto_server_state_changed st s) = shown (rialto_mse_base_handle_rialto_server_state_changed st t)"
    "shown (rialto_mse_base_handle_rialto_server_eos s) = shown (rialto_mse_base_handle_rialto_server_eos t)"
    "shown (rialto_mse_base_handle_rialto_server_sent_qos p d s) = shown (rialto_mse_base_handle_rialto_server_sent_qos p d t)"
    "shown (rialto_mse_base_handle_rialto_server_sent_buffer_underflow s) = shown (rialto_mse_base_handle_rialto_server_sent_buffer_underflow t)"
proof -
  note e = assms [unfolded shown_def prod.inject]
  show "shown (rialto_mse_base_handle_rialto_server_completed_seek s) = shown (rialto_mse_base_handle_rialto_server_completed_seek t)"
    by (simp add: e shown_def handler_defs)
  show "shown (rialto_mse_base_handle_rialto_server_error s) = shown (rialto_mse_base_handle_rialto_server_error t)"
    by (simp add: e shown_def handler_defs rialto_mse_base_sink_error_handler_def post_message_def)
  show "shown (rialto_mse_base_handle_rialto_server_state_changed st s) = shown (rialto_mse_base_handle_rialto_server_state_changed st t)"
    by (cases st) (simp_all add: e shown_def handler_defs Let_def post_message_def rialto_mse_base_sink_rialto_state_changed_handler_def)
  show "shown (rialto_mse_base_handle_rialto_server_eos s) = shown (rialto_mse_base_handle_rialto_server_eos t)"
    by (simp add: e shown_def handler_defs Let_def post_message_def rialto_mse_base_sink_eos_handler_def)
  show "shown (rialto_mse_base_handle_rialto_server_sent_qos p d s) = shown (rialto_mse_base_handle_rialto_server_sent_qos p d t)"
    by (simp add: e shown_def handler_defs post_message_def split: option.split qos_format.split)
  show "shown (rialto_mse_base_handle_rialto_server_sent_buffer_underflow s) = shown (rialto_mse_base_handle_rialto_server_sent_buffer_underflow t)"
    by (simp add: e shown_def handler_defs)
qed

lemma shown_told:
  assumes "looks u = looks v"
  shows "looks (told i m u) = looks (told i m v)"
proof -
  obtain b s t where v: "u = (b, s)" "v = (b, t)" "shown s = shown t" using assms by (cases u; cases v) (auto simp: looks_def)
  note h = shown_handlers [OF v(3)]
  show ?thesis
  proof (cases m)
    case (Playback_State_Message st)
    then show ?thesis by (cases st; cases b) (simp_all add: v looks_def h shown_handlers(2) [OF h(1)])
  qed (simp_all add: v looks_def h)
qed

lemma shown_told_all: "looks u = looks v \<Longrightarrow> looks (fold (told i) ms u) = looks (fold (told i) ms v)"
proof (induction ms arbitrary: u v)
  case (Cons m ms)
  from Cons.IH [OF shown_told [OF Cons.prems]] show ?case by simp
qed simp

lemma told_other: "\<not> is_notification m \<Longrightarrow> told i m v = v"
  by (cases m) simp_all

section \<open>One message\<close>

abbreviation backend_items :: "mse \<Rightarrow> backend_message list" where
  "backend_items w \<equiv> sq_items (m_backendQueue (client_of w))"

lemma backend_do_frame:
  assumes "backend_do ora c w = Inr (w', a)"
  shows "sinks w' = sinks w" "routes (client_of w') = routes (client_of w)" "backend_items w' = backend_items w"
    "m_serverSeekingState (client_of w') = m_serverSeekingState (client_of w)"
  using assms by (auto simp: backend_do_def bind_result_Inr routes_def split: option.splits)

lemma start_pulling_queue [simp]: "m_backendQueue (startPullingDataIfSeekFinished cl) = m_backendQueue cl"
  by (simp add: startPullingDataIfSeekFinished_def)

lemma handle_routes:
  assumes "handle_backend_message ora m w = Inr w'"
  shows "routes (client_of w') = routes (client_of w)"
    "\<exists>xs. backend_items w' = backend_items w @ xs \<and> filter is_notification xs = []"
proof -
  have "backend_items (set_puller_queue i q u) = backend_items u" for i q u
    by (simp add: set_puller_queue_def)
  then show "routes (client_of w') = routes (client_of w)"
    "\<exists>xs. backend_items w' = backend_items w @ xs \<and> filter is_notification xs = []"
    using assms
    by (cases m;
      auto simp: HaveDataMessage_handle_def NeedDataMessage_handle_def requestPullBuffer_def handleQos_def handleBufferUnderflow_def
        BufferPuller_requestPullBuffer_def post_backend_def handlePlaybackStateChange_def sq_post_def
        bind_result_Inr Let_def dest: backend_do_frame split: option.splits if_splits playback_state.splits prod.splits)+
qed

lemma not_seeking_again: "m_serverSeekingState cl \<noteq> SEEKING \<Longrightarrow> m_serverSeekingState (startPullingDataIfSeekFinished cl) \<noteq> SEEKING"
  by (simp add: startPullingDataIfSeekFinished_def)

lemma handle_told:
  assumes "handle_backend_message ora m w = Inr w'" "distinct (map fst (m_attachedSources (client_of w)))"
  shows "routes_to k (client_of w) = [i] \<Longrightarrow> seen k w' = told i m (seen k w)"
    "routes_to k (client_of w) = [] \<Longrightarrow> sinks w' k = sinks w k"
proof -
  have one: "(as_rialtoSink a = k) = (j = i)"
    if "routes_to k (client_of w) = [i]" "map_of (m_attachedSources (client_of w)) j = Some a" for a j
  proof -
    note a = map_of_SomeD [OF that(2)]
    then have imp: "as_rialtoSink a = k \<Longrightarrow> j = i" using routes_toI that(1) by fastforce
    have "\<exists>b. (i, b) \<in> set (m_attachedSources (client_of w)) \<and> as_rialtoSink b = k"
      using that(1) by (intro routes_toD) simp
    then obtain b where b: "(i, b) \<in> set (m_attachedSources (client_of w))" "as_rialtoSink b = k" by blast
    have "as_rialtoSink a = k" if "j = i"
      using eq_key_imp_eq_value [OF assms(2) a [unfolded that] b(1)] b(2) by simp
    with imp show ?thesis by blast
  qed
  have at: "map_of (m_attachedSources (client_of w)) i \<noteq> None" if "routes_to k (client_of w) = [i]"
  proof -
    have "\<exists>b. (i, b) \<in> set (m_attachedSources (client_of w)) \<and> as_rialtoSink b = k" using that by (intro routes_toD) simp
    then obtain b where "(i, b) \<in> set (m_attachedSources (client_of w))" by blast
    from weak_map_of_SomeI [OF this] show ?thesis by auto
  qed
  have none: "as_rialtoSink a \<noteq> k" if "routes_to k (client_of w) = []" "map_of (m_attachedSources (client_of w)) j = Some a" for a j
    using routes_toI [OF map_of_SomeD [OF that(2)]] that(1) by auto
  show "seen k w' = told i m (seen k w)" if r: "routes_to k (client_of w) = [i]"
  proof (cases m)
    case (Playback_State_Message st)
    from assms(1) Playback_State_Message r not_seeking_again [of "(client_of w)\<lparr>m_serverSeekingState := SEEK_DONE\<rparr>"] show ?thesis
      by (cases st) (auto simp: seen_def handlePlaybackStateChange_def for_sinks_at Let_def routes_to_def)
  next
    case (Qos_Message j p d)
    with assms(1) at [OF r] one [OF r, of j] show ?thesis
      by (cases "map_of (m_attachedSources (client_of w)) j") (auto simp: seen_def handleQos_def)
  next
    case (Buffer_Underflow_Message j)
    with assms(1) at [OF r] one [OF r, of j] show ?thesis
      by (cases "map_of (m_attachedSources (client_of w)) j") (auto simp: seen_def handleBufferUnderflow_def)
  qed (use assms(1) in \<open>auto simp: seen_def HaveDataMessage_handle_def NeedDataMessage_handle_def requestPullBuffer_def
      BufferPuller_requestPullBuffer_def set_puller_queue_def post_backend_def bind_result_Inr Let_def dest: backend_do_frame(1,4)
      split: option.splits if_splits prod.splits\<close>)
  show "sinks w' k = sinks w k" if r: "routes_to k (client_of w) = []"
  proof (cases m)
    case (Playback_State_Message st)
    with assms(1) r show ?thesis
      by (cases st) (auto simp: handlePlaybackStateChange_def for_sinks_at Let_def routes_to_def)
  next
    case (Qos_Message j p d)
    with assms(1) none [OF r, where j = j] show ?thesis
      by (cases "map_of (m_attachedSources (client_of w)) j") (auto simp: handleQos_def)
  next
    case (Buffer_Underflow_Message j)
    with assms(1) none [OF r, where j = j] show ?thesis
      by (cases "map_of (m_attachedSources (client_of w)) j") (auto simp: handleBufferUnderflow_def)
  qed (use assms(1) in \<open>auto simp: HaveDataMessage_handle_def NeedDataMessage_handle_def requestPullBuffer_def
      BufferPuller_requestPullBuffer_def set_puller_queue_def post_backend_def bind_result_Inr Let_def dest: backend_do_frame(1)
      split: option.splits if_splits prod.splits\<close>)
qed

text \<open>A pull request: no sink is told anything, and what it posts is no notification.\<close>

lemma pull_frame:
  assumes "PullBufferMessage_handle ora undef j p m w = Inr w'"
    and "\<And>s b. f (set_front_buffer b s) = f s" "\<And>s. f (rialto_mse_base_sink_pop_sample s) = f s"
  shows "f (sinks w' k) = f (sinks w k)" "routes (client_of w') = routes (client_of w)"
    "\<exists>xs. backend_items w' = backend_items w @ xs \<and> filter is_notification xs = []"
    "m_serverSeekingState (client_of w') = m_serverSeekingState (client_of w)"
proof -
  have l: "routes (client_of y) = routes (client_of x) \<and> backend_items y = backend_items x \<and>
      m_serverSeekingState (client_of y) = m_serverSeekingState (client_of x)"
    if "pull_frames ora undef p j i req n ad x = Inr (y, e)" for i req n ad x y e
    using that
  proof (induction n arbitrary: x ad)
    case (Suc n)
    have b: "routes (client_of u') = routes (client_of u) \<and> backend_items u' = backend_items u \<and>
        m_serverSeekingState (client_of u') = m_serverSeekingState (client_of u)"
      if "backend_do ora c u = Inr (u', a)" for c u u' a using backend_do_frame [OF that] by simp
    from Suc.prems show ?case
      by (auto simp: bind_result_Inr addSegment_def split: option.splits if_splits dest!: b Suc.IH)
  qed simp
  then have l: "routes (client_of y) = routes (client_of x) \<and> backend_items y = backend_items x \<and>
      m_serverSeekingState (client_of y) = m_serverSeekingState (client_of x)"
    if "pull_loop ora undef p j i req fc fr ad x = Inr (y, e)" for i req fc fr ad x y e
    using that pull_loop_some_frames [of ora undef p j i req fc fr ad x] by fastforce
  show "f (sinks w' k) = f (sinks w k)"
    using assms(1) pull_loop_sinks [of f, OF assms(2,3)]
    by (cases m) (auto simp: PullBufferMessage_handle_def bind_result_Inr post_backend_def)
  show "routes (client_of w') = routes (client_of w)"
    using assms(1) l by (cases m) (auto simp: PullBufferMessage_handle_def bind_result_Inr post_backend_def)
  show "\<exists>xs. backend_items w' = backend_items w @ xs \<and> filter is_notification xs = []"
    using assms(1) l by (cases m) (auto simp: PullBufferMessage_handle_def bind_result_Inr post_backend_def sq_post_def)
  show "m_serverSeekingState (client_of w') = m_serverSeekingState (client_of w)"
    using assms(1) l by (cases m) (auto simp: PullBufferMessage_handle_def bind_result_Inr post_backend_def)
qed

section \<open>A run of the client\<close>

text \<open>What the server has sent in a run, and how much of the inbox there was at first is left.\<close>

fun sent_by :: "client_event \<Rightarrow> backend_message list" where
  "sent_by (Notify m) = (if is_notification m then [m] else [])"
| "sent_by _ = []"

definition inbox :: "mse \<Rightarrow> backend_message list" where
  "inbox w = filter is_notification (backend_items w)"

lemma run_inv_activity:
  assumes "run_inv w" "is_activity ev"
  shows "yields run_inv (perform ora undef lost ev w)"
  using assms running_stays_running [OF assms(1), of ev ora undef lost] by (cases ev) auto

text \<open>One activity hands over at most one message, the first, and adds at the end what the server has sent.\<close>

lemma activity_effect:
  assumes "run_inv w" "is_activity ev" "perform ora undef lost ev w = Inr w'"
    and f: "\<And>s b. f (set_front_buffer b s) = f s" "\<And>s. f (rialto_mse_base_sink_pop_sample s) = f s"
  shows "routes (client_of w') = routes (client_of w)"
    "routes_to k (client_of w) = [] \<Longrightarrow> f (sinks w' k) = f (sinks w k)"
    "routes_to k (client_of w) = [i] \<Longrightarrow> looks (seen k w') =
       looks (fold (told i) (if ev = Worker_Turn then take 1 (backend_items w) else []) (seen k w))"
    "\<exists>xs. backend_items w' = (if ev = Worker_Turn then drop 1 (backend_items w) else backend_items w) @ xs \<and>
       filter is_notification xs = sent_by ev"
proof -
  have q: "sq_running (m_backendQueue (client_of w))" "distinct (map fst (m_attachedSources (client_of w)))"
    using assms(1) by (simp_all add: run_inv_def)
  have "routes (client_of w') = routes (client_of w) \<and>
    (routes_to k (client_of w) = [] \<longrightarrow> f (sinks w' k) = f (sinks w k)) \<and>
    (routes_to k (client_of w) = [i] \<longrightarrow> looks (seen k w') =
       looks (fold (told i) (if ev = Worker_Turn then take 1 (backend_items w) else []) (seen k w))) \<and>
    (\<exists>xs. backend_items w' = (if ev = Worker_Turn then drop 1 (backend_items w) else backend_items w) @ xs \<and>
       filter is_notification xs = sent_by ev)"
  proof (cases ev)
    case (Notify m)
    with assms(3) q(1) show ?thesis by (auto simp: post_backend_def sq_post_def seen_def)
  next
    case Worker_Turn
    show ?thesis
    proof (cases "backend_items w")
      case Nil
      with Worker_Turn assms(3) q(1) show ?thesis by (auto simp: turn_def worker_turn_def sq_take_def)
    next
      case (Cons m ms)
      let ?w = "upd_client (\<lambda>cl. cl\<lparr>m_backendQueue := (m_backendQueue cl)\<lparr>sq_items := ms\<rparr>\<rparr>) w"
      have h: "handle_backend_message ora m ?w = Inr w'"
        using Worker_Turn Cons assms(3) q(1) by (simp add: turn_def worker_turn_def sq_take_def upd_client_def)
      have same: "routes (client_of ?w) = routes (client_of w)" "backend_items ?w = ms" "sinks ?w = sinks w"
        "routes_to k (client_of ?w) = routes_to k (client_of w)" "seen k ?w = seen k w"
        by (simp_all add: routes_to_def seen_def)
      have d: "distinct (map fst (m_attachedSources (client_of ?w)))" using q(2) by simp
      show ?thesis
        using handle_routes [OF h] handle_told(1) [OF h d, of k i] handle_told(2) [OF h d, of k] Worker_Turn Cons unfolding same by simp
    qed
  next
    case (Puller_Turn j)
    show ?thesis
    proof (cases "w' = w")
      case False
      obtain p sk m q where h: "PullBufferMessage_handle ora undef sk p m (set_puller_queue j q w) = Inr w'"
        using Puller_Turn assms(3) False by (auto simp: turn_def puller_turn_def split: option.splits prod.splits)
      have same: "sinks (set_puller_queue j q w) = sinks w" "backend_items (set_puller_queue j q w) = backend_items w"
        "m_serverSeekingState (client_of (set_puller_queue j q w)) = m_serverSeekingState (client_of w)"
        by (simp_all add: set_puller_queue_def)
      have "looks (seen k w') = looks (seen k w)"
        using pull_frame(1) [where f = shown and k = k, OF h shown_quiet(1,2)] pull_frame(4) [OF h f] unfolding same
        by (simp add: looks_def seen_def)
      show ?thesis
        using pull_frame(1) [where f = f and k = k, OF h f] pull_frame(2,3) [OF h f] \<open>looks (seen k w') = looks (seen k w)\<close> Puller_Turn
        unfolding same by simp
    qed (use Puller_Turn in simp)
  qed (use assms(2) in auto)
  then show "routes (client_of w') = routes (client_of w)"
    "routes_to k (client_of w) = [] \<Longrightarrow> f (sinks w' k) = f (sinks w k)"
    "routes_to k (client_of w) = [i] \<Longrightarrow> looks (seen k w') =
       looks (fold (told i) (if ev = Worker_Turn then take 1 (backend_items w) else []) (seen k w))"
    "\<exists>xs. backend_items w' = (if ev = Worker_Turn then drop 1 (backend_items w) else backend_items w) @ xs \<and>
       filter is_notification xs = sent_by ev" by blast+
qed

text \<open>
  The grade of a run is what the server has sent so far and how many turns of the worker the messages need
  that were there at the start.
\<close>

fun sends :: "client_event \<Rightarrow> backend_message list \<times> nat \<Rightarrow> backend_message list \<times> nat" where
  "sends ev (ms, t) = (ms @ sent_by ev, if ev = Worker_Turn then t - 1 else t)"

definition delivered :: "nat \<Rightarrow> i32 \<Rightarrow> mse \<Rightarrow> backend_message list \<times> nat \<Rightarrow> mse \<Rightarrow> bool" where
  "delivered k i w g v \<longleftrightarrow> run_inv v \<and> routes_to k (client_of v) = [i] \<and>
     (\<exists>h pre post. h @ inbox v = fst g \<and> looks (seen k v) = looks (fold (told i) h (seen k w)) \<and>
        backend_items v = pre @ post \<and> length pre \<le> snd g \<and> prefix (inbox w) (h @ filter is_notification pre))"

lemma delivered_start:
  "run_inv w \<Longrightarrow> routes_to k (client_of w) = [i] \<Longrightarrow> delivered k i w (inbox w, length (backend_items w)) w"
  unfolding delivered_def by (force simp: inbox_def)

lemma delivered_step:
  assumes "delivered k i w g v" "is_activity ev"
  shows "yields (delivered k i w (sends ev g)) (perform ora undef lost ev v)"
proof -
  obtain ms t where g: "g = (ms, t)" by (cases g)
  obtain h pre post where v: "run_inv v" "routes_to k (client_of v) = [i]" "h @ inbox v = ms"
    "looks (seen k v) = looks (fold (told i) h (seen k w))" "backend_items v = pre @ post" "length pre \<le> t"
    "prefix (inbox w) (h @ filter is_notification pre)"
    using assms(1) by (auto simp: delivered_def g)
  obtain v' where v': "perform ora undef lost ev v = Inr v'" "run_inv v'"
    using run_inv_activity [OF v(1) assms(2), of ora undef lost] by (auto elim: yieldsE)
  note eff = activity_effect [where f = shown, OF v(1) assms(2) v'(1) shown_quiet(1,2)]
  obtain xs where xs: "backend_items v' = (if ev = Worker_Turn then drop 1 (backend_items v) else backend_items v) @ xs"
    "filter is_notification xs = sent_by ev" using eff(4) by blast
  have r: "routes_to k (client_of v') = [i]" using eff(1) v(2) by (simp add: routes_to_def)
  show ?thesis
  proof (cases "ev = Worker_Turn \<and> backend_items v \<noteq> []")
    case True
    then obtain m rest where c: "backend_items v = m # rest" by (cases "backend_items v") auto
    let ?h = "h @ filter is_notification [m]"
    have "looks (seen k v') = looks (told i m (seen k v))" using eff(3) [of k i] v(2) True c by simp
    also have "\<dots> = looks (fold (told i) ?h (seen k w))"
      using shown_told [OF v(4), of i m] told_other [of m i] by (cases "is_notification m") (simp_all add: v(4))
    finally have "looks (seen k v') = looks (fold (told i) ?h (seen k w))" .
    moreover have "?h @ inbox v' = ms" using v(3) c xs True by (auto simp: inbox_def split: if_splits)
    moreover have "\<exists>pre' post'. backend_items v' = pre' @ post' \<and> length pre' \<le> t - 1 \<and>
        prefix (inbox w) (?h @ filter is_notification pre')"
    proof (cases pre)
      case Nil
      with v(7) show ?thesis by (intro exI [of _ "[]"] exI [of _ "backend_items v'"]) (auto intro: prefix_prefix)
    next
      case (Cons m' pre')
      with c v(5) have "m' = m" "rest = pre' @ post" by auto
      with Cons v(6,7) xs(1) c True show ?thesis by (intro exI [of _ pre'] exI [of _ "post @ xs"]) auto
    qed
    ultimately have "delivered k i w (ms, t - 1) v'" using v'(2) r unfolding delivered_def fst_conv snd_conv by blast
    then show ?thesis using True unfolding g v'(1) by simp
  next
    case False
    then have b: "backend_items v' = backend_items v @ xs" using xs(1) by auto
    have "looks (seen k v') = looks (seen k v)" using eff(3) [of k i] v(2) False by auto
    moreover have "length pre \<le> (if ev = Worker_Turn then t - 1 else t)" using False v(5,6) by auto
    moreover have "h @ inbox v' = ms @ sent_by ev" using b xs(2) v(3) by (simp add: inbox_def)
    moreover have "looks (seen k v') = looks (fold (told i) h (seen k w))" if "looks (seen k v') = looks (seen k v)"
      using that v(4) by simp
    moreover have "backend_items v' = pre @ (post @ xs)" using b v(5) by simp
    ultimately have "delivered k i w (ms @ sent_by ev, if ev = Worker_Turn then t - 1 else t) v'"
      using v'(2) r v(7) unfolding delivered_def fst_conv snd_conv by blast
    then show ?thesis unfolding g v'(1) by simp
  qed
qed

interpretation delivery: guarded_system "perform ora undef lost" "perform_all ora undef lost" is_activity "\<lambda>_ _. True"
  sends "delivered k i w"
  for ora undef lost k i w
  by unfold_locales (rule delivered_step)

lemma sends_all:
  "fold sends evs (ms, t) = (ms @ concat (map sent_by evs), t - count_list evs Worker_Turn)"
  by (induction evs arbitrary: ms t) auto

text \<open>
  C5. A sink is told what the server says, in order. While the server notifies, the worker of the client and the
  pullers take turns in any order, sink \<open>k\<close>, for which source \<open>i\<close> alone plays, is told a prefix of all the
  notifications that were waiting or have come, in the order they were sent, each once and by the handler for
  it, and nothing else; the rest is still waiting. The first \<open>FLUSHED\<close> or \<open>FAILURE\<close> during a seek of the
  server also completes the seek: it wakes the thread that waits in the sink, and ends the seek of the server; a
  later \<open>FLUSHED\<close> does nothing. After as many turns of the worker as there were messages, everything that was
  waiting at the start has been told.
\<close>

theorem notifications_told_in_order:
  assumes "run_inv w" "routes_to k (client_of w) = [i]" "list_all is_activity evs"
  shows "yields (\<lambda>w'. \<exists>h. h @ inbox w' = inbox w @ concat (map sent_by evs) \<and>
      looks (seen k w') = looks (fold (told i) h (seen k w)) \<and>
      (length (backend_items w) \<le> count_list evs Worker_Turn \<longrightarrow> prefix (inbox w) h))
    (perform_all ora undef lost evs w)"
proof (rule yields_mono [OF delivery.run_kept [OF delivered_start [OF assms(1,2)] assms(3)]])
  fix w' assume "delivered k i w (fold sends evs (inbox w, length (backend_items w))) w'"
  then obtain h pre post where "h @ inbox w' = inbox w @ concat (map sent_by evs)"
    "looks (seen k w') = looks (fold (told i) h (seen k w))" "length pre \<le> length (backend_items w) - count_list evs Worker_Turn"
    "prefix (inbox w) (h @ filter is_notification pre)"
    by (auto simp: sends_all delivered_def)
  then show "\<exists>h. h @ inbox w' = inbox w @ concat (map sent_by evs) \<and>
      looks (seen k w') = looks (fold (told i) h (seen k w)) \<and>
      (length (backend_items w) \<le> count_list evs Worker_Turn \<longrightarrow> prefix (inbox w) h)"
    by (intro exI [of _ h]) auto
qed simp

section \<open>The whole system\<close>

text \<open>Activity of the clients only: the server notifies, the threads of the clients take their turns.\<close>

fun client_activity :: "sink_action \<Rightarrow> bool" where
  "client_activity (Client_Activity _ _) = True"
| "client_activity _ = False"

text \<open>The same, and the streaming threads: buffers arrive on the pads, and those that wait in \<open>chain\<close> go on.\<close>

fun background :: "sink_action \<Rightarrow> bool" where
  "background (Client_Activity _ _) = True"
| "background (Chain _ _) = True"
| "background (Chain_Resume _) = True"
| "background _ = False"

lemma shown_chain [simp]:
  "shown (fst (rialto_mse_base_sink_chain sn b s)) = shown s" "shown (fst (chain_resume sn s)) = shown s"
  by (auto simp: shown_def rialto_mse_base_sink_chain_def chain_resume_def chain_finish_def Let_def
      split: option.split chain_pc.split)

lemma streaming_unseen:
  assumes "act su a sys = Inr sys'" "background a" "\<And>c ev. a \<noteq> Client_Activity c ev"
  shows "clients (sys_world sys') = clients (sys_world sys)" "shown (w_sinks (sys_world sys') k) = shown (w_sinks (sys_world sys) k)"
    "owned (sys_world sys') = owned (sys_world sys)"
    "client_of (mse_of c (sys_world sys')) = client_of (mse_of c (sys_world sys))"
  using assms by (cases a; force simp: on_sink_def owned_def fun_eq_iff mse_of_def Let_def split: if_splits)+

text \<open>Client \<open>c\<close> alone plays for sink \<open>k\<close>, by source \<open>i\<close>.\<close>

definition plays_alone :: "nat \<Rightarrow> i32 \<Rightarrow> nat \<Rightarrow> world \<Rightarrow> bool" where
  "plays_alone c i k w \<longleftrightarrow> owned w c \<and> routes_to k (clients w c) = [i] \<and>
     (\<forall>d. owned w d \<and> d \<noteq> c \<longrightarrow> routes_to k (clients w d) = [])"

lemma client_activityE:
  assumes "act su (Client_Activity d ev) sys = Inr sys'"
  obtains "sys' = sys" "\<not> (owned (sys_world sys) d \<and> is_activity ev)"
  | v where "owned (sys_world sys) d" "is_activity ev"
    "perform (env_pipeline (su_env su)) (env_undef (su_env su)) (env_lost (su_env su)) ev (mse_of d (sys_world sys)) = Inr v"
    "sys_world sys' = put_mse d v (sys_world sys)"
proof (cases "owned (sys_world sys) d \<and> is_activity ev")
  case True
  with assms obtain v where "perform (env_pipeline (su_env su)) (env_undef (su_env su)) (env_lost (su_env su)) ev
      (mse_of d (sys_world sys)) = Inr v" "sys_world sys' = put_mse d v (sys_world sys)"
    by (auto simp: in_world_def on_client_def bind_result_Inr)
  with True that(2) show thesis by blast
qed (use assms that(1) in auto)

lemma owned_put_mse [simp]: "owned (put_mse d v w) = owned w"
  by (simp add: owned_def [abs_def] put_mse_def)

lemma other_client_unseen:
  assumes "world_inv N (sys_world sys)" "routes_to k (clients (sys_world sys) d) = []" 
    and "act su (Client_Activity d ev) sys = Inr sys'"
    and f: "\<And>s b. f (set_front_buffer b s) = f s" "\<And>s. f (rialto_mse_base_sink_pop_sample s) = f s"
  shows "f (w_sinks (sys_world sys') k) = f (w_sinks (sys_world sys) k)"
  using assms(3)
proof (cases rule: client_activityE)
  case (2 v)
  note run = owned_run [OF assms(1) 2(1)]
  show ?thesis using activity_effect(2) [where f = f, OF run 2(2,3) f, of k] assms(2) 2(4)
    by (simp add: mse_of_def put_mse_def)
qed simp

lemma owned_stays: "act su (Client_Activity d ev) sys = Inr sys' \<Longrightarrow> owned (sys_world sys') = owned (sys_world sys)"
  by (erule client_activityE) simp_all

lemma routes_stay:
  assumes "world_inv N (sys_world sys)" "act su (Client_Activity d ev) sys = Inr sys'"
  shows "routes (clients (sys_world sys') c) = routes (clients (sys_world sys) c)"
  using assms(2)
proof (cases rule: client_activityE)
  case (2 v)
  note run = owned_run [OF assms(1) 2(1)]
  show ?thesis using activity_effect(1) [where f = shown, OF run 2(2,3) shown_quiet(1,2)] 2(4)
    by (simp add: mse_of_def put_mse_def)
qed simp

fun sends_to :: "nat \<Rightarrow> sink_action \<Rightarrow> backend_message list \<times> nat \<Rightarrow> backend_message list \<times> nat" where
  "sends_to c (Client_Activity d ev) g = (if d = c then sends ev g else g)"
| "sends_to c _ g = g"

lemma turns_left_in:
  "snd (fold (sends_to c) as g) = snd g - count_list as (Client_Activity c Worker_Turn)"
proof (induction as arbitrary: g)
  case (Cons a as)
  have "snd (sends ev g) = (if ev = Worker_Turn then snd g - 1 else snd g)" for ev by (cases g) simp
  with Cons.IH [of "sends_to c a g"] show ?case by (cases a) simp_all
qed simp

definition delivered_in :: "nat \<Rightarrow> nat \<Rightarrow> nat \<Rightarrow> i32 \<Rightarrow> mse \<Rightarrow> backend_message list \<times> nat \<Rightarrow> sink_system \<Rightarrow> bool" where
  "delivered_in N c k i w g sys \<longleftrightarrow> world_inv N (sys_world sys) \<and> plays_alone c i k (sys_world sys) \<and>
     delivered k i w g (mse_of c (sys_world sys))"

lemma delivered_same:
  assumes "delivered k i w g v" "run_inv v'" "client_of v' = client_of v" "looks (seen k v') = looks (seen k v)"
  shows "delivered k i w g v'"
  using assms by (simp add: delivered_def inbox_def)

interpretation world_delivery: guarded_system "act su" "act_all su"
  "\<lambda>a. background a \<and> keeps_caps (su_env su) \<and> N < 2 ^ 32" "\<lambda>_ _. True" "sends_to c" "delivered_in N c k i w"
  for su N c k i w
proof unfold_locales
  fix g and sys :: sink_system and a
  assume inv: "delivered_in N c k i w g sys"
    and ok: "background a \<and> keeps_caps (su_env su) \<and> N < 2 ^ 32"
  have wi: "world_inv N (sys_world sys)" and pl: "plays_alone c i k (sys_world sys)"
    and del: "delivered k i w g (mse_of c (sys_world sys))" using inv by (simp_all add: delivered_in_def)
  obtain sys' where s: "act su a sys = Inr sys'" and wi': "world_inv N (sys_world sys')"
    using inv_act [OF wi, of a su] ok by (cases a) (auto elim!: yieldsE)
  show "yields (delivered_in N c k i w (sends_to c a g)) (act su a sys)"
  proof (cases "\<exists>d ev. a = Client_Activity d ev")
    case False
    then have na: "\<And>d ev. a \<noteq> Client_Activity d ev" by blast
    note same = streaming_unseen [OF s _ na]
    have pl': "plays_alone c i k (sys_world sys')" using pl same(1,3) ok by (simp add: plays_alone_def)
    have run': "run_inv (mse_of c (sys_world sys'))" using owned_run [OF wi'] pl' by (simp add: plays_alone_def)
    have "looks (seen k (mse_of c (sys_world sys'))) = looks (seen k (mse_of c (sys_world sys)))"
      using same(2,4) ok by (simp add: looks_def seen_def mse_of_def)
    from delivered_same [OF del run' _ this] same(4) ok have "delivered k i w g (mse_of c (sys_world sys'))" by simp
    moreover have "sends_to c a g = g" using na by (cases a) auto
    ultimately show ?thesis using s wi' pl' by (simp add: delivered_in_def)
  next
    case True
    then obtain d ev where a: "a = Client_Activity d ev" by blast
    have pl': "plays_alone c i k (sys_world sys')"
      using pl owned_stays [OF s [unfolded a]] routes_stay [OF wi s [unfolded a]] by (simp add: plays_alone_def routes_to_def)
    then have run': "run_inv (mse_of c (sys_world sys'))" using owned_run [OF wi'] by (simp add: plays_alone_def)
    have "delivered k i w (sends_to c a g) (mse_of c (sys_world sys'))"
      using s [unfolded a]
    proof (cases rule: client_activityE)
      case 1
      have "sends ev g = g" if "\<not> is_activity ev" using that by (cases g; cases ev) auto
      with 1 pl del show ?thesis by (auto simp: a plays_alone_def)
    next
      case (2 v)
      show ?thesis
      proof (cases "d = c")
        case True
        have "mse_of c (sys_world sys') = v" using 2(4) True by (simp add: mse_of_def put_mse_def)
        with delivered_step [OF del 2(2), of "env_pipeline (su_env su)" "env_undef (su_env su)" "env_lost (su_env su)"] 2(3) True
        show ?thesis by (simp add: a)
      next
        case False
        have "routes_to k (clients (sys_world sys) d) = []" using pl 2(1) False by (simp add: plays_alone_def)
        from other_client_unseen [where f = shown, OF wi this s [unfolded a] shown_quiet(1,2)]
        have "shown (sinks (mse_of c (sys_world sys')) k) = shown (sinks (mse_of c (sys_world sys)) k)"
          by (simp add: mse_of_def)
        moreover have "client_of (mse_of c (sys_world sys')) = client_of (mse_of c (sys_world sys))"
          using 2(4) False by (simp add: mse_of_def put_mse_def)
        moreover have "sends_to c a g = g" using False by (simp add: a)
        ultimately show ?thesis using delivered_same [OF del run'] by (simp add: looks_def seen_def)
      qed
    qed
    with s wi' pl' show ?thesis by (simp add: delivered_in_def)
  qed
qed

section \<open>The end of the stream\<close>

lemma told_eos_step:
  "cb_eos (snd (told i m v)) = cb_eos (snd v)"
  "GST_STATE_PAUSED \<le> el_state (element (snd v)) \<Longrightarrow> GST_STATE_PAUSED \<le> el_state (element (snd (told i m v)))"
  "\<exists>xs. el_bus (element (snd (told i m v))) = el_bus (element (snd v)) @ xs"
proof -
  obtain b s where v: "v = (b, s)" by (cases v)
  have all: "cb_eos (snd (told i m v)) = cb_eos (snd v) \<and>
      (GST_STATE_PAUSED \<le> el_state (element (snd v)) \<longrightarrow> GST_STATE_PAUSED \<le> el_state (element (snd (told i m v)))) \<and>
      (\<exists>xs. el_bus (element (snd (told i m v))) = el_bus (element (snd v)) @ xs)"
  proof (cases m)
    case (Playback_State_Message st)
    then show ?thesis
      by (cases st) (auto simp: v handler_defs Let_def post_message_def rialto_mse_base_sink_rialto_state_changed_handler_def
        rialto_mse_base_sink_eos_handler_def rialto_mse_base_sink_error_handler_def paused_or_playing)
  next
    case (Qos_Message j p d)
    then show ?thesis by (auto simp: v handler_defs post_message_def split: option.split qos_format.split)
  qed (simp_all add: v handler_defs)
  then show "cb_eos (snd (told i m v)) = cb_eos (snd v)"
    "GST_STATE_PAUSED \<le> el_state (element (snd v)) \<Longrightarrow> GST_STATE_PAUSED \<le> el_state (element (snd (told i m v)))"
    "\<exists>xs. el_bus (element (snd (told i m v))) = el_bus (element (snd v)) @ xs" by simp_all
qed

definition eos_complaint :: bus_message where
  "eos_complaint = Error_Message ''Rialto sinks received EOS in non-playing state''"

lemma told_grows: "\<exists>xs. el_bus (element (snd (fold (told i) h v))) = el_bus (element (snd v)) @ xs"
proof (induction h arbitrary: v)
  case (Cons m h)
  from Cons.IH [of "told i m v"] told_eos_step(3) [of i m v] show ?case by auto
qed simp

lemma eos_told:
  "Playback_State_Message PS_END_OF_STREAM \<in> set h \<Longrightarrow> cb_eos (snd v) \<Longrightarrow>
   \<exists>xs. el_bus (element (snd (fold (told i) h v))) = el_bus (element (snd v)) @ xs \<and> (Eos_Message \<in> set xs \<or> eos_complaint \<in> set xs) \<and>
     (GST_STATE_PAUSED \<le> el_state (element (snd v)) \<longrightarrow> Eos_Message \<in> set xs)"
proof (induction h arbitrary: v)
  case (Cons m h)
  let ?v = "told i m v"
  show ?case
  proof (cases "m = Playback_State_Message PS_END_OF_STREAM")
    case True
    then have "el_bus (element (snd ?v)) = el_bus (element (snd v)) @
        [if GST_STATE_PAUSED \<le> el_state (element (snd v)) then Eos_Message else eos_complaint]"
      using Cons.prems(2)
      by (cases v) (auto simp: handler_defs rialto_mse_base_sink_eos_handler_def post_message_def paused_or_playing Let_def eos_complaint_def)
    with told_grows [of i h ?v] show ?thesis by auto
  next
    case False
    obtain ys where ys: "el_bus (element (snd ?v)) = el_bus (element (snd v)) @ ys" using told_eos_step(3) by blast
    obtain xs where "el_bus (element (snd (fold (told i) h ?v))) = el_bus (element (snd ?v)) @ xs" "Eos_Message \<in> set xs \<or> eos_complaint \<in> set xs"
      "GST_STATE_PAUSED \<le> el_state (element (snd ?v)) \<Longrightarrow> Eos_Message \<in> set xs"
      using Cons.IH [of ?v] Cons.prems False told_eos_step(1) [of i m v] by auto
    with ys told_eos_step(2) [of v i m] show ?thesis by (intro exI [of _ "ys @ xs"]) auto
  qed
qed simp

section \<open>An example\<close>

definition two_told :: "client_event list" where
  "two_told = two_sources @ [Notify (Qos_Message 2 3 1), Notify (Playback_State_Message PS_FAILURE)]"

lemma two_told_result:
  "yields (\<lambda>w. backend_items w = [Qos_Message 2 3 1, Playback_State_Message PS_FAILURE] \<and> routes_to 1 (client_of w) = [2] \<and>
      m_serverSeekingState (client_of w) = IDLE)
   (perform_all numbering_pipeline 0 id two_told (started 0 0 quiet_sinks))"
  by code_simp

theorem notifications_told_in_order_witness:
  "\<exists>w. perform_all numbering_pipeline 0 id two_told (started 0 0 quiet_sinks) = Inr w \<and>
     yields (\<lambda>w'. shown (sinks w' 1) = shown (rialto_mse_base_handle_rialto_server_error
         (rialto_mse_base_handle_rialto_server_sent_qos 3 1 (sinks w 1))))
       (perform_all numbering_pipeline 0 id [Worker_Turn, Puller_Turn 1, Worker_Turn] w)"
proof -
  from two_told_result obtain w where w: "perform_all numbering_pipeline 0 id two_told (started 0 0 quiet_sinks) = Inr w"
    "backend_items w = [Qos_Message 2 3 1, Playback_State_Message PS_FAILURE]" "routes_to 1 (client_of w) = [2]"
    "m_serverSeekingState (client_of w) = IDLE"
    by (auto elim: yieldsE)
  have "run_inv (started 0 0 quiet_sinks)" using run_inv_started [of quiet_sinks] quiet_sinks_caps by simp
  from seek_refinement.run_invariant [OF this _ w(1)] have r: "run_inv w" by (simp add: two_told_def two_sources_def)
  have i: "inbox w = [Qos_Message 2 3 1, Playback_State_Message PS_FAILURE]" by (simp add: inbox_def w(2))
  show ?thesis
    by (intro exI [of _ w] conjI w(1) yields_mono [OF notifications_told_in_order [OF r w(3)]])
      (auto simp: w(2,4) i prefix_def looks_def seen_def)
qed

end
