(* ===== verification/Seek_Wait.thy ===== *)
theory Seek_Wait
  imports Notifications
begin

text \<open>
  The thread that seeks and what it waits for. \<open>rialto_mse_base_sink_seek\<close> holds \<open>m_seekMutex\<close> while it
  has the event loop of the client set the position, and then waits on \<open>m_seekCondVariable\<close> for the handler
  of a completed seek, which takes the same mutex. \<open>Sink_Element\<close> takes that part as one step; here it is
  taken apart, one step between two points where another thread can come in. It is shown when the seek gets
  through, when it locks up with the event loop, and that a stop during the wait leaves the thread waiting.
\<close>

section \<open>A seek and its mutex, step by step\<close>

text \<open>
  Where the thread is in the last part of \<open>rialto_mse_base_sink_seek\<close>. \<open>Seek_Called n\<close>: it waits for the
  event loop to run the body of \<open>seek\<close>, and \<open>n\<close> messages are ahead of it. \<open>Seek_Waits\<close>: it waits on
  \<open>m_seekCondVariable\<close>, which gives the mutex back.
\<close>

datatype seeker_pc = Seek_Unlocked | Seek_Locked | Seek_Called nat | Seek_Returned | Seek_Waits | Seek_Over

fun holds_seek_mutex :: "seeker_pc \<Rightarrow> bool" where
  "holds_seek_mutex Seek_Locked = True"
| "holds_seek_mutex (Seek_Called _) = True"
| "holds_seek_mutex Seek_Returned = True"
| "holds_seek_mutex _ = False"

text \<open>Handling the message calls \<open>rialto_mse_base_sink_seek_completed_handler\<close> of sink \<open>k\<close>, which takes the mutex.\<close>

definition takes_seek_mutex :: "nat \<Rightarrow> backend_message \<Rightarrow> mse \<Rightarrow> bool" where
  "takes_seek_mutex k m w \<longleftrightarrow> (m = Playback_State_Message PS_FLUSHED \<or> m = Playback_State_Message PS_FAILURE) \<and>
     m_serverSeekingState (client_of w) = SEEKING \<and> cb_seekCompleted (sinks w k) \<and>
     list_ex (\<lambda>(i, a). as_rialtoSink a = k) (m_attachedSources (client_of w))"

type_synonym race = "seeker_pc \<times> mse"

fun seeker_turn :: "nat \<Rightarrow> race \<Rightarrow> race" where
  "seeker_turn k (Seek_Unlocked, w) = (Seek_Locked, w)"
| "seeker_turn k (Seek_Locked, w) =
     (if sq_running (m_backendQueue (client_of w))
      then (Seek_Called (length (sq_items (m_backendQueue (client_of w)))), w) else (Seek_Returned, w))"
| "seeker_turn k (Seek_Called n, w) = (Seek_Called n, w)"
| "seeker_turn k (Seek_Returned, w) =
     (if m_sourceAttached (sinks w k) then (Seek_Waits, upd_sink k (\<lambda>s. s\<lparr>m_seekWaiting := True\<rparr>) w) else (Seek_Over, w))"
| "seeker_turn k (Seek_Waits, w) = (if m_seekWaiting (sinks w k) then Seek_Waits else Seek_Over, w)"
| "seeker_turn k (Seek_Over, w) = (Seek_Over, w)"

fun one_ahead_less :: "seeker_pc \<Rightarrow> seeker_pc" where
  "one_ahead_less (Seek_Called n) = Seek_Called (n - 1)"
| "one_ahead_less pc = pc"

text \<open>
  A turn of the event loop: the body of the seek when it is next, or the first message. A message whose
  handler needs the mutex is not got through while the seeker holds it: it stays the first one, and what the
  handler does before it asks for the mutex is counted with the rest of it.
\<close>

definition event_loop_turn :: "pipeline \<Rightarrow> nat \<Rightarrow> i64 \<Rightarrow> race \<Rightarrow> race result" where
  "event_loop_turn ora k pos st =
     (case st of (pc, w) \<Rightarrow>
        if pc = Seek_Called 0
        then bind_result (seek ora pos w) (\<lambda>(w, _). Inr (Seek_Returned, w))
        else (case sq_items (m_backendQueue (client_of w)) of
           [] \<Rightarrow> Inr (pc, w)
         | m # _ \<Rightarrow>
            (if holds_seek_mutex pc \<and> takes_seek_mutex k m w then Inr (pc, w)
             else bind_result (turn (worker_turn ora w) w) (\<lambda>w. Inr (one_ahead_less pc, w)))))"

datatype race_action = Seeker_Goes | Loop_Goes | Server_Notifies backend_message

fun race_act :: "pipeline \<Rightarrow> nat \<Rightarrow> i64 \<Rightarrow> race_action \<Rightarrow> race \<Rightarrow> race result" where
  "race_act ora k pos Seeker_Goes st = Inr (seeker_turn k st)"
| "race_act ora k pos Loop_Goes st = event_loop_turn ora k pos st"
| "race_act ora k pos (Server_Notifies m) st =
     Inr (fst st, if is_notification m then post_backend m (snd st) else snd st)"

fun race_run :: "pipeline \<Rightarrow> nat \<Rightarrow> i64 \<Rightarrow> race_action list \<Rightarrow> race \<Rightarrow> race result" where
  "race_run ora k pos [] st = Inr st"
| "race_run ora k pos (a # as) st = bind_result (race_act ora k pos a st) (race_run ora k pos as)"

text \<open>Undisturbed, the steps are what \<open>rialto_mse_base_sink_seek\<close> does in one.\<close>

lemma seek_in_steps:
  assumes "sq_items (m_backendQueue (client_of w)) = []" "sq_running (m_backendQueue (client_of w))"
  shows "race_run ora k pos [Seeker_Goes, Seeker_Goes, Loop_Goes, Seeker_Goes] (Seek_Unlocked, w) =
    bind_result (seek ora pos w) (\<lambda>(w, _). Inr
      (if m_sourceAttached (sinks w k) then (Seek_Waits, upd_sink k (\<lambda>s. s\<lparr>m_seekWaiting := True\<rparr>) w) else (Seek_Over, w)))"
  using assms by (cases "seek ora pos w") (auto simp: event_loop_turn_def)

section \<open>When the seek gets through\<close>

lemma handle_not_seeking:
  assumes "m_serverSeekingState (client_of w) \<noteq> SEEKING" "handle_backend_message ora m w = Inr w'"
  shows "m_serverSeekingState (client_of w') \<noteq> SEEKING"
  using assms
  by (cases m)
    (auto simp: HaveDataMessage_handle_def NeedDataMessage_handle_def requestPullBuffer_def handleQos_def handleBufferUnderflow_def
      BufferPuller_requestPullBuffer_def set_puller_queue_def post_backend_def handlePlaybackStateChange_def backend_do_def
      bind_result_Inr Let_def split: option.splits if_splits playback_state.splits prod.splits)

lemma handle_appends:
  assumes "handle_backend_message ora m w = Inr w'"
  shows "\<exists>xs. sq_items (m_backendQueue (client_of w')) = sq_items (m_backendQueue (client_of w)) @ xs"
    "\<exists>cs. pipeline_log w' = pipeline_log w @ cs"
proof -
  have log: "\<exists>cs. pipeline_log v' = pipeline_log v @ cs"
    if "backend_do ora c v = Inr (v', a)" for v v' c a
    using that by (auto simp: backend_do_def forward_def pipeline_log_def bind_result_Inr Let_def split: option.splits prod.splits)
  show "\<exists>xs. sq_items (m_backendQueue (client_of w')) = sq_items (m_backendQueue (client_of w)) @ xs"
    using assms
    by (cases m)
      (auto simp: HaveDataMessage_handle_def NeedDataMessage_handle_def requestPullBuffer_def handleQos_def handleBufferUnderflow_def
        BufferPuller_requestPullBuffer_def set_puller_queue_def post_backend_def handlePlaybackStateChange_def backend_do_def
        startPullingDataIfSeekFinished_def sq_post_def
        bind_result_Inr Let_def split: option.splits if_splits playback_state.splits prod.splits)
  show "\<exists>cs. pipeline_log w' = pipeline_log w @ cs"
    using assms
    by (cases m)
      (auto simp: HaveDataMessage_handle_def NeedDataMessage_handle_def requestPullBuffer_def handleQos_def handleBufferUnderflow_def
        BufferPuller_requestPullBuffer_def set_puller_queue_def post_backend_def handlePlaybackStateChange_def
        startPullingDataIfSeekFinished_def pipeline_log_def bind_result_Inr Let_def dest: log split: option.splits if_splits playback_state.splits prod.splits)
qed

text \<open>
  What holds from the moment the seek has been posted while the server is not seeking; \<open>g\<close> bounds the
  turns the event loop still needs.
\<close>

definition on_its_way :: "i64 \<Rightarrow> nat \<Rightarrow> race \<Rightarrow> bool" where
  "on_its_way pos g st \<longleftrightarrow> run_inv (snd st) \<and>
     (case fst st of
        Seek_Called n \<Rightarrow> n < g \<and> n \<le> length (sq_items (m_backendQueue (client_of (snd st)))) \<and>
          m_serverSeekingState (client_of (snd st)) \<noteq> SEEKING
      | Seek_Unlocked \<Rightarrow> False
      | Seek_Locked \<Rightarrow> False
      | _ \<Rightarrow> Set_Position pos \<in> set (pipeline_log (snd st)))"

fun turns_left :: "race_action \<Rightarrow> nat \<Rightarrow> nat" where
  "turns_left Loop_Goes g = g - 1"
| "turns_left _ g = g"

lemma on_its_way_loop:
  assumes "on_its_way pos g st"
  shows "yields (on_its_way pos (g - 1)) (event_loop_turn ora k pos st)"
proof -
  obtain pc w where st: "st = (pc, w)" by (cases st)
  have run: "run_inv w" using assms by (simp add: on_its_way_def st)
  show ?thesis
  proof (cases "pc = Seek_Called 0")
    case True
    obtain v where v: "seek ora pos w = Inr (v, ())" "pipeline_log v = pipeline_log w @ [Set_Position pos]"
      by (rule seek_run [OF run])
    moreover have "run_inv v"
      using keeps_running_calls(7) [of ora pos] run v(1) unfolding keeps_running_def by fastforce
    ultimately show ?thesis using True by (simp add: event_loop_turn_def st on_its_way_def)
  next
    case False
    show ?thesis
    proof (cases "sq_items (m_backendQueue (client_of w))")
      case Nil
      with assms False show ?thesis by (auto simp: event_loop_turn_def st on_its_way_def split: seeker_pc.splits)
    next
      case (Cons m ms)
      then have t: "turn (worker_turn ora w) w =
          handle_backend_message ora m (upd_client (\<lambda>cl. cl\<lparr>m_backendQueue := (m_backendQueue cl)\<lparr>sq_items := ms\<rparr>\<rparr>) w)"
        (is "_ = handle_backend_message ora m ?w")
        by (simp add: turn_def worker_turn_def sq_take_def upd_client_def)
      obtain w' where w': "turn (worker_turn ora w) w = Inr w'" "run_inv w'"
        using run_inv_worker [OF run, of ora] by (rule yieldsE)
      obtain xs cs where "sq_items (m_backendQueue (client_of w')) = ms @ xs" "pipeline_log w' = pipeline_log w @ cs"
        using handle_appends [OF w'(1) [unfolded t]] by (auto simp: pipeline_log_def)
      moreover have "m_serverSeekingState (client_of w) \<noteq> SEEKING \<Longrightarrow> m_serverSeekingState (client_of w') \<noteq> SEEKING"
        using handle_not_seeking [OF _ w'(1) [unfolded t]] by simp
      ultimately show ?thesis
        using assms False Cons w'
        by (cases pc) (auto simp: event_loop_turn_def st on_its_way_def takes_seek_mutex_def)
    qed
  qed
qed

lemma on_its_way_seeker: "on_its_way pos g st \<Longrightarrow> on_its_way pos g (seeker_turn k st)"
  by (cases "(k, st)" rule: seeker_turn.cases)
    (auto simp: on_its_way_def pipeline_log_def intro!: run_inv_upd_sink dest: run_inv_caps)

interpretation race_system: guarded_system "race_act ora k pos" "race_run ora k pos" "\<lambda>_. True" "\<lambda>_ _. True"
  turns_left "on_its_way pos"
  for ora k pos
proof unfold_locales
  fix g st a
  assume inv: "on_its_way pos g st"
  show "yields (on_its_way pos (turns_left a g)) (race_act ora k pos a st)"
  proof (cases a)
    case Seeker_Goes
    with on_its_way_seeker [OF inv] show ?thesis by simp
  next
    case Loop_Goes
    with on_its_way_loop [OF inv] show ?thesis by simp
  next
    case (Server_Notifies m)
    have "run_inv (snd st)" using inv by (simp add: on_its_way_def)
    then have "run_inv (post_backend m (snd st))" by (rule run_inv_post)
    moreover have "length (sq_items (m_backendQueue (client_of (snd st)))) \<le>
        length (sq_items (m_backendQueue (client_of (post_backend m (snd st)))))"
      "pipeline_log (post_backend m (snd st)) = pipeline_log (snd st)"
      "m_serverSeekingState (client_of (post_backend m (snd st))) = m_serverSeekingState (client_of (snd st))"
      by (simp_all add: post_backend_def sq_post_def pipeline_log_def)
    ultimately show ?thesis using Server_Notifies inv by (auto simp: on_its_way_def split: seeker_pc.splits)
  qed
qed simp_all

lemma turns_left_run: "fold turns_left as g = g - count_list as Loop_Goes"
proof (induction as arbitrary: g)
  case (Cons a as)
  then show ?case by (cases a) simp_all
qed simp

text \<open>
  C11. A seek gets through. If the server is not seeking when a sink takes \<open>m_seekMutex\<close> to seek, then whatever
  messages of the server come in, the event loop needs one turn for each message ahead of the seek and one
  for the seek itself: after them the position has been set at the pipeline, and the next step of the sink's
  thread gives the mutex back, waiting for the server or (without a source) done. No deadlock on the way.
\<close>

theorem seek_gets_through:
  assumes "run_inv w" "m_serverSeekingState (client_of w) \<noteq> SEEKING"
    and "length (sq_items (m_backendQueue (client_of w))) < count_list as Loop_Goes"
  shows "yields (\<lambda>(pc, w'). (pc = Seek_Waits \<or> pc = Seek_Over) \<and> Set_Position pos \<in> set (pipeline_log w'))
    (race_run ora k pos (Seeker_Goes # as @ [Seeker_Goes]) (Seek_Locked, w))"
proof -
  let ?n = "length (sq_items (m_backendQueue (client_of w)))"
  have start: "on_its_way pos (Suc ?n) (Seek_Called ?n, w)" using assms(1,2) by (simp add: on_its_way_def)
  have "yields (on_its_way pos 0) (race_run ora k pos as (Seek_Called ?n, w))"
    using race_system.run_kept [OF start, of as ora k] assms(3) by (simp add: turns_left_run list_all_iff)
  then obtain pc w' where r: "race_run ora k pos as (Seek_Called ?n, w) = Inr (pc, w')" "on_its_way pos 0 (pc, w')"
    by (auto elim!: yieldsE)
  have "sq_running (m_backendQueue (client_of w))" using assms(1) by (simp add: run_inv_def)
  moreover have "on_its_way pos 0 (seeker_turn k (pc, w'))" using on_its_way_seeker [OF r(2)] .
  ultimately show ?thesis using r
    by (cases pc) (auto simp: race_system.run_snoc on_its_way_def)
qed

section \<open>When it does not\<close>

text \<open>The seeker holds its mutex and waits for the event loop, whose next message needs that mutex.\<close>

definition locked_up :: "nat \<Rightarrow> i64 \<Rightarrow> mse \<Rightarrow> race \<Rightarrow> bool" where
  "locked_up k pos w st \<longleftrightarrow> (fst st = Seek_Locked \<or> (\<exists>n. fst st = Seek_Called (Suc n))) \<and>
     (\<exists>m ms xs. sq_items (m_backendQueue (client_of w)) = m # ms \<and> takes_seek_mutex k m w \<and>
        snd st = upd_client (\<lambda>cl. cl\<lparr>m_backendQueue := (m_backendQueue cl)\<lparr>sq_items := m # ms @ xs\<rparr>\<rparr>) w)"

lemma locked_up_turns:
  assumes "locked_up k pos w st" "sq_running (m_backendQueue (client_of w))"
  shows "yields (locked_up k pos w) (race_act ora k pos a st)"
proof -
  obtain m ms xs where w: "sq_items (m_backendQueue (client_of w)) = m # ms" "takes_seek_mutex k m w"
    and st: "snd st = upd_client (\<lambda>cl. cl\<lparr>m_backendQueue := (m_backendQueue cl)\<lparr>sq_items := m # ms @ xs\<rparr>\<rparr>) w"
    and pc: "fst st = Seek_Locked \<or> (\<exists>n. fst st = Seek_Called (Suc n))"
    using assms(1) by (auto simp: locked_up_def)
  have tk: "takes_seek_mutex k m (snd st)" using w(2) st by (simp add: takes_seek_mutex_def)
  show ?thesis
  proof (cases a)
    case Seeker_Goes
    with w st pc assms(2) show ?thesis by (cases st) (auto simp: locked_up_def)
  next
    case Loop_Goes
    with w st pc tk assms show ?thesis by (cases st) (auto simp: event_loop_turn_def)
  next
    case (Server_Notifies n)
    then show ?thesis
    proof (cases "is_notification n")
      case True
      have "post_backend n (snd st) =
          upd_client (\<lambda>cl. cl\<lparr>m_backendQueue := (m_backendQueue cl)\<lparr>sq_items := m # ms @ (xs @ [n])\<rparr>\<rparr>) w"
        using st assms(2) by (simp add: post_backend_def sq_post_def upd_client_def)
      then show ?thesis using Server_Notifies True w pc unfolding locked_up_def by auto
    qed (use Server_Notifies assms(1) in \<open>simp add: locked_up_def\<close>)
  qed
qed

interpretation locked_race: safe_system "race_act ora k pos" "race_run ora k pos"
  "\<lambda>_. sq_running (m_backendQueue (client_of w))" "locked_up k pos w"
  for ora k pos w
  by unfold_locales (rule locked_up_turns)

text \<open>
  C10. The seek mutex can deadlock. If the server is still seeking (an earlier seek that was not waited for) and
  the message that ends that seek is the next one of the event loop when a sink of the client has taken
  \<open>m_seekMutex\<close> to seek again, then no schedule of the threads gets any further: the event loop needs the
  mutex, the sink's thread holds it and waits for the event loop, the position is never set, and no message is
  ever handled.
\<close>

theorem seek_mutex_deadlock:
  assumes "sq_running (m_backendQueue (client_of w))"
    and "sq_items (m_backendQueue (client_of w)) = m # ms" "takes_seek_mutex k m w"
  shows "yields (\<lambda>(pc, w'). holds_seek_mutex pc \<and> pc \<noteq> Seek_Returned \<and> pipeline_log w' = pipeline_log w \<and>
      prefix (sq_items (m_backendQueue (client_of w))) (sq_items (m_backendQueue (client_of w'))))
    (race_run ora k pos as (Seek_Locked, w))"
proof -
  have same: "w = upd_client (\<lambda>cl. cl\<lparr>m_backendQueue := (m_backendQueue cl)\<lparr>sq_items := m # ms @ []\<rparr>\<rparr>) w"
    using assms(2) by (simp add: upd_client_def)
  have "locked_up k pos w (Seek_Locked, w)"
    unfolding locked_up_def fst_conv snd_conv
    by (intro conjI disjI1 refl exI [of _ m] exI [of _ ms] exI [of _ "[]"] assms(2,3) same)
  from locked_race.run_safe [OF this, of as ora] assms(1)
    have "yields (locked_up k pos w) (race_run ora k pos as (Seek_Locked, w))" by (simp add: list_all_iff)
  then show ?thesis
  proof (rule yields_mono)
    fix st assume "locked_up k pos w st"
    then obtain pc w' xs n where "st = (pc, w')" "pc = Seek_Locked \<or> pc = Seek_Called (Suc n)"
      "w' = upd_client (\<lambda>cl. cl\<lparr>m_backendQueue := (m_backendQueue cl)\<lparr>sq_items := m # ms @ xs\<rparr>\<rparr>) w"
      using assms(2) by (cases st) (auto simp: locked_up_def)
    with assms(2) show "case st of (pc, w') \<Rightarrow> holds_seek_mutex pc \<and> pc \<noteq> Seek_Returned \<and> pipeline_log w' = pipeline_log w \<and>
      prefix (sq_items (m_backendQueue (client_of w))) (sq_items (m_backendQueue (client_of w')))"
      by (elim disjE) (simp_all add: pipeline_log_def prefix_def)
  qed
qed

text \<open>A seek before the source is attached, whose end the server reports after it has been attached.\<close>

definition early_seek :: "client_event list" where
  "early_seek = [Seek_To 5, Attach video_source 0, Notify (Playback_State_Message PS_FLUSHED)]"

lemma early_seek_result:
  "yields (\<lambda>w. sq_running (m_backendQueue (client_of w)) \<and>
     sq_items (m_backendQueue (client_of w)) = [Playback_State_Message PS_FLUSHED] \<and>
     takes_seek_mutex 0 (Playback_State_Message PS_FLUSHED) w)
   (perform_all numbering_pipeline 0 id early_seek (started 0 0 quiet_sinks))"
  by code_simp

definition race_schedule :: "race_action list" where
  "race_schedule = [Seeker_Goes, Loop_Goes, Server_Notifies (Playback_State_Message PS_PAUSED), Loop_Goes, Seeker_Goes, Loop_Goes]"

theorem seek_mutex_deadlock_witness:
  "\<exists>w. perform_all numbering_pipeline 0 id early_seek (started 0 0 quiet_sinks) = Inr w \<and>
     yields (\<lambda>(pc, w'). holds_seek_mutex pc \<and> pipeline_log w' = pipeline_log w)
       (race_run numbering_pipeline 0 9 race_schedule (Seek_Locked, w))"
proof -
  from early_seek_result obtain w where w: "perform_all numbering_pipeline 0 id early_seek (started 0 0 quiet_sinks) = Inr w"
    "sq_running (m_backendQueue (client_of w))" "sq_items (m_backendQueue (client_of w)) = [Playback_State_Message PS_FLUSHED]"
    "takes_seek_mutex 0 (Playback_State_Message PS_FLUSHED) w" by (auto elim: yieldsE)
  have "yields (\<lambda>(pc, w'). holds_seek_mutex pc \<and> pipeline_log w' = pipeline_log w)
       (race_run numbering_pipeline 0 9 race_schedule (Seek_Locked, w))"
    by (rule yields_mono [OF seek_mutex_deadlock [OF w(2-4)]]) auto
  with w(1) show ?thesis by blast
qed

lemma two_sources_queue:
  "yields (\<lambda>w. sq_items (m_backendQueue (client_of w)) = []) (perform_all numbering_pipeline 0 id two_sources (started 0 0 quiet_sinks))"
  by code_simp

theorem seek_gets_through_witness:
  "\<exists>w. perform_all numbering_pipeline 0 id two_sources (started 0 0 quiet_sinks) = Inr w \<and>
     yields (\<lambda>(pc, w'). \<not> holds_seek_mutex pc \<and> Set_Position 9 \<in> set (pipeline_log w'))
       (race_run numbering_pipeline 0 9 [Seeker_Goes, Server_Notifies (Playback_State_Message PS_FLUSHED), Loop_Goes, Seeker_Goes]
          (Seek_Locked, w))"
proof -
  from two_sources_result obtain w where w: "perform_all numbering_pipeline 0 id two_sources (started 0 0 quiet_sinks) = Inr w"
    "seek_settled w" by (auto elim: yieldsE)
  have "run_inv (started 0 0 quiet_sinks)" using run_inv_started [of quiet_sinks] quiet_sinks_caps by simp
  from seek_refinement.run_invariant [OF this _ w(1)] have r: "run_inv w" by (simp add: two_sources_def)
  moreover have s: "m_serverSeekingState (client_of w) \<noteq> SEEKING" using w(2) by (simp add: seek_settled_def)
  moreover have "sq_items (m_backendQueue (client_of w)) = []" using two_sources_queue w(1) by simp
  ultimately have "yields (\<lambda>(pc, w'). \<not> holds_seek_mutex pc \<and> Set_Position 9 \<in> set (pipeline_log w'))
       (race_run numbering_pipeline 0 9 (Seeker_Goes # [Server_Notifies (Playback_State_Message PS_FLUSHED), Loop_Goes] @ [Seeker_Goes])
          (Seek_Locked, w))"
    by (intro yields_mono [OF seek_gets_through [OF r s]]) auto
  with w(1) show ?thesis by auto
qed

section \<open>A stop during a seek\<close>

lemma removeSource_sources:
  assumes "run_inv v" "removeSource ora undef i v = Inr (v', x)"
  shows "m_attachedSources (client_of v') = assoc_erase i (m_attachedSources (client_of v))"
proof -
  have q: "sq_running (m_backendQueue (client_of v))" using assms(1) by (simp add: run_inv_def)
  obtain u1 a u2 where u: "backend_do ora (Remove_Source i) v = Inr (u1, a)" "BufferPuller_stop ora undef i u1 = Inr u2"
    "v' = upd_client (\<lambda>cl. cl\<lparr>m_attachedSources := assoc_erase i (m_attachedSources cl)\<rparr>) u2"
    using q assms(2) by (auto simp: removeSource_def callInEventLoop_def bind_result_Inr)
  have r1: "run_inv u1" and s1: "m_attachedSources (client_of u1) = m_attachedSources (client_of v)"
    using run_inv_backend_do [OF assms(1), of "Remove_Source i" ora] backend_do_ok [OF run_inv_good [OF assms(1)], of "Remove_Source i" ora] u(1)
    by (auto simp: frameD)
  have "good u1" "distinct (map fst (m_attachedSources (client_of u1)))" using r1 by (simp_all add: run_inv_def)
  from BufferPuller_stop_ok [OF this, of ora undef i] u(2) obtain w1 where "frame u1 w1"
    "u2 = upd_client (\<lambda>cl. cl\<lparr>m_attachedSources := assoc_modify i halt_source (m_attachedSources cl)\<rparr>) w1" by auto
  with u(3) s1 show ?thesis by (simp add: assoc_erase_modify frameD(1))
qed

text \<open>No client that is in use serves the sink, and a thread waits in it.\<close>

definition stranded :: "nat \<Rightarrow> world \<Rightarrow> bool" where
  "stranded k w \<longleftrightarrow> m_seekWaiting (w_sinks w k) \<and> (\<forall>d. owned w d \<longrightarrow> routes_to k (clients w d) = [])"

lemma waiting_quiet:
  "m_seekWaiting (set_front_buffer b s) = m_seekWaiting s" "m_seekWaiting (rialto_mse_base_sink_pop_sample s) = m_seekWaiting s"
  by (simp_all add: set_front_buffer_def queue_op_defs Let_def)

lemma stranded_activity:
  assumes "world_inv N (sys_world sys)" "stranded k (sys_world sys)" "act su (Client_Activity d ev) sys = Inr sys'"
  shows "stranded k (sys_world sys')"
proof -
  have "m_seekWaiting (w_sinks (sys_world sys') k) = m_seekWaiting (w_sinks (sys_world sys) k)"
    using assms(3)
  proof (cases rule: client_activityE)
    case (2 v)
    with assms(2) have "routes_to k (clients (sys_world sys) d) = []" by (simp add: stranded_def)
    from other_client_unseen [where f = m_seekWaiting, OF assms(1) this assms(3) waiting_quiet] show ?thesis .
  qed simp
  with assms(2) owned_stays [OF assms(3)] routes_stay [OF assms(1,3)] show ?thesis
    by (simp add: stranded_def routes_to_def)
qed

interpretation stranded_system: safe_system "act su" "act_all su"
  "\<lambda>a. client_activity a \<and> keeps_caps (su_env su) \<and> N < 2 ^ 32" "\<lambda>s. world_inv N (sys_world s) \<and> stranded k (sys_world s)"
  for su N k
proof unfold_locales
  fix sys :: sink_system and a
  assume inv: "world_inv N (sys_world sys) \<and> stranded k (sys_world sys)"
    and ok: "client_activity a \<and> keeps_caps (su_env su) \<and> N < 2 ^ 32"
  then obtain d ev where a: "a = Client_Activity d ev" by (cases a) auto
  obtain sys' where "act su a sys = Inr sys'" "world_inv N (sys_world sys')"
    using inv_act [of N sys a su] inv ok a by (auto elim!: yieldsE)
  with stranded_activity [of N sys k su d ev sys'] inv a
  show "yields (\<lambda>s. world_inv N (sys_world s) \<and> stranded k (sys_world s)) (act su a sys)" by simp
qed

text \<open>
  C12. A stop during a seek strands the thread that waits. In every reachable world: when a sink goes from
  \<open>PAUSED\<close> to \<open>READY\<close> while its seek waits for the server, its source is removed from the client and nobody is
  woken. Whatever the client is told and does from then on, \<open>FLUSHED\<close> and \<open>FAILURE\<close> included, the thread stays in
  the wait: going on with the flush stop is not possible.
\<close>

theorem stop_strands_seek_wait:
  assumes "reachable_world N (sys_world sys)" "getMediaPlayerClient k (sys_world sys) = Some c"
    and "m_seekWaiting (w_sinks (sys_world sys) k)"
    and "plays_alone c (m_sourceId (w_sinks (sys_world sys) k)) k (sys_world sys)"
    and "keeps_caps (su_env su)" "list_all client_activity as"
  shows "yields (\<lambda>(w, r). yields (\<lambda>s. snd (flush_stop_resume k reset (sys_world s)) = None)
      (act_all su as (sys\<lparr>sys_world := w\<rparr>)))
    (rialto_mse_base_sink_change_state (su_env su) arriving k PAUSED_TO_READY (sys_world sys))"
proof -
  let ?w = "sys_world sys"
  let ?s = "w_sinks ?w k"
  let ?w1 = "if m_isStateCommitNeeded ?s then on_sink k rialto_mse_base_async_done ?w else ?w"
  have "world_inv N ?w1" using reachable_inv [OF assms(1)] world_inv_on_sink [of N ?w k] by (simp add: sink_ok_handlers)
  moreover have "getMediaPlayerClient k ?w1 = Some c" using assms(2) by (simp add: getMediaPlayerClient_def)
  ultimately have run: "run_inv (mse_of c ?w1)" using owned_run client_owned by blast
  obtain v where v: "removeSource (env_pipeline (su_env su)) (env_undef (su_env su)) (m_sourceId ?s) (mse_of c ?w1) = Inr (v, ())"
    "m_seekWaiting (sinks v k) = m_seekWaiting (w_sinks ?w1 k)"
    using removeSource_effect [where f = m_seekWaiting and j = k and i = "m_sourceId ?s" and
        ora = "env_pipeline (su_env su)" and undef = "env_undef (su_env su)", OF run waiting_quiet]
    by (auto elim!: yieldsE)
  note src = removeSource_sources [OF run v(1)]
  have same: "clients ?w1 = clients ?w" "m_seekWaiting (w_sinks ?w1 k)"
    using assms(3) by (simp_all add: rialto_mse_base_async_done_def post_message_def)
  have at: "routes_to k (client_of (mse_of c ?w1)) = [m_sourceId ?s]"
    using assms(4) same(1) by (simp add: plays_alone_def mse_of_def)
  have "x \<notin> set (routes_to k (client_of v))" for x
  proof
    assume "x \<in> set (routes_to k (client_of v))"
    then obtain a where a: "(x, a) \<in> set (m_attachedSources (client_of v))" "as_rialtoSink a = k"
      using routes_toD by blast
    with src have "(x, a) \<in> set (m_attachedSources (client_of (mse_of c ?w1)))" "x \<noteq> m_sourceId ?s"
      by (auto simp: set_assoc_erase)
    with routes_toI [OF this(1)] a(2) at show False by simp
  qed
  then have "routes_to k (client_of v) = []" by (cases "routes_to k (client_of v)") force+
  then have gone: "routes_to k (if d = c then client_of v else clients ?w d) = []" if "owned ?w d" for d
    using assms(4) that by (simp add: plays_alone_def)
  have sw: "change_state_switch (su_env su) arriving k PAUSED_TO_READY ?w =
      Inr (on_sink k (\<lambda>s. (clearBuffersUnlocked s)\<lparr>m_sourceAttached := False\<rparr>) (put_mse c v ?w1), Some GST_STATE_CHANGE_SUCCESS)"
    using assms(2) v(1) by (simp add: change_state_switch_def Let_def through_def call_client_def)
  obtain w' r where w': "rialto_mse_base_sink_change_state (su_env su) arriving k PAUSED_TO_READY ?w = Inr (w', r)" "world_inv N w'"
    using inv_change_state [OF reachable_inv [OF assms(1)], of "su_env su" arriving k PAUSED_TO_READY] by (auto elim!: yieldsE)
  have "owned (put_mse c v ?w1) = owned ?w" by (simp add: owned_def [abs_def] put_mse_def on_sink_def)
  with w'(1) v(2) gone same have "stranded k w'"
    unfolding rialto_mse_base_sink_change_state_def sw
    by (auto simp: stranded_def Let_def queue_op_defs split: prod.splits)
  moreover have "N < 2 ^ 32" using assms(1) by (simp add: reachable_world_def)
  ultimately have "yields (\<lambda>s. world_inv N (sys_world s) \<and> stranded k (sys_world s)) (act_all su as (sys\<lparr>sys_world := w'\<rparr>))"
    by (intro stranded_system.run_safe [where su = su and N = N and k = k])
      (use w'(2) assms(5,6) in \<open>auto simp: list_all_iff\<close>)
  then show ?thesis unfolding w'(1) by (auto simp: stranded_def flush_stop_resume_def elim!: yields_mono)
qed

definition stop_in_seek_run :: "sink_action list" where
  "stop_in_seek_run = preroll_run @ [Element_Event 0 (EVENT_SEEK \<lparr>sk_rate = double_one, sk_format = GST_FORMAT_TIME,
     sk_flush = True, sk_instant_rate = False, sk_startType = SEEK_TYPE_SET, sk_start = 5\<rparr>), Pad_Event 0 (EVENT_FLUSH_STOP True)]"

lemma stop_in_seek_result:
  "yields (\<lambda>s. let w = sys_world s in m_mediaPlayerClientsInfo w = [(7, \<lparr>inf_client = 0, inf_controller = Some 0, inf_refCount = 1\<rparr>)] \<and>
      getMediaPlayerClient 0 w = Some 0 \<and> m_seekWaiting (w_sinks w 0) \<and> m_sourceId (w_sinks w 0) = 1 \<and>
      routes_to 0 (clients w 0) = [1])
   (act_all example_setup stop_in_seek_run preroll_start)"
  by code_simp

definition server_answers :: "sink_action list" where
  "server_answers = [Client_Activity 0 (Notify (Playback_State_Message PS_FLUSHED)), Client_Activity 0 Worker_Turn]"

theorem stop_strands_seek_wait_witness:
  "\<exists>s. act_all example_setup stop_in_seek_run preroll_start = Inr s \<and>
     yields (\<lambda>(w, _). yields (\<lambda>s. snd (flush_stop_resume 0 True (sys_world s)) = None)
         (act_all example_setup server_answers (s\<lparr>sys_world := w\<rparr>)))
       (rialto_mse_base_sink_change_state example_env [] 0 PAUSED_TO_READY (sys_world s))"
proof -
  from stop_in_seek_result obtain s where s: "act_all example_setup stop_in_seek_run preroll_start = Inr s"
    and info: "m_mediaPlayerClientsInfo (sys_world s) = [(7, \<lparr>inf_client = 0, inf_controller = Some 0, inf_refCount = 1\<rparr>)]"
    and at: "getMediaPlayerClient 0 (sys_world s) = Some 0" "m_seekWaiting (w_sinks (sys_world s) 0)"
      "m_sourceId (w_sinks (sys_world s) 0) = 1" "routes_to 0 (clients (sys_world s) 0) = [1]"
    by (auto simp: Let_def elim!: yieldsE)
  have n: "(1::nat) < 2 ^ 32" by simp
  have "list_all (action_ok 1) stop_in_seek_run" using preroll_ok(1) by (simp add: stop_in_seek_run_def)
  from reachable_worldI [OF n preroll_ok(2) this s [unfolded preroll_start_def]] have r: "reachable_world 1 (sys_world s)" .
  have one: "plays_alone 0 (m_sourceId (w_sinks (sys_world s) 0)) 0 (sys_world s)"
    using info at(3,4) by (auto simp: plays_alone_def owned_def)
  have env: "su_env example_setup = example_env" by (simp add: example_setup_def)
  have "yields (\<lambda>(w, _). yields (\<lambda>s. snd (flush_stop_resume 0 True (sys_world s)) = None)
         (act_all example_setup server_answers (s\<lparr>sys_world := w\<rparr>)))
       (rialto_mse_base_sink_change_state (su_env example_setup) [] 0 PAUSED_TO_READY (sys_world s))"
    by (rule stop_strands_seek_wait [OF r at(1,2) one preroll_ok(2)]) (simp add: server_answers_def)
  with s show ?thesis unfolding env by blast
qed

end
