(* ===== verification/Stop_Restart.thy ===== *)
theory Stop_Restart
  imports Notifications
begin

text \<open>
  A sink that is stopped and started again. Leaving \<open>PAUSED\<close> drops the samples and the source, but not the
  mark that the stream has ended, which only a flush takes back: the sink of the next stream is at its end before
  its first sample.
\<close>

section \<open>The mark of the end of the stream\<close>

lemma isEos_quiet:
  "m_isEos (set_front_buffer b s) = m_isEos s" "m_isEos (rialto_mse_base_sink_pop_sample s) = m_isEos s"
  by (simp_all add: set_front_buffer_def queue_op_defs Let_def)

lemma stop_keeps_eos:
  assumes "world_inv N w" "getMediaPlayerClient k w = Some c"
  shows "yields (\<lambda>(w', _). world_inv N w' \<and> getMediaPlayerClient k w' = Some c \<and>
      m_isEos (w_sinks w' k) = m_isEos (w_sinks w k) \<and> m_samples (w_sinks w' k) = [])
    (rialto_mse_base_sink_change_state env arriving k PAUSED_TO_READY w)"
proof -
  let ?s = "w_sinks w k"
  let ?w1 = "if m_isStateCommitNeeded ?s then on_sink k rialto_mse_base_async_done w else w"
  have "world_inv N ?w1" using assms(1) world_inv_on_sink [of N w k] by (simp add: sink_ok_handlers)
  moreover have c1: "getMediaPlayerClient k ?w1 = Some c" using assms(2) by (simp add: getMediaPlayerClient_def)
  ultimately have run: "run_inv (mse_of c ?w1)" using owned_run client_owned by blast
  obtain v where v: "removeSource (env_pipeline env) (env_undef env) (m_sourceId ?s) (mse_of c ?w1) = Inr (v, ())"
    "m_isEos (sinks v k) = m_isEos (w_sinks ?w1 k)"
    using removeSource_effect [where f = m_isEos and j = k and i = "m_sourceId ?s" and
        ora = "env_pipeline env" and undef = "env_undef env", OF run isEos_quiet]
    by (auto elim!: yieldsE)
  have same: "m_isEos (w_sinks ?w1 k) = m_isEos ?s" by (simp add: rialto_mse_base_async_done_def post_message_def)
  have sw: "change_state_switch env arriving k PAUSED_TO_READY w =
      Inr (on_sink k (\<lambda>s. (clearBuffersUnlocked s)\<lparr>m_sourceAttached := False\<rparr>) (put_mse c v ?w1), Some GST_STATE_CHANGE_SUCCESS)"
    using assms(2) v(1) by (simp add: change_state_switch_def Let_def through_def call_client_def)
  have m: "managers (put_mse c v u) = managers u" for u by (simp add: put_mse_def)
  have "getMediaPlayerClient k (put_mse c v u) = getMediaPlayerClient k u" for u
    unfolding getMediaPlayerClient_def lock_client_def m owned_put_mse ..
  then have "getMediaPlayerClient k (put_mse c v ?w1) = Some c" using c1 by simp
  moreover have "yields (\<lambda>x. world_inv N (fst x)) (rialto_mse_base_sink_change_state env arriving k PAUSED_TO_READY w)"
    by (rule inv_change_state [OF assms(1)])
  ultimately show ?thesis using v(2) same
    unfolding rialto_mse_base_sink_change_state_def sw
    by (auto simp: Let_def queue_op_defs getMediaPlayerClient_def split: prod.splits)
qed

lemma start_keeps_eos:
  assumes "world_inv N w" "getMediaPlayerClient k w = Some c"
  shows "yields (\<lambda>(w', _). m_isEos (w_sinks w' k) = m_isEos (w_sinks w k) \<and> m_samples (w_sinks w' k) = m_samples (w_sinks w k))
    (rialto_mse_base_sink_change_state env arriving k READY_TO_PAUSED w)"
proof -
  let ?u = "on_sink k (\<lambda>s. s\<lparr>m_isFlushOngoing := False\<rparr>) w"
  have inv0: "world_inv N ?u" by (rule world_inv_on_sink [OF assms(1)]) (simp add: sink_ok_queue)
  have c0: "getMediaPlayerClient k ?u = Some c" using assms(2) by (simp add: getMediaPlayerClient_def)
  obtain w1 has where h: "hasControl k ?u = (w1, has)" by fastforce
  note fr = hasControl_frame [OF h]
  have st: "yields (\<lambda>(w', _). m_isEos (w_sinks w' k) = m_isEos (w_sinks w k) \<and> m_samples (w_sinks w' k) = m_samples (w_sinks w k))
      (start_async k (Some c) (simple_call (env_pipeline env) Pause_Call) ?u)"
  proof (cases has)
    case True
    let ?w = "on_sink k rialto_mse_base_async_start w1"
    have run0: "run_inv (mse_of c ?u)" using owned_run [OF inv0 client_owned [OF c0]] .
    have "sink_ok (w_sinks ?w j)" for j
      using run_inv_caps [OF run0, of j] fr(1) by (auto simp: sink_ok_handlers mse_of_def split: if_splits)
    then have "\<forall>j. sink_ok (w_sinks ?w j)" by blast
    moreover have "mse_of c ?w = (mse_of c ?u)\<lparr>sinks := w_sinks ?w\<rparr>" by (simp add: mse_of_def fr(2))
    ultimately have "run_inv (mse_of c ?w)" using run_inv_other_sinks [OF run0] by metis
    have "yields (\<lambda>w'. w_sinks w' = w_sinks ?w) (through (Some c) (simple_call (env_pipeline env) Pause_Call) ?w)"
      by (rule yields_mono [OF through_simple [OF \<open>run_inv (mse_of c ?w)\<close> refl]]) simp_all
    with h True show ?thesis
      by (auto simp: start_async_def fr(1) rialto_mse_base_async_start_def post_message_def elim!: yields_bind)
  qed (use h fr in \<open>simp add: start_async_def\<close>)
  have sw: "change_state_switch env arriving k READY_TO_PAUSED w =
      bind_result (start_async k (Some c) (simple_call (env_pipeline env) Pause_Call) ?u) (\<lambda>(w, st). Inr (w, Some st))"
    using assms(2) by (simp add: change_state_switch_def pause_def Let_def)
  show ?thesis
    unfolding rialto_mse_base_sink_change_state_def sw bind_result_assoc
    by (rule yields_bind [OF st]) (auto simp: Let_def split: prod.split)
qed

lemma pull_at_end:
  assumes "rialto_mse_base_sink_is_eos (sinks v k)" "n \<noteq> 0"
  shows "PullBufferMessage_handle ora undef k p (Pull_Buffer_Message i n req) v =
    Inr (post_backend (Have_Data_Message STATUS_EOS i req) v)"
  using assms
  by (simp add: PullBufferMessage_handle_def pull_loop.simps [of _ _ _ _ _ _ n 0] pull_status_def
      rialto_mse_base_sink_get_front_sample_def rialto_mse_base_sink_is_eos_def word_neq_0_conv)

text \<open>
  C15. The end of the stream survives a stop. In every reachable world: a sink that has been told the end of its
  stream, goes back to \<open>READY\<close> and is started again is still at its end, with no sample of the new stream yet. A
  pull request for any number of frames that finds it so is answered with \<open>EOS\<close> instead of \<open>NO_AVAILABLE_SAMPLES\<close>.
\<close>

theorem eos_survives_stop:
  assumes "reachable_world N w" "getMediaPlayerClient k w = Some c" "m_isEos (w_sinks w k)"
  shows "yields (\<lambda>(w1, _). yields (\<lambda>(w2, _). rialto_mse_base_sink_is_eos (w_sinks w2 k) \<and>
        (\<forall>d i n req p. n \<noteq> 0 \<longrightarrow> PullBufferMessage_handle (env_pipeline env) (env_undef env) k p (Pull_Buffer_Message i n req) (mse_of d w2) =
           Inr (post_backend (Have_Data_Message STATUS_EOS i req) (mse_of d w2))))
      (rialto_mse_base_sink_change_state env arriving' k READY_TO_PAUSED w1))
    (rialto_mse_base_sink_change_state env arriving k PAUSED_TO_READY w)"
proof (rule yields_mono [OF stop_keeps_eos [OF reachable_inv [OF assms(1)] assms(2)]], clarify)
  fix w1 assume w1: "world_inv N w1" "getMediaPlayerClient k w1 = Some c" "m_isEos (w_sinks w1 k) = m_isEos (w_sinks w k)"
    "m_samples (w_sinks w1 k) = []"
  show "yields (\<lambda>(w2, _). rialto_mse_base_sink_is_eos (w_sinks w2 k) \<and>
        (\<forall>d i n req p. n \<noteq> 0 \<longrightarrow> PullBufferMessage_handle (env_pipeline env) (env_undef env) k p (Pull_Buffer_Message i n req) (mse_of d w2) =
           Inr (post_backend (Have_Data_Message STATUS_EOS i req) (mse_of d w2))))
      (rialto_mse_base_sink_change_state env arriving' k READY_TO_PAUSED w1)"
  proof (rule yields_mono [OF start_keeps_eos [OF w1(1,2)]], clarify)
    fix w2 :: world assume "m_isEos (w_sinks w2 k) = m_isEos (w_sinks w1 k)" "m_samples (w_sinks w2 k) = m_samples (w_sinks w1 k)"
    then have e: "rialto_mse_base_sink_is_eos (w_sinks w2 k)"
      using w1(3,4) assms(3) by (simp add: rialto_mse_base_sink_is_eos_def)
    moreover have "sinks (mse_of d w2) = w_sinks w2" for d by (simp add: mse_of_def)
    ultimately show "rialto_mse_base_sink_is_eos (w_sinks w2 k) \<and>
        (\<forall>d i n req p. n \<noteq> 0 \<longrightarrow> PullBufferMessage_handle (env_pipeline env) (env_undef env) k p (Pull_Buffer_Message i n req) (mse_of d w2) =
           Inr (post_backend (Have_Data_Message STATUS_EOS i req) (mse_of d w2)))"
      using pull_at_end [of "mse_of d w2" k for d] by simp
  qed
qed

definition ended_run :: "sink_action list" where
  "ended_run = preroll_run @ [Pad_Event 0 EVENT_EOS]"

lemma ended_result:
  "yields (\<lambda>s. getMediaPlayerClient 0 (sys_world s) = Some 0 \<and> m_isEos (w_sinks (sys_world s) 0))
     (act_all example_setup ended_run preroll_start)"
  by code_simp

theorem eos_survives_stop_witness:
  "\<exists>s. act_all example_setup ended_run preroll_start = Inr s \<and>
     yields (\<lambda>(w1, _). yields (\<lambda>(w2, _). rialto_mse_base_sink_is_eos (w_sinks w2 0))
       (rialto_mse_base_sink_change_state example_env [] 0 READY_TO_PAUSED w1))
     (rialto_mse_base_sink_change_state example_env [] 0 PAUSED_TO_READY (sys_world s))"
proof -
  from ended_result obtain s where s: "act_all example_setup ended_run preroll_start = Inr s"
    "getMediaPlayerClient 0 (sys_world s) = Some 0" "m_isEos (w_sinks (sys_world s) 0)" by (auto elim: yieldsE)
  have "list_all (action_ok 1) ended_run" using preroll_ok(1) by (simp add: ended_run_def)
  from reachable_worldI [OF _ preroll_ok(2) this s(1) [unfolded preroll_start_def]] have r: "reachable_world 1 (sys_world s)" by simp
  have "yields (\<lambda>(w1, _). yields (\<lambda>(w2, _). rialto_mse_base_sink_is_eos (w_sinks w2 0))
       (rialto_mse_base_sink_change_state example_env [] 0 READY_TO_PAUSED w1))
     (rialto_mse_base_sink_change_state example_env [] 0 PAUSED_TO_READY (sys_world s))"
    by (rule yields_mono [OF eos_survives_stop [OF r s(2,3)]], clarify, erule yields_mono, clarify)
  with s(1) show ?thesis by blast
qed

end
