(* ===== verification/Web_Audio_Session.thy ===== *)
theory Web_Audio_Session
  imports Web_Audio_Client
begin

text \<open>
  The web audio client over a whole stream: the samples that come in, the end of the stream, and what is left of
  them when the client is closed and opened again. The player is told of the end of the stream after it has
  been given every byte; but \<open>close\<close> forgets neither the end of the stream nor the samples that are queued.
\<close>

section \<open>What a push does to the calls\<close>

text \<open>The calls on the player since \<open>c\<close>, and that none of them is \<open>setEos\<close>.\<close>

definition calls_since :: "web_client \<Rightarrow> web_client \<Rightarrow> web_call list" where
  "calls_since c c' = drop (length (wb_log (wc_backend c))) (wb_log (wc_backend c'))"

definition pushed_only :: "web_client \<Rightarrow> web_client \<Rightarrow> bool" where
  "pushed_only c c' \<longleftrightarrow> wc_isEos c' = wc_isEos c \<and>
     (\<exists>xs. wb_log (wc_backend c') = wb_log (wc_backend c) @ xs \<and> Web_Set_Eos \<notin> set xs)"

lemma pushed_only_refl: "pushed_only c c"
  by (simp add: pushed_only_def)

lemma pushed_only_trans: "pushed_only c c1 \<Longrightarrow> pushed_only c1 c2 \<Longrightarrow> pushed_only c c2"
  by (auto simp: pushed_only_def)

lemma web_call_log:
  "web_call_do env call c = Inr (c', a) \<Longrightarrow>
   c' = c\<lparr>wc_backend := (wc_backend c)\<lparr>wb_log := wb_log (wc_backend c) @ [call]\<rparr>\<rparr>"
  by (auto simp: web_call_do_def wb_call_def bind_result_Inr split: if_splits)

lemma push_round_log: "push_round env c = Inr (c', av) \<Longrightarrow> pushed_only c c'"
  by (auto simp: push_round_def write_frames_def pushed_only_def bind_result_Inr Let_def dest!: web_call_log
      split: if_splits list.splits)

text \<open>What every round does, the loop does.\<close>

lemma push_loop_rounds:
  assumes "\<And>c c' av. push_round env c = Inr (c', av) \<Longrightarrow> R c c'" "\<And>c c1 c2. R c c1 \<Longrightarrow> R c1 c2 \<Longrightarrow> R c c2"
  shows "push_loop env c = Some (Inr c') \<Longrightarrow> R c c'"
proof -
  have "env' = env \<longrightarrow> (\<forall>c'. r = Inr c' \<longrightarrow> R c c')" if "push_loop env' c = Some r" for env' c r
    using that
  proof (rule push_loop.raw_induct [where P = "\<lambda>env' c r. env' = env \<longrightarrow> (\<forall>c'. r = Inr c' \<longrightarrow> R c c')", rotated])
    fix loop env' c r
    assume IH: "\<And>env' c r. loop env' c = Some r \<Longrightarrow> env' = env \<longrightarrow> (\<forall>c'. r = Inr c' \<longrightarrow> R c c')"
      and r: "(case push_round env' c of Inl e \<Rightarrow> Some (Inl e)
        | Inr (c, availableFrames) \<Rightarrow>
            if m_dataBuffers c \<noteq> [] \<and> availableFrames \<noteq> 0 then loop env' c else Some (Inr c)) = Some r"
    show "env' = env \<longrightarrow> (\<forall>c'. r = Inr c' \<longrightarrow> R c c')"
      using r assms IH by (auto split: sum.splits if_splits) metis+
  qed
  then show "push_loop env c = Some (Inr c') \<Longrightarrow> R c c'" by blast
qed

lemma push_loop_log:
  assumes "push_loop env c = Some (Inr c')"
  shows "pushed_only c c'"
proof (rule push_loop_rounds [where R = pushed_only and env = env, OF _ _ assms])
  show "pushed_only c c'" if "push_round env c = Inr (c', av)" for c c' av using that by (rule push_round_log)
  show "pushed_only c c2" if "pushed_only c c1" "pushed_only c1 c2" for c c1 c2 using that by (rule pushed_only_trans)
qed

text \<open>The end of the stream is passed on when nothing is queued, after everything else.\<close>

definition eos_in_time :: "web_client \<Rightarrow> web_client \<Rightarrow> bool" where
  "eos_in_time c c' \<longleftrightarrow> (\<exists>xs. wb_log (wc_backend c') = wb_log (wc_backend c) @ xs \<and>
     (Web_Set_Eos \<in> set xs \<longrightarrow> m_dataBuffers c' = [] \<and> wc_isEos c' \<and> (\<exists>ys. xs = ys @ [Web_Set_Eos] \<and> Web_Set_Eos \<notin> set ys)))"

lemma pushSamples_eos:
  assumes "pushSamples env c = Some (Inr c')"
  shows "eos_in_time c c'" "wc_isEos c' = wc_isEos c"
proof -
  have both: "eos_in_time c c' \<and> wc_isEos c' = wc_isEos c"
  proof (cases "m_isOpen c \<and> m_dataBuffers c \<noteq> []")
    case False
    with assms show ?thesis by (auto simp: pushSamples_def eos_in_time_def)
  next
    case True
    with assms obtain c1 where l: "push_loop env c = Some (Inr c1)" "after_push env c1 = Inr c'"
      by (auto simp: pushSamples_def bind_result_Inr)
    obtain xs where xs: "wb_log (wc_backend c1) = wb_log (wc_backend c) @ xs" "Web_Set_Eos \<notin> set xs" "wc_isEos c1 = wc_isEos c"
      using push_loop_log [OF l(1)] by (auto simp: pushed_only_def)
    with l(2) show ?thesis
      by (auto simp: after_push_def set_push_timer_cases eos_in_time_def bind_result_Inr dest!: web_call_log split: if_splits)
  qed
  then show "eos_in_time c c'" "wc_isEos c' = wc_isEos c" by simp_all
qed

section \<open>A stream of whole frames\<close>

text \<open>What happens between two openings: whole buffers, any commands and notifications, the push timer.\<close>

fun stream_action :: "u32 \<Rightarrow> web_action \<Rightarrow> bool" where
  "stream_action fs (Open _) = False"
| "stream_action fs Close = False"
| "stream_action fs (New_Sample (Some b)) = whole_buffer fs b"
| "stream_action fs _ = True"



text \<open>
  An action of a stream calls the player at most once beside the push, or is the push of the queue with
  the new sample. \<open>core\<close> is what matters of a client here: all but the timer, the configuration and the callbacks.
\<close>

definition core :: "web_client \<Rightarrow> bool \<times> web_backend \<times> u32 \<times> web_buffer list \<times> bool" where
  "core c = (m_isOpen c, wc_backend c, m_frameSize c, m_dataBuffers c, wc_isEos c)"

fun new_buffers :: "web_action \<Rightarrow> web_buffer list" where
  "new_buffers (New_Sample (Some b)) = [b]"
| "new_buffers _ = []"

definition quiet_step :: "web_action \<Rightarrow> web_client \<Rightarrow> web_client \<Rightarrow> bool" where
  "quiet_step a c c' \<longleftrightarrow> new_buffers a = [] \<and> (\<exists>xs eos. set xs \<subseteq> {Web_Play, Web_Pause} \<and> (a \<noteq> Notify WEB_END_OF_STREAM \<longrightarrow> eos = wc_isEos c) \<and>
     (eos \<longrightarrow> wc_isEos c) \<and>
     core c' = (m_isOpen c, (wc_backend c)\<lparr>wb_log := wb_log (wc_backend c) @ xs\<rparr>, m_frameSize c, m_dataBuffers c, eos))"

definition push_step :: "web_env \<Rightarrow> web_action \<Rightarrow> web_client \<Rightarrow> web_client \<Rightarrow> bool" where
  "push_step env a c c' \<longleftrightarrow> (\<exists>d e. pushSamples env d = Some (Inr e) \<and> core c' = core e \<and>
     core d = (m_isOpen c, wc_backend c, m_frameSize c, m_dataBuffers c @ new_buffers a, wc_isEos c \<or> a = Set_Eos))"

definition end_step :: "web_action \<Rightarrow> web_client \<Rightarrow> web_client \<Rightarrow> bool" where
  "end_step a c c' \<longleftrightarrow> a = Set_Eos \<and> \<not> wc_isEos c \<and> m_dataBuffers c = [] \<and>
     core c' = (m_isOpen c, (wc_backend c)\<lparr>wb_log := wb_log (wc_backend c) @ [Web_Set_Eos]\<rparr>, m_frameSize c, m_dataBuffers c, True)"

lemma quiet_same: "new_buffers a = [] \<Longrightarrow> core c' = core c \<Longrightarrow> quiet_step a c c'"
  unfolding quiet_step_def by (intro conjI exI [of _ "[]"] exI [of _ "wc_isEos c"]) (simp_all add: core_def)

lemma quiet_forward:
  assumes "forward_if_open env call c = Inr (c', ok)" "call \<in> {Web_Play, Web_Pause}" "new_buffers a = []"
  shows "quiet_step a c c'"
proof (cases "m_isOpen c")
  case True
  then have "c' = c\<lparr>wc_backend := (wc_backend c)\<lparr>wb_log := wb_log (wc_backend c) @ [call]\<rparr>\<rparr>"
    using assms(1) by (auto simp: forward_if_open_def bind_result_Inr dest: web_call_log)
  then show ?thesis unfolding quiet_step_def
    by (intro conjI exI [of _ "[call]"] exI [of _ "wc_isEos c"]) (use assms(2,3) in \<open>auto simp: core_def\<close>)
qed (use assms(1,3) in \<open>simp add: forward_if_open_def quiet_same\<close>)

lemma stream_cases:
  assumes "stream_action fs a" "web_act env a c = Some (Inr c')"
  shows "quiet_step a c c' \<or> end_step a c c' \<or> push_step env a c c'"
proof (cases a)
  case Set_Eos
  show ?thesis
  proof (cases "m_isOpen c \<and> \<not> wc_isEos c")
    case False
    with Set_Eos assms(2) have "c' = c" by (auto simp: web_setEos_def drop_flag_def)
    with Set_Eos show ?thesis by (simp add: quiet_same)
  next
    case True
    let ?c = "c\<lparr>wc_isEos := True\<rparr>"
    show ?thesis
    proof (cases "m_dataBuffers c = []")
      case empty: True
      with Set_Eos True assms(2) obtain x where "web_call_do env Web_Set_Eos ?c = Inr (c', x)"
        by (auto simp: web_setEos_def drop_flag_def bind_result_Inr Let_def)
      from web_call_log [OF this] show ?thesis using Set_Eos True empty by (simp add: end_step_def core_def)
    next
      case False
      with Set_Eos True assms(2) have "pushSamples env ?c = Some (Inr c')"
        by (auto simp: web_setEos_def returns_true_def drop_flag_def bind_result_Inr Let_def)
      then have "push_step env a c c'"
        unfolding push_step_def using Set_Eos by (intro exI [of _ ?c] exI [of _ c']) (simp add: core_def)
      then show ?thesis by simp
    qed
  qed
next
  case (New_Sample b)
  show ?thesis
  proof (cases b)
    case None
    with New_Sample assms(2) show ?thesis by (auto simp: notifyNewSample_def drop_flag_def intro: quiet_same)
  next
    case (Some x)
    let ?c = "c\<lparr>m_pushSamplesTimer := None, m_dataBuffers := m_dataBuffers c @ [x]\<rparr>"
    have "pushSamples env ?c = Some (Inr c')" using New_Sample Some assms(2)
      by (auto simp: notifyNewSample_def set_push_timer_cases returns_true_def drop_flag_def bind_result_Inr split: if_splits)
    then have "push_step env a c c'"
      unfolding push_step_def using New_Sample Some by (intro exI [of _ ?c] exI [of _ c']) (simp add: core_def)
    then show ?thesis by simp
  qed
next
  case Callback
  show ?thesis
  proof (cases "in_callback c")
    case True
    with Callback assms(2) obtain e where "pushSamples env c = Some (Inr e)" "c' = callback_ends e"
      by (auto simp: notifyPushSamplesTimerExpired_def bind_result_Inr)
    then have "push_step env a c c'"
      unfolding push_step_def using Callback by (intro exI [of _ c] exI [of _ e]) (simp add: core_def callback_ends_def)
    then show ?thesis by simp
  qed (use Callback assms(2) in \<open>simp add: quiet_same\<close>)
next
  case Play
  with assms(2) obtain ok where f: "forward_if_open env Web_Play c = Inr (c', ok)"
    by (auto simp: web_play_def drop_flag_def bind_result_Inr)
  have "quiet_step a c c'" using quiet_forward [OF f] Play by simp
  then show ?thesis by simp
next
  case Pause
  with assms(2) obtain ok where f: "forward_if_open env Web_Pause c = Inr (c', ok)"
    by (auto simp: web_pause_def drop_flag_def bind_result_Inr)
  have "quiet_step a c c'" using quiet_forward [OF f] Pause by simp
  then show ?thesis by simp
next
  case Expire
  with assms(2) have "core c' = core c" by (auto simp: timer_expires_def core_def split: option.splits if_splits)
  with Expire show ?thesis by (simp add: quiet_same)
next
  case (Notify st)
  then have c': "c' = (if st = WEB_END_OF_STREAM then c\<lparr>wc_isEos := False\<rparr> else c)"
    using assms(2) by (auto simp: notifyState_def split: web_state.splits)
  have "quiet_step a c c'" unfolding quiet_step_def
    by (intro conjI exI [of _ "[]"] exI [of _ "wc_isEos c'"]) (simp_all add: c' Notify core_def)
  then show ?thesis by simp
qed (use assms(1) in simp_all)



lemma eos_in_time_core:
  "eos_in_time c c' \<longleftrightarrow> (\<exists>xs. wb_log (fst (snd (core c'))) = wb_log (fst (snd (core c))) @ xs \<and>
     (Web_Set_Eos \<in> set xs \<longrightarrow> fst (snd (snd (snd (core c')))) = [] \<and> snd (snd (snd (snd (core c')))) \<and>
       (\<exists>ys. xs = ys @ [Web_Set_Eos] \<and> Web_Set_Eos \<notin> set ys)))"
  by (simp add: eos_in_time_def core_def)



lemma eos_step:
  assumes "stream_action fs a" "web_act env a c = Some (Inr c')"
  shows "eos_in_time c c'" "wc_isEos c \<and> a \<noteq> Notify WEB_END_OF_STREAM \<longrightarrow> wc_isEos c'"
proof -
  have both: "eos_in_time c c' \<and> (wc_isEos c \<and> a \<noteq> Notify WEB_END_OF_STREAM \<longrightarrow> wc_isEos c')"
    using stream_cases [OF assms]
  proof (elim disjE)
    assume "quiet_step a c c'"
    then show ?thesis by (auto simp: quiet_step_def eos_in_time_core core_def)
  next
    assume "end_step a c c'"
    then show ?thesis by (simp add: end_step_def eos_in_time_core core_def)
  next
    assume "push_step env a c c'"
    then obtain d e where p: "pushSamples env d = Some (Inr e)" "core c' = core e"
      "core d = (m_isOpen c, wc_backend c, m_frameSize c, m_dataBuffers c @ new_buffers a, wc_isEos c \<or> a = Set_Eos)"
      by (auto simp: push_step_def)
    from pushSamples_eos [OF p(1)] p(2,3) show ?thesis by (auto simp: eos_in_time_core core_def)
  qed
  then show "eos_in_time c c'" "wc_isEos c \<and> a \<noteq> Notify WEB_END_OF_STREAM \<longrightarrow> wc_isEos c'" by simp_all
qed












text \<open>A player with room for a hundred frames.\<close>

definition plenty :: web_player where
  "plenty log call = \<lparr>wa_ok = True, wa_frames = 100, wa_device = None, wa_volume = 0\<rparr>"

lemmas stream_simps = drop_flag_def gst_env_def plenty_def notifyNewSample_def set_push_timer_cases in_callback_def web_call_do_player
  returns_true_def pushSamples_def push_loop.simps push_round_def write_frames_def after_push_def web_play_def forward_if_open_def
  notifyState_def web_setEos_def opened_def new_web_client_def bytes_buffer_def calls_since_def



section \<open>From one opening to the next\<close>

lemma open_keeps:
  assumes "web_open env st c = Inr (c', ok)"
  shows "m_dataBuffers c' = m_dataBuffers c" "wc_isEos c' = wc_isEos c"
proof -
  have "m_dataBuffers c' = m_dataBuffers c \<and> wc_isEos c' = wc_isEos c" if "open_body env m p c = Inr (c', ok)" for m p
    using that
    by (auto simp: open_body_def store_device_info_def bind_result_Inr Let_def dest!: web_call_log
      split: if_splits prod.splits option.splits)
  with assms show "m_dataBuffers c' = m_dataBuffers c" "wc_isEos c' = wc_isEos c"
    by (auto simp: web_open_def Let_def split: option.splits if_splits prod.splits)
qed

lemma close_keeps: "web_close c = Inr (c', ok) \<Longrightarrow> m_dataBuffers c' = m_dataBuffers c \<and> wc_isEos c' = wc_isEos c"
  by (auto simp: web_close_def set_push_timer_cases bind_result_Inr split: if_splits)

text \<open>Only the notification that the stream has ended takes the mark back.\<close>

lemma eos_sticks:
  assumes "web_act env a c = Some (Inr c')" "a \<noteq> Notify WEB_END_OF_STREAM" "wc_isEos c"
  shows "wc_isEos c'"
proof (cases a)
  case (Open st)
  with assms open_keeps(2) show ?thesis by (auto simp: drop_flag_def bind_result_Inr)
next
  case Close
  with assms show ?thesis by (auto simp: drop_flag_def bind_result_Inr dest: close_keeps)
next
  case (New_Sample b)
  show ?thesis
  proof (cases b)
    case None
    with eos_step(2) [of 0 a env c c'] New_Sample assms show ?thesis by simp
  next
    case (Some x)
    with New_Sample assms show ?thesis
      by (auto simp: notifyNewSample_def set_push_timer_cases returns_true_def drop_flag_def bind_result_Inr
        dest!: pushSamples_eos(2) split: if_splits)
  qed
qed (use eos_step(2) [of 0 a env c c'] assms in simp_all)

lemma eos_sticks_run:
  "web_run env as c = Some (Inr c') \<Longrightarrow> list_all (\<lambda>a. a \<noteq> Notify WEB_END_OF_STREAM) as \<Longrightarrow> wc_isEos c \<Longrightarrow> wc_isEos c'"
proof (induction as arbitrary: c)
  case (Cons a as)
  then show ?case by (auto split: option.splits sum.splits dest: eos_sticks)
qed simp

text \<open>
  C22. A closed client keeps its stream. \<open>close\<close> forgets neither the samples that are queued nor that the end of
  the stream was announced. A client that is closed and opened again before the server has reported the end
  plays the samples of the old stream first; it refuses the announcement of the new stream's end without
  telling the player; and it tells the player that the stream has ended as soon as the player has taken what is
  queued, after the first sample of the new stream.
\<close>

theorem close_keeps_the_stream:
  assumes "wc_isEos c" "web_run env [Close, Open st] c = Some (Inr c1)"
    and "web_run env as c1 = Some (Inr c2)" "list_all (\<lambda>a. a \<noteq> Notify WEB_END_OF_STREAM) as"
  shows "m_dataBuffers c1 = m_dataBuffers c \<and> web_setEos env c2 = Some (Inr (c2, False)) \<and>
    (\<forall>b c3 ok. m_isOpen c2 \<and> notifyNewSample env (Some b) c2 = Some (Inr (c3, ok)) \<and> m_dataBuffers c3 = [] \<longrightarrow>
      last (wb_log (wc_backend c3)) = Web_Set_Eos)"
proof (intro conjI allI impI)
  show "m_dataBuffers c1 = m_dataBuffers c"
    using assms(2) by (auto simp: drop_flag_def bind_result_Inr split: sum.splits dest!: close_keeps open_keeps(1))
  have "web_run env ([Close, Open st] @ as) c = Some (Inr c2)"
    using assms(2,3) by (auto split: sum.splits option.splits)
  then have e: "wc_isEos c2" by (rule eos_sticks_run) (use assms(1,4) in simp_all)
  then show "web_setEos env c2 = Some (Inr (c2, False))" by (simp add: web_setEos_def)
  fix b c3 ok
  assume n: "m_isOpen c2 \<and> notifyNewSample env (Some b) c2 = Some (Inr (c3, ok)) \<and> m_dataBuffers c3 = []"
  let ?c = "c2\<lparr>m_pushSamplesTimer := None, m_dataBuffers := m_dataBuffers c2 @ [b]\<rparr>"
  have "pushSamples env ?c = Some (Inr c3)"
    using n by (auto simp: notifyNewSample_def set_push_timer_cases returns_true_def bind_result_Inr split: if_splits)
  then obtain d where d: "push_loop env ?c = Some (Inr d)" "after_push env d = Inr c3"
    using n by (auto simp: pushSamples_def bind_result_Inr)
  have "wc_isEos d" using push_loop_log [OF d(1)] e by (simp add: pushed_only_def)
  with d(2) n show "last (wb_log (wc_backend c3)) = Web_Set_Eos"
    by (auto simp: after_push_def set_push_timer_cases bind_result_Inr dest!: web_call_log split: if_splits)
qed

text \<open>A client that is stopped while it waits for the end of the stream, with a frame still queued.\<close>

definition ending_client :: web_client where
  "ending_client = opened\<lparr>wc_isEos := True, m_dataBuffers := [bytes_buffer [1,2,3,4]]\<rparr>"

lemma reopened:
  "\<exists>c1 c2 c3. web_run (gst_env plenty) [Close, Open stereo_caps] ending_client = Some (Inr c1) \<and>
     web_run (gst_env plenty) [Play] c1 = Some (Inr c2) \<and> m_isOpen c2 \<and>
     notifyNewSample (gst_env plenty) (Some (bytes_buffer [5,6,7,8])) c2 = Some (Inr (c3, True)) \<and> m_dataBuffers c3 = []"
  by (simp add: ending_client_def web_close_def destroyWebAudioBackend_def open_simps stream_simps Let_def)

theorem close_keeps_the_stream_witness:
  "\<exists>c1 c2 c3. web_run (gst_env plenty) [Close, Open stereo_caps] ending_client = Some (Inr c1) \<and>
     m_dataBuffers c1 = [bytes_buffer [1,2,3,4]] \<and> web_run (gst_env plenty) [Play] c1 = Some (Inr c2) \<and>
     notifyNewSample (gst_env plenty) (Some (bytes_buffer [5,6,7,8])) c2 = Some (Inr (c3, True)) \<and>
     last (wb_log (wc_backend c3)) = Web_Set_Eos"
proof -
  obtain c1 c2 c3 where r: "web_run (gst_env plenty) [Close, Open stereo_caps] ending_client = Some (Inr c1)"
    "web_run (gst_env plenty) [Play] c1 = Some (Inr c2)" "m_isOpen c2"
    "notifyNewSample (gst_env plenty) (Some (bytes_buffer [5,6,7,8])) c2 = Some (Inr (c3, True))" "m_dataBuffers c3 = []"
    using reopened by blast
  have e: "wc_isEos ending_client" "m_dataBuffers ending_client = [bytes_buffer [1,2,3,4]]" by (simp_all add: ending_client_def)
  from close_keeps_the_stream [OF e(1) r(1,2)] r e(2) show ?thesis by auto
qed

end
