(* ===== verification/Spec2Isabelle.thy ===== *)
theory Spec2Isabelle
  imports Message_Queue Timer_Model Control_Backend Gst_Types Eme_Utils Buffer_Parser Mse_Utils
    Base_Sink Client_Backend Mse_Client Video_Rectangle Player_Manager
    Sink_Element Audio_Sink Video_Sink Sink_System Sink_Protocol Data_Path Pull_Steps Seek_Protocol Event_System
    Web_Audio_Client Web_Audio_Sink Sink_Lifecycle Plugin
    Notifications Seek_Wait Stop_Restart Web_Audio_Session
begin

text \<open>
  The Rialto GStreamer sinks: GStreamer elements that play through the Rialto server. An application puts a
  video and an audio sink for Media Source Extensions (or a web audio sink) into its pipeline; the sinks queue
  what arrives on their pads and hand it to a client object, which talks to the server. This development models
  the code under \<open>src/source\<close>.

  \<^bold>\<open>Parts and theories.\<close>
  \<^item> \<open>Rialto_Prelude\<close>: words at the widths of the code, faults as values (\<open>'a
    result\<close>, \<open>yields\<close>), association lists for the containers whose order is observed,
    theorem collections. \<open>C_Strings\<close>: \<open>%u\<close> of \<open>sprintf\<close> and
    \<open>sscanf\<close>, and \<open>strtoul\<close>. \<open>Event_System\<close>: the locales
    \<open>event_system\<close>, \<open>guarded_system\<close>, \<open>safe_system\<close> and
    \<open>refining_system\<close> of systems that take one action after another, from which the client, the
    managers, the sinks, the data paths, the seek protocol, the delivery of notifications, the race for the seek
    mutex and the destruction of sinks get their invariants and refinements. \<open>Gst_Types\<close>: GStreamer's data as the sources see them, and
    \<open>GStreamerUtils.cpp\<close>.
  \<^item> \<open>Message_Queue\<close> (\<open>MessageQueue.cpp\<close>): the event loop and its callers as an
    interleaving step relation, and the sequential queue \<open>squeue\<close> it refines; the locale
    \<open>event_queue\<close> is the interface, interpreted on both. \<open>Timer_Model\<close>
    (\<open>Timer.cpp\<close>): the timer's thread against any number of threads in \<open>cancel\<close>, the test of
    \<open>m_active\<close> and the call of the callback as separate steps. \<open>Control_Backend\<close>
    (\<open>ControlBackend.h\<close>): the wait for the running state.
  \<^item> \<open>Eme_Utils\<close> (\<open>GStreamerEMEUtils.cpp\<close>), \<open>Buffer_Parser\<close>
    (\<open>BufferParser.cpp\<close>), \<open>Mse_Utils\<close> (\<open>GStreamerMSEUtils.cpp\<close>):
    protection metadata, media segments, supported caps.
  \<^item> \<open>Base_Sink\<close> (\<open>RialtoGStreamerMSEBaseSink.cpp\<close>): the private state of a
    sink, its sample queue with the streaming thread that may wait in \<open>chain\<close>, notifications of the
    server, properties. The locale \<open>async_element\<close> states how a pending state change is completed;
    its extension \<open>ending_element\<close> adds how the end of the stream is reported; the MSE and the web
    audio sink are interpretations of both. The locale \<open>sample_source\<close> is what the client's pullers
    rely on: front, pop and end of stream.
  \<^item> \<open>Client_Backend\<close> (\<open>MediaPlayerClientBackend.h\<close>) and
    \<open>Mse_Client\<close> (\<open>GStreamerMSEMediaPlayerClient.cpp\<close>): the media player client with
    its event loop, its sources, their pullers, and the seek protocol; \<open>mse\<close> is a client with the
    sinks it calls back. \<open>Video_Rectangle\<close>: its two operations on text.
    \<open>Seek_Protocol\<close>: the abstract machine of a seek (which sources are seeking, what the server has
    answered) that the client refines, and when a seek completes. \<open>Pull_Steps\<close>: the handler of a
    pull request as a thread of its own, one step between two locks, against the streaming thread and flushes, and
    what becomes of every sample: stored, refused by the pipeline, or not mappable.
    \<open>Notifications\<close>: what the server reports, on its way through the event loop to the sinks it concerns, the
    end of a seek by \<open>FLUSHED\<close> or \<open>FAILURE\<close> included.
    \<open>Seek_Wait\<close>: the part of a seek under \<open>m_seekMutex\<close>, its thread against the event loop, and the wait
    for the server against a stop of the sink. \<open>Stop_Restart\<close>: what a sink still remembers when it is started
    again.
  \<^item> \<open>Player_Manager\<close> (\<open>MediaPlayerManager.cpp\<close>): the clients shared by the
    sinks of a bin; \<open>world\<close> holds all managers, clients and sinks.
  \<^item> \<open>Sink_Element\<close> (the rest of the base sink: state changes, events, queries, seeks),
    \<open>Audio_Sink\<close>, \<open>Video_Sink\<close> (the two subclasses); the locale
    \<open>client_pool\<close> is what the sinks rely on to get a client, ask for control and call it.
    \<open>Sink_System\<close> (any number of sinks, clients and server threads, one action after another),
    \<open>Sink_Protocol\<close> (what the operations of a sink do in every reachable world),
    \<open>Data_Path\<close> (the samples on their way from the pad to the pipeline, a pull request at a time),
    \<open>Sink_Lifecycle\<close> (what the classes declare of their properties and templates, and the
    destruction of sinks).
  \<^item> \<open>Web_Audio_Client\<close> (\<open>GStreamerWebAudioPlayerClient.cpp\<close>,
    \<open>WebAudioClientBackend.h\<close>), \<open>Web_Audio_Session\<close> (that client over a whole stream, and from one
    opening to the next), \<open>Web_Audio_Sink\<close>
    (\<open>RialtoGStreamerWebAudioSink.cpp\<close>), \<open>Plugin\<close>
    (\<open>RialtoGSteamerPlugin.cpp\<close>).

  \<^bold>\<open>How the code is modelled.\<close> An operation is a function on a record of the state, with the
  fields of the class or structure. A critical section, an event loop body or a message is one atomic step;
  where the interleaving matters (the message queue, the timer, the chain function, the sink system) there is an
  explicit step per atomic piece. The sink system and \<open>Data_Path\<close> take a pull request as one step;
  \<open>Pull_Steps\<close> takes it apart, which is where a flush frees a sample the puller still holds. A wait
  on a condition variable is a state (\<open>Chain_Waiting\<close>, \<open>m_seekWaiting\<close>) with an
  operation that goes on after the wake-up. \<open>Sink_Element\<close> takes the call of \<open>seek\<close> under
  \<open>m_seekMutex\<close> and the start of the wait as one step; \<open>Seek_Wait\<close> takes them apart, and shows that the
  one step is what they do undisturbed. Undefined behaviour (a null pointer, a division by zero, an index
  out of range, a freed object) and a thread that joins its own waiter are the faults of \<open>result\<close>.
  The Rialto server, GStreamer and the surroundings are parameters: functions from the history of calls, and the
  records \<open>environment\<close>, \<open>web_env\<close>, \<open>web_sink_env\<close>. Where a theorem
  relies on what GStreamer documents (\<open>keeps_caps\<close>, \<open>resize_documented\<close>,
  \<open>resize_rejects\<close>), that is a hypothesis.

  \<^bold>\<open>What the theorems show.\<close> Safety of the whole: no sequence of actions makes a client or a
  system of sinks dereference a null pointer, index out of range or divide by zero; queues stay within 24
  samples; bins share one client and give one sink control, which it keeps until it is released. Protocols: the event loop releases every caller and
  refines a sequential queue; pulling stops while a source seeks and resumes when all do; a flushing seek
  reaches the server and waits for it; one seek completes when every source has started it and the server has
  flushed, and it gets through to the pipeline if the server was not seeking; a sink is told what the server
  reports, once and in order, and the end of the stream reaches the application unless the sink is stopped first;
  the path from the pad to the pipeline is a channel that keeps order and bytes, also step by step and with
  rejections, and loses only what the pipeline refuses, what cannot be mapped and what is flushed; requests for data
  are answered once, and a pull request in bounded time; a cancelled timer calls nobody once \<open>cancel\<close> has returned;
  asynchronous state changes are announced and completed once; destroyed sinks leave no client behind;
  pipelines are created within the declared sizes; buffers of whole frames are pushed without loss, and all of
  them before the end of the stream, which is told once. Data: subsample tables, segments, rectangles and ranks are read as they are
  written; a sink accepts the caps it advertises. And the faults the code has: samples sent unprotected, a sample freed while it is parsed, seeks that
  strand, a seek that deadlocks with the event loop, a stop that leaves the seeking thread waiting, a push timer
  that deadlocks, a leftover that is pushed for ever, a request to play and an end of stream that outlive a stop.

  \<^bold>\<open>Termination and bounds.\<close> \<open>pull_loop\<close> keeps the code's 32-bit frame counter against
  a 64-bit frame count, so that the count alone does not end it for \<open>2 ^ 32\<close> frames or more; it terminates because
  every round takes a sample off the queue. \<open>subsample_loop\<close> recurses on the subsamples, \<open>decimal\<close> on the number.
  \<open>push_loop\<close> may run for ever and is a partial function: \<open>None\<close> is an operation that
  does not return; for whole frames it returns, by the measure \<open>push_work\<close>. A pull request for
  fewer than \<open>2 ^ 32\<close> frames, \<open>n\<close> of them, is answered within \<open>4 * n + 2\<close> steps of its thread, a frame taking at
  most four. A client left to its worker and pullers is at rest after \<open>work\<close> turns: three for a request, two for a
  pull, one for any other message. The event loop gets to a seek, and to the end of the stream, after one turn for each message ahead.
  The reference count of a bin has 32 bits, so a system has fewer than \<open>2 ^ 32\<close> sinks.

  \<^bold>\<open>Not modelled.\<close> Logging; type registration (\<open>G_DEFINE_TYPE\<close>, debug
  categories, pad template objects); the factories that only allocate; time (a timeout may come at any moment);
  spurious wake-ups in the system of sinks (the lemma \<open>spurious_wakeups_overfill\<close> of
  \<open>Base_Sink\<close> shows what they do to the sample queue); the memory model of C++ below the atomic
  steps; reference counts, except for the buffers of the web audio client; the tests, mocks and the build. The
  notifications the client ignores (\<open>notifyNativeSize\<close>, \<open>notifyNetworkState\<close>, \<open>notifyVideoData\<close>,
  \<open>notifyAudioData\<close>, \<open>notifyCancelNeedMediaData\<close>) have empty bodies and no definition. What else is
  left of the sources are functions that only pass a call on (the destructors of the queue and of the web audio
  client, \<open>notifyApplicationState\<close> of the control client), declarations, macros of the type system and licences.
\<close>

section \<open>Advertised caps\<close>

fun source_mime :: "media_source \<Rightarrow> string" where
  "source_mime (MediaSourceAudio mime _ _ _ _ _) = mime"
| "source_mime (MediaSourceVideo mime _ _ _ _ _ _) = mime"
| "source_mime (MediaSourceVideoDolbyVision mime _ _ _ _ _ _ _) = mime"

definition source_for :: "opus_utils \<Rightarrow> audio_config \<Rightarrow> base_sink \<Rightarrow> string \<Rightarrow> gst_structure \<Rightarrow> media_source option" where
  "source_for opus config s mime st =
     (if g_str_has_prefix mime ''audio/'' then rialto_mse_audio_sink_create_media_source opus config s st
      else rialto_mse_video_sink_create_media_source s st)"

text \<open>
  C19. A sink accepts what it advertises. For every mime type of the table, caps with the structure name
  that is advertised for it are made into a media source of that mime type by the sink of that kind,
  provided GStreamer can read the Opus caps. The one exception is \<open>audio/aac\<close>, whose caps become a source
  of \<open>audio/mp4\<close>.
\<close>

theorem advertised_caps_accepted:
  assumes "kMimeToCaps mime = Some cs" "caps \<in> set cs" "gst_name st = Some (takeWhile (\<lambda>x. x \<noteq> CHR '','') caps)"
    and "mime = ''audio/x-opus'' \<Longrightarrow> opus_parse_caps opus st \<noteq> None"
  shows "map_option source_mime (source_for opus config s mime st) =
    Some (if mime = ''audio/aac'' then ''audio/mp4'' else mime)"
proof -
  have m: "(mime, cs) \<in> set [(''audio/mp4'', [''audio/mpeg, mpegversion=1'', ''audio/mpeg, mpegversion=2'',
         ''audio/mpeg, mpegversion=4'']),
      (''audio/aac'', [''audio/mpeg, mpegversion=2'', ''audio/mpeg, mpegversion=4'']),
      (''audio/x-eac3'', [''audio/x-ac3'', ''audio/x-eac3'']),
      (''audio/x-opus'', [''audio/x-opus'']),
      (''video/h264'', [''video/x-h264'']),
      (''video/h265'', [''video/x-h265'']),
      (''video/x-av1'', [''video/x-av1'']),
      (''video/x-vp9'', [''video/x-vp9''])]"
    using assms(1) unfolding kMimeToCaps_def by (rule map_of_SomeD)
  consider "mime = ''audio/mp4'' \<or> mime = ''audio/aac''" "gst_name st = Some ''audio/mpeg''"
    | "mime = ''audio/x-eac3''" "gst_name st = Some ''audio/x-ac3'' \<or> gst_name st = Some ''audio/x-eac3''"
    | "mime = ''audio/x-opus''" "gst_name st = Some ''audio/x-opus''"
    | "mime = ''video/h264''" "gst_name st = Some ''video/x-h264''"
    | "mime = ''video/h265''" "gst_name st = Some ''video/x-h265''"
    | "mime = ''video/x-av1''" "gst_name st = Some ''video/x-av1''"
    | "mime = ''video/x-vp9''" "gst_name st = Some ''video/x-vp9''"
    using m assms(2) unfolding assms(3) by (simp only: list.set insert_iff empty_iff prod.inject) (elim disjE conjE; simp; elim disjE; simp)
  then show ?thesis
    by cases (use assms(4) in \<open>auto simp: source_for_def g_str_has_prefix_def rialto_mse_audio_sink_create_media_source_def
        rialto_mse_video_sink_create_media_source_def Let_def split: option.split\<close>)
qed

theorem advertised_caps_accepted_witness:
  "map_option source_mime (source_for \<lparr>opus_parse_caps = (\<lambda>_. None), opus_create_header = (\<lambda>_ _ _. \<lparr>mem_mappable = False, mem_bytes = []\<rparr>)\<rparr>
     \<lparr>ac_channels = 0, ac_sampleRate = 0, ac_codecSpecificConfig = []\<rparr> (new_private segment_init) ''audio/aac'' (empty_structure ''audio/mpeg'')) = Some ''audio/mp4''"
  using advertised_caps_accepted [of "''audio/aac''" "[''audio/mpeg, mpegversion=2'', ''audio/mpeg, mpegversion=4'']"
      "''audio/mpeg, mpegversion=2''" "empty_structure ''audio/mpeg''"]
  by (simp add: kMimeToCaps_def empty_structure_def)

section \<open>The end of the stream\<close>

text \<open>
  C4. The end of the stream reaches the application. In every reachable world, when the server reports the end
  of the stream to the client that plays for a sink, then after as many turns of that client's worker as there are
  messages the sink has posted an \<open>EOS\<close> message on its bus, or the error that says it was not playing; in
  \<open>PAUSED\<close> or \<open>PLAYING\<close> it is always \<open>EOS\<close>, and nothing that was on the bus is lost. In between the server may
  report anything else to any client, the event loops and pullers of all clients run, and buffers arrive on the pads
  of all sinks. What is left out are state changes, events, seeks and properties of an element in between: a sink that
  is stopped before the worker's turn has no source any more, and the report is lost to it.
\<close>

theorem eos_reaches_application:
  assumes "reachable_world N (sys_world sys)" "plays_alone c i k (sys_world sys)" "cb_eos (w_sinks (sys_world sys) k)"
    and "keeps_caps (su_env su)" "list_all background as"
    and "length (sq_items (m_backendQueue (clients (sys_world sys) c))) < count_list as (Client_Activity c Worker_Turn)"
  shows "yields (\<lambda>sys'. \<exists>xs. el_bus (element (w_sinks (sys_world sys') k)) = el_bus (element (w_sinks (sys_world sys) k)) @ xs \<and>
      (Eos_Message \<in> set xs \<or> eos_complaint \<in> set xs) \<and>
      (GST_STATE_PAUSED \<le> el_state (element (w_sinks (sys_world sys) k)) \<longrightarrow> Eos_Message \<in> set xs))
    (act_all su (Client_Activity c (client_event.Notify (Playback_State_Message PS_END_OF_STREAM)) # as) sys)"
proof -
  let ?w = "sys_world sys" and ?m = "Playback_State_Message PS_END_OF_STREAM"
  let ?s1 = "sys\<lparr>sys_world := put_mse c (post_backend ?m (mse_of c ?w)) ?w\<rparr>"
  have wi: "world_inv N ?w" and N: "N < 2 ^ 32"
    using reachable_inv [OF assms(1)] assms(1) by (simp_all add: reachable_world_def)
  have own: "owned ?w c" and pl: "plays_alone c i k (sys_world ?s1)"
    using assms(2) by (auto simp: plays_alone_def put_mse_def post_backend_def owned_def mse_of_def routes_to_def)
  have run: "run_inv (mse_of c ?w)" using owned_run [OF wi own] .
  have s1: "act su (Client_Activity c (client_event.Notify ?m)) sys = Inr ?s1" using own by (simp add: in_world_def on_client_def)
  have wi1: "world_inv N (sys_world ?s1)"
    using inv_act [OF wi, of "Client_Activity c (client_event.Notify ?m)" su] s1 assms(4) N by simp
  have at: "mse_of c (sys_world ?s1) = post_backend ?m (mse_of c ?w)" by (simp add: mse_of_def put_mse_def)
  have b: "backend_items (post_backend ?m (mse_of c ?w)) = backend_items (mse_of c ?w) @ [?m]"
    "looks (seen k (post_backend ?m (mse_of c ?w))) = looks (seen k (mse_of c ?w))"
    using run by (simp_all add: post_backend_def sq_post_def run_inv_def mse_of_def looks_def seen_def)
  let ?v = "post_backend ?m (mse_of c ?w)"
  have "delivered k i ?v (inbox ?v, length (backend_items ?v)) ?v"
    using delivered_start [of ?v k i] run_inv_post [OF run, of ?m] pl at by (auto simp: plays_alone_def mse_of_def)
  then have "delivered_in N c k i ?v (inbox ?v, length (backend_items ?v)) ?s1"
    using wi1 pl at by (simp add: delivered_in_def)
  from world_delivery.run_kept [where as = as and su = su, OF this] assms(4,5) N obtain s2 where
    s2: "act_all su as ?s1 = Inr s2" "delivered_in N c k i ?v (fold (sends_to c) as (inbox ?v, length (backend_items ?v))) s2"
    by (auto simp: list_all_iff elim!: yieldsE)
  from s2(2) b(1) assms(6) obtain h where h: "prefix (inbox ?v) h"
    "looks (seen k (mse_of c (sys_world s2))) = looks (fold (told i) h (seen k ?v))"
    by (auto simp: delivered_in_def delivered_def mse_of_def turns_left_in)
  have "?m \<in> set (inbox ?v)" by (simp add: inbox_def b(1))
  then have "?m \<in> set h" using h(1) by (auto simp: prefix_def)
  moreover have "cb_eos (snd (seen k (mse_of c ?w)))" using assms(3) by (simp add: seen_def mse_of_def)
  ultimately obtain xs where
    xs: "el_bus (element (snd (fold (told i) h (seen k (mse_of c ?w))))) = el_bus (element (w_sinks ?w k)) @ xs"
    "Eos_Message \<in> set xs \<or> eos_complaint \<in> set xs"
    "GST_STATE_PAUSED \<le> el_state (element (w_sinks ?w k)) \<longrightarrow> Eos_Message \<in> set xs"
    using eos_told [of h "seen k (mse_of c ?w)" i] by (auto simp: seen_def mse_of_def)
  have "looks (seen k (mse_of c (sys_world s2))) = looks (fold (told i) h (seen k (mse_of c ?w)))"
    using h(2) shown_told_all [OF b(2), of i h] by simp
  then have "element (w_sinks (sys_world s2) k) = element (snd (fold (told i) h (seen k (mse_of c ?w))))"
    by (simp add: looks_def shown_def seen_def mse_of_def)
  with xs s1 s2(1) show ?thesis by auto
qed

text \<open>The prerolled audio sink of \<open>Sink_System\<close>, whose parent class moves the element on.\<close>

definition eos_setup :: sink_setup where
  "eos_setup = example_setup\<lparr>su_env := example_env\<lparr>env_parent_change := (\<lambda>_ el. (el\<lparr>el_state := GST_STATE_PAUSED\<rparr>, GST_STATE_CHANGE_SUCCESS))\<rparr>\<rparr>"

definition eos_schedule :: "sink_action list" where
  "eos_schedule = [Client_Activity 0 (client_event.Notify (Need_Data_Message 1 3 7)), Client_Activity 0 Worker_Turn, Client_Activity 0 (Puller_Turn 1)]"

lemma eos_setup_result:
  "yields (\<lambda>s. let w = sys_world s in
      m_mediaPlayerClientsInfo w = [(7, \<lparr>inf_client = 0, inf_controller = Some 0, inf_refCount = 1\<rparr>)] \<and>
      routes_to 0 (clients w 0) = [1] \<and> cb_eos (w_sinks w 0) \<and> el_state (element (w_sinks w 0)) = GST_STATE_PAUSED \<and>
      sq_items (m_backendQueue (clients w 0)) = [])
   (act_all eos_setup preroll_run (start_system eos_setup segment_init (\<lambda>_. \<lparr>cb_state = INACTIVE, cb_control = True\<rparr>)))"
  by code_simp

theorem eos_reaches_application_witness:
  "\<exists>s. act_all eos_setup preroll_run (start_system eos_setup segment_init (\<lambda>_. \<lparr>cb_state = INACTIVE, cb_control = True\<rparr>)) = Inr s \<and>
     yields (\<lambda>s'. Eos_Message \<in> set (el_bus (element (w_sinks (sys_world s') 0))))
       (act_all eos_setup (Client_Activity 0 (client_event.Notify (Playback_State_Message PS_END_OF_STREAM)) # eos_schedule) s)"
proof -
  from eos_setup_result obtain s where
    s: "act_all eos_setup preroll_run (start_system eos_setup segment_init (\<lambda>_. \<lparr>cb_state = INACTIVE, cb_control = True\<rparr>)) = Inr s"
    and info: "m_mediaPlayerClientsInfo (sys_world s) = [(7, \<lparr>inf_client = 0, inf_controller = Some 0, inf_refCount = 1\<rparr>)]"
    and at: "routes_to 0 (clients (sys_world s) 0) = [1]" "cb_eos (w_sinks (sys_world s) 0)"
      "el_state (element (w_sinks (sys_world s) 0)) = GST_STATE_PAUSED" "sq_items (m_backendQueue (clients (sys_world s) 0)) = []"
    by (auto simp: Let_def elim!: yieldsE)
  have n: "(1::nat) < 2 ^ 32" by simp
  have k: "keeps_caps (su_env eos_setup)" by (simp add: eos_setup_def keeps_caps_def example_env_def)
  from reachable_worldI [OF n k preroll_ok(1) s] have r: "reachable_world 1 (sys_world s)" .
  have p: "plays_alone 0 1 0 (sys_world s)" using info at(1) by (auto simp: plays_alone_def owned_def)
  show ?thesis
    by (intro exI [of _ s] conjI s yields_mono [OF eos_reaches_application [OF r p at(2) k]])
      (use at(3,4) in \<open>auto simp: eos_schedule_def\<close>)
qed

end
